(* ===== verification/C_Base.thy ===== *)
theory C_Base
  imports Main "HOL-Library.Word" "HOL-Library.Monad_Syntax" "HOL-Library.Sublist"
begin

text \<open>
  The C the sources are written in, as far as they use it, and the generic lemmas the components
  share.

  \<^item> A pointer into an array is the list of the array's cells from the pointer on (\<open>cptr\<close>):
    \<open>*p\<close> is the head, \<open>p++\<close> the tail, and reading an empty list is a read outside the array. An
    operation that reads raw arrays returns an \<open>option\<close> whose \<open>None\<close> is undefined behaviour (an
    access outside an object).
  \<^item> A NUL terminated string that is only ever read up to its terminator is the \<open>string\<close> before
    the NUL; reading \<open>*p\<close> at its end gives the NUL.
  \<^item> The functions of the C library the sources call: \<open>strstr\<close>, \<open>strchr\<close>, \<open>strrchr\<close>, \<open>strtol\<close>,
    \<open>atoi\<close>, \<open>atol\<close>, \<open>isspace\<close>, \<open>snprintf\<close> and the conversions \<open>%d\<close>, \<open>%u\<close>, \<open>%zu\<close>, \<open>%.*s\<close>.
\<close>

type_synonym cptr = "char list"
type_synonym u32 = "32 word"

abbreviation NUL :: char where "NUL \<equiv> CHR 0x00"
abbreviation CR :: char where "CR \<equiv> CHR 0x0D"
abbreviation LF :: char where "LF \<equiv> CHR 0x0A"
abbreviation DQ :: char where "DQ \<equiv> CHR 0x22"
abbreviation BSL :: char where "BSL \<equiv> CHR 0x5C"
abbreviation SPC :: char where "SPC \<equiv> CHR 0x20"
abbreviation CRLF :: string where "CRLF \<equiv> [CR, LF]"

section \<open>Integers\<close>

text \<open>The value of an integer converted to \<open>int\<close> (32 bit, two's complement), and a \<open>long\<close>
  converted to \<open>size_t\<close> (64 bit).\<close>

definition i32 :: "int \<Rightarrow> int" where
  "i32 x = (x + 2 ^ 31) mod 2 ^ 32 - 2 ^ 31"

definition in_i32 :: "int \<Rightarrow> bool" where
  "in_i32 x \<longleftrightarrow> - (2 ^ 31) \<le> x \<and> x < 2 ^ 31"

definition size_of_long :: "int \<Rightarrow> nat" where
  "size_of_long x = nat (x mod 2 ^ 64)"

text \<open>The saturation of \<open>strtol\<close> at \<open>LONG_MIN\<close> and \<open>LONG_MAX\<close>.\<close>

definition sat_long :: "int \<Rightarrow> int" where
  "sat_long x = max (- (2 ^ 63)) (min (2 ^ 63 - 1) x)"

lemma i32_id [simp]: "in_i32 x \<Longrightarrow> i32 x = x"
  by (simp add: i32_def in_i32_def)

lemma in_i32_i32 [simp]: "in_i32 (i32 x)"
  by (simp add: i32_def in_i32_def)

lemma i32_wrap: "i32 (x + 2 ^ 32) = i32 x"
proof -
  have "x + 2 ^ 32 + 2 ^ 31 = (x + 2 ^ 31) + 2 ^ 32" by simp
  then show ?thesis unfolding i32_def by (simp only: mod_add_self2)
qed

lemma sat_long_id [simp]: "- (2 ^ 63) \<le> x \<Longrightarrow> x < 2 ^ 63 \<Longrightarrow> sat_long x = x"
  by (simp add: sat_long_def)

lemma sat_long_i32 [simp]: "in_i32 x \<Longrightarrow> sat_long x = x"
  by (simp add: in_i32_def)

lemma size_of_long_id [simp]: "n < 2 ^ 64 \<Longrightarrow> size_of_long (int n) = n"
  by (simp add: size_of_long_def)

section \<open>Characters\<close>

text \<open>In the C locale; the code calls it with a plain \<open>char\<close>, and for the negative values of bytes from 128 on
  glibc's table holds no space.\<close>

definition isspace :: "char \<Rightarrow> bool" where
  "isspace c \<longleftrightarrow> c \<in> {SPC, CHR 0x09, LF, CHR 0x0B, CHR 0x0C, CR}"

definition digit_val :: "char \<Rightarrow> int" where
  "digit_val c = int (of_char c) - 48"

definition isdigit :: "char \<Rightarrow> bool" where
  "isdigit c \<longleftrightarrow> 0 \<le> digit_val c \<and> digit_val c \<le> 9"

definition digit_char :: "nat \<Rightarrow> char" where
  "digit_char d = char_of (48 + d)"

text \<open>\<open>tolower\<close> in the C locale.\<close>

definition tolower :: "char \<Rightarrow> char" where
  "tolower c = (let n = (of_char c :: nat) in if 65 \<le> n \<and> n \<le> 90 then char_of (n + 32) else c)"

lemma digit_char_val [simp]: "d < 10 \<Longrightarrow> digit_val (digit_char d) = int d"
  by (simp add: digit_val_def digit_char_def of_char_of)

lemma isdigit_digit_char [simp]: "d < 10 \<Longrightarrow> isdigit (digit_char d)"
  by (simp add: isdigit_def)

lemma not_isspace_minus [simp]: "\<not> isspace CHR ''-''"
  by (simp add: isspace_def)

lemma isdigit_not_isspace: "isdigit c \<Longrightarrow> \<not> isspace c"
  by (auto simp: isdigit_def isspace_def digit_val_def)


section \<open>Reading raw arrays\<close>

text \<open>\<open>while (*p && P(*p)) p++\<close>, with \<open>None\<close> when the loop leaves the array.\<close>

fun skip_while :: "(char \<Rightarrow> bool) \<Rightarrow> cptr \<Rightarrow> cptr option" where
  "skip_while P [] = None"
| "skip_while P (c # p) = (if c \<noteq> NUL \<and> P c then skip_while P p else Some (c # p))"

text \<open>\<open>while (!stop(*p) && i < n) dst[i++] = *p++\<close>: the copied characters and the pointer after
  them. The test of the loop reads \<open>*p\<close> before it looks at \<open>i\<close>.\<close>

fun copy_until :: "(char \<Rightarrow> bool) \<Rightarrow> nat \<Rightarrow> cptr \<Rightarrow> (string \<times> cptr) option" where
  "copy_until stop n [] = None"
| "copy_until stop n (c # p) =
     (if \<not> stop c \<and> n > 0
      then map_option (\<lambda>(s, q). (c # s, q)) (copy_until stop (n - 1) p)
      else Some ([], c # p))"

text \<open>The comparison \<open>p[0] == x0 && p[1] == x1 && \<dots>\<close>, which stops reading at the first
  difference, under an equality test (\<open>(=)\<close>, or equality up to case).\<close>

fun match_at :: "(char \<Rightarrow> char \<Rightarrow> bool) \<Rightarrow> cptr \<Rightarrow> string \<Rightarrow> bool option" where
  "match_at eq p [] = Some True"
| "match_at eq [] (x # xs) = None"
| "match_at eq (c # p) (x # xs) = (if eq c x then match_at eq p xs else Some False)"

text \<open>An argument of a library function that takes a C string: the array must hold a NUL.\<close>

definition str_arg :: "cptr \<Rightarrow> string option" where
  "str_arg p = (if NUL \<in> set p then Some (takeWhile (\<lambda>c. c \<noteq> NUL) p) else None)"

text \<open>The C string in an array: the bytes before the first NUL.\<close>

definition cstring :: "char list \<Rightarrow> string" where
  "cstring bs = takeWhile (\<lambda>c. c \<noteq> NUL) bs"

text \<open>A JSON object with one \<open>error\<close> member, the form of all error bodies of the program.\<close>

definition error_text :: "string \<Rightarrow> string" where
  "error_text msg = ''{'' @ [DQ] @ ''error'' @ [DQ] @ '':'' @ [DQ] @ msg @ [DQ] @ ''}''"

lemma takeWhile_stop [simp]: "x \<notin> set s \<Longrightarrow> takeWhile (\<lambda>c. c \<noteq> x) (s @ x # r) = s"
  by (induction s) auto

lemma takeWhile_skip [simp]: "x \<notin> set s \<Longrightarrow> takeWhile (\<lambda>c. c \<noteq> x) (s @ t) = s @ takeWhile (\<lambda>c. c \<noteq> x) t"
  by (induction s) auto

lemma dropWhile_stop [simp]: "x \<notin> set s \<Longrightarrow> dropWhile (\<lambda>c. c \<noteq> x) (s @ x # r) = x # r"
  by (induction s) auto

lemma takeWhile_all [simp]: "x \<notin> set s \<Longrightarrow> takeWhile (\<lambda>c. c \<noteq> x) s = s"
  by (induction s) auto

lemma dropWhile_all [simp]: "x \<notin> set s \<Longrightarrow> dropWhile (\<lambda>c. c \<noteq> x) s = []"
  by (induction s) auto

lemma str_arg_append [simp]: "NUL \<notin> set s \<Longrightarrow> str_arg (s @ NUL # r) = Some s"
  by (simp add: str_arg_def)

lemma skip_while_append [simp]:
  "\<forall>c \<in> set s. c \<noteq> NUL \<and> P c \<Longrightarrow> skip_while P (s @ p) = skip_while P p"
  by (induction s) auto

lemma skip_while_length: "skip_while P p = Some q \<Longrightarrow> length q \<le> length p"
  by (induction P p rule: skip_while.induct) (auto split: if_splits)

lemma skip_while_suffix: "skip_while P p = Some q \<Longrightarrow> \<exists>u. p = u @ q \<and> q \<noteq> [] \<and> (\<forall>c \<in> set u. c \<noteq> NUL \<and> P c)"
proof (induction P p rule: skip_while.induct)
  case (2 P c p)
  show ?case
  proof (cases "c \<noteq> NUL \<and> P c")
    case True
    with "2" obtain u where "p = u @ q \<and> q \<noteq> [] \<and> (\<forall>c \<in> set u. c \<noteq> NUL \<and> P c)" by auto
    with True have "c # p = (c # u) @ q \<and> q \<noteq> [] \<and> (\<forall>c \<in> set (c # u). c \<noteq> NUL \<and> P c)" by simp
    then show ?thesis by blast
  next
    case False
    with "2.prems" show ?thesis by auto
  qed
qed simp

lemma copy_until_append [simp]:
  "\<forall>c \<in> set s. \<not> stop c \<Longrightarrow> length s \<le> n \<Longrightarrow>
     copy_until stop n (s @ p) = map_option (\<lambda>(t, q). (s @ t, q)) (copy_until stop (n - length s) p)"
proof (induction s arbitrary: n)
  case Nil
  then show ?case by (cases "copy_until stop n p") auto
next
  case (Cons c s)
  then show ?case
    by (cases "copy_until stop (n - Suc (length s)) p") auto
qed

lemma copy_until_stop [simp]: "stop c \<Longrightarrow> copy_until stop n (c # p) = Some ([], c # p)"
  by simp

lemma copy_until_length: "copy_until stop n p = Some (s, q) \<Longrightarrow> length s \<le> n"
  by (induction stop n p arbitrary: s q rule: copy_until.induct) (auto split: if_splits)

lemma copy_until_parts: "copy_until stop n p = Some (s, q) \<Longrightarrow> p = s @ q \<and> (\<forall>c \<in> set s. \<not> stop c)"
  by (induction stop n p arbitrary: s q rule: copy_until.induct) (auto split: if_splits)

lemma copy_until_Some: "length p > n \<Longrightarrow> \<exists>s q. copy_until stop n p = Some (s, q)"
proof (induction stop n p rule: copy_until.induct)
  case (2 stop n c p)
  then show ?case by (cases "\<not> stop c \<and> n > 0") fastforce+
qed simp

lemma match_at_eq: "length xs \<le> length p \<Longrightarrow> match_at (=) p xs = Some (prefix xs p)"
  by (induction "(=) :: char \<Rightarrow> char \<Rightarrow> bool" p xs rule: match_at.induct) auto

lemma match_at_Some: "length xs \<le> length p \<Longrightarrow> \<exists>b. match_at eq p xs = Some b"
  by (induction eq p xs rule: match_at.induct) auto

section \<open>String searching\<close>

text \<open>The result of a search is the haystack from the found position on.\<close>

fun strstr :: "string \<Rightarrow> string \<Rightarrow> string option" where
  "strstr [] pat = (if pat = [] then Some [] else None)"
| "strstr (c # s) pat = (if prefix pat (c # s) then Some (c # s) else strstr s pat)"

fun strchr :: "string \<Rightarrow> char \<Rightarrow> string option" where
  "strchr [] x = None"
| "strchr (c # s) x = (if c = x then Some (c # s) else strchr s x)"

text \<open>The part of the string before the last occurrence of the character.\<close>

fun before_last :: "string \<Rightarrow> char \<Rightarrow> string option" where
  "before_last [] x = None"
| "before_last (c # s) x =
     (case before_last s x of
        Some t \<Rightarrow> Some (c # t)
      | None \<Rightarrow> (if c = x then Some [] else None))"

lemma strstr_append: "strstr s pat = Some t \<Longrightarrow> \<exists>u. s = u @ t \<and> prefix pat t"
proof (induction s pat rule: strstr.induct)
  case (2 c s pat)
  then show ?case
    by (cases "prefix pat (c # s)") (auto simp: Cons_eq_append_conv)
qed (auto split: if_splits)

lemma strstr_None_iff: "strstr s pat = None \<longleftrightarrow> \<not> sublist pat s"
  by (induction s pat rule: strstr.induct) (auto simp: sublist_Cons_right)

lemma strstr_skip:
  "pat = x # pat' \<Longrightarrow> x \<notin> set v \<Longrightarrow> strstr (v @ s) pat = strstr s pat"
  by (induction v) auto

lemma strstr_here: "prefix pat s \<Longrightarrow> strstr s pat = Some s"
  by (cases s) auto

lemma strchr_append [simp]: "x \<notin> set v \<Longrightarrow> strchr (v @ s) x = strchr s x"
  by (induction v) auto

lemma strchr_None_iff [simp]: "strchr s x = None \<longleftrightarrow> x \<notin> set s"
  by (induction s) auto

lemma strchr_Some: "strchr s x = Some t \<Longrightarrow> \<exists>u r. s = u @ t \<and> t = x # r \<and> x \<notin> set u"
proof (induction s)
  case (Cons c s)
  then show ?case
    by (cases "c = x") (auto simp: Cons_eq_append_conv)
qed simp

lemma before_last_None_iff [simp]: "before_last s x = None \<longleftrightarrow> x \<notin> set s"
  by (induction s) (auto split: option.splits)

lemma before_last_append [simp]: "x \<notin> set r \<Longrightarrow> before_last (s @ x # r) x = Some s"
  by (induction s) (auto split: option.splits)

lemma prefix_before: "x \<notin> set p \<Longrightarrow> prefix p (s @ x # t) \<longleftrightarrow> prefix p s"
proof (induction p arbitrary: s)
  case (Cons c p)
  then show ?case by (cases s) auto
qed simp

section \<open>Numbers in text\<close>

text \<open>\<open>%d\<close>, \<open>%u\<close> and \<open>%zu\<close>.\<close>

fun show_nat :: "nat \<Rightarrow> string" where
  "show_nat n = (if n < 10 then [digit_char n] else show_nat (n div 10) @ [digit_char (n mod 10)])"

declare show_nat.simps [simp del]

definition show_int :: "int \<Rightarrow> string" where
  "show_int i = (if i < 0 then CHR ''-'' # show_nat (nat (- i)) else show_nat (nat i))"

text \<open>The digits \<open>strtol\<close> accumulates, and the rest of the text.\<close>

fun scan_digits :: "int \<Rightarrow> string \<Rightarrow> int \<times> string" where
  "scan_digits acc [] = (acc, [])"
| "scan_digits acc (c # s) =
     (if isdigit c then scan_digits (acc * 10 + digit_val c) s else (acc, c # s))"

text \<open>\<open>strtol(p, &end, 10)\<close>: the value and the end pointer, which is \<open>p\<close> itself when there is no
  number.\<close>

definition strtol :: "string \<Rightarrow> int \<times> string" where
  "strtol p =
     (let q = dropWhile isspace p;
          neg = (q \<noteq> [] \<and> hd q = CHR ''-'');
          r = (if q \<noteq> [] \<and> hd q \<in> {CHR ''-'', CHR ''+''} then tl q else q)
      in if r = [] \<or> \<not> isdigit (hd r) then (0, p)
         else (let (v, e) = scan_digits 0 r in (sat_long (if neg then - v else v), e)))"

definition atol :: "string \<Rightarrow> int" where
  "atol p = fst (strtol p)"

definition atoi :: "string \<Rightarrow> int" where
  "atoi p = i32 (fst (strtol p))"

text \<open>\<open>snprintf(buf, sz, \<dots>)\<close> of a formatted text: what the buffer holds before its NUL, and the
  returned length of the whole text. \<open>fmt_prec\<close> is \<open>%.*s\<close> of a NUL terminated array.\<close>

definition snprintf :: "nat \<Rightarrow> string \<Rightarrow> string \<times> nat" where
  "snprintf sz s = (take (sz - 1) s, length s)"

definition fmt_prec :: "int \<Rightarrow> string \<Rightarrow> string" where
  "fmt_prec n s = (if n < 0 then s else take (nat n) s)"

text \<open>\<open>sz - 1\<close> in \<open>size_t\<close>, which wraps around at 0.\<close>

definition size_pred :: "nat \<Rightarrow> nat" where
  "size_pred sz = (if sz = 0 then 2 ^ 64 - 1 else sz - 1)"

lemma size_pred_pos [simp]: "0 < sz \<Longrightarrow> size_pred sz = sz - 1"
  by (simp add: size_pred_def)

lemma snprintf_fits: "snprintf sz s = (t, n) \<Longrightarrow> n < sz \<Longrightarrow> t = s \<and> n = length s"
  by (auto simp: snprintf_def)

lemma show_nat_nonempty [simp]: "show_nat n \<noteq> []"
  by (subst show_nat.simps) simp

lemma isdigit_show_nat: "c \<in> set (show_nat n) \<Longrightarrow> isdigit c"
proof (induction n rule: show_nat.induct)
  case (1 n)
  show ?case
  proof (cases "n < 10")
    case True
    with "1.prems" show ?thesis by (simp add: show_nat.simps [of n])
  next
    case False
    with "1.prems" consider "c \<in> set (show_nat (n div 10))" | "c = digit_char (n mod 10)"
      by (auto simp: show_nat.simps [of n])
    then show ?thesis using "1.IH" [OF False] by cases auto
  qed
qed

lemma hd_show_nat [simp]: "isdigit (hd (show_nat n))"
  by (rule isdigit_show_nat [OF hd_in_set]) simp

lemma scan_digits_append:
  "\<forall>c \<in> set s. isdigit c \<Longrightarrow> scan_digits acc (s @ t) = scan_digits (fst (scan_digits acc s)) t"
  by (induction s arbitrary: acc) auto

lemma scan_digits_all: "\<forall>c \<in> set s. isdigit c \<Longrightarrow> snd (scan_digits acc s) = []"
  by (induction s arbitrary: acc) auto

lemma scan_digits_show_nat: "fst (scan_digits 0 (show_nat n)) = int n"
proof (induction n rule: show_nat.induct)
  case (1 n)
  show ?case
  proof (cases "n < 10")
    case True
    then show ?thesis by (simp add: show_nat.simps [of n])
  next
    case False
    have "scan_digits 0 (show_nat n) = scan_digits (int (n div 10)) [digit_char (n mod 10)]"
      using False "1.IH" by (simp add: show_nat.simps [of n] scan_digits_append isdigit_show_nat)
    moreover have "int (n div 10) * 10 + int (n mod 10) = int n" by presburger
    ultimately show ?thesis by simp
  qed
qed

lemma scan_digits_show_nat_append:
  "t = [] \<or> \<not> isdigit (hd t) \<Longrightarrow> scan_digits 0 (show_nat n @ t) = (int n, t)"
  by (cases t) (auto simp: scan_digits_append isdigit_show_nat scan_digits_show_nat scan_digits_all
      intro!: prod_eqI)

lemma strtol_show_int:
  assumes t: "t = [] \<or> \<not> isdigit (hd t)" and v: "- (2 ^ 63) \<le> v" "v < 2 ^ 63"
  shows "strtol (show_int v @ t) = (v, t)"
proof -
  let ?q = "show_int v @ t"
  have drop: "dropWhile isspace ?q = ?q"
  proof -
    have "\<not> isspace (hd ?q)"
      using isdigit_not_isspace [OF hd_show_nat, of "nat v"]
      by (simp add: show_int_def hd_append)
    then show ?thesis by (cases ?q) auto
  qed
  have nosign: "hd (show_nat n) \<noteq> CHR ''-''" "hd (show_nat n) \<noteq> CHR ''+''" for n
    using hd_show_nat [of n] by (auto simp: isdigit_def digit_val_def)
  show ?thesis
  proof (cases "v < 0")
    case True
    with t v show ?thesis
      by (simp add: strtol_def show_int_def Let_def hd_append scan_digits_show_nat_append)
  next
    case False
    then have "dropWhile isspace (show_nat (nat v) @ t) = show_nat (nat v) @ t"
      using drop by (simp add: show_int_def)
    with False t v nosign show ?thesis
      by (simp add: strtol_def show_int_def Let_def hd_append scan_digits_show_nat_append)
  qed
qed

lemma strtol_show_int_i32:
  "in_i32 v \<Longrightarrow> t = [] \<or> \<not> isdigit (hd t) \<Longrightarrow> strtol (show_int v @ t) = (v, t)"
  by (rule strtol_show_int) (auto simp: in_i32_def)

lemma atoi_show_int:
  "in_i32 v \<Longrightarrow> t = [] \<or> \<not> isdigit (hd t) \<Longrightarrow> atoi (show_int v @ t) = v"
  by (simp add: atoi_def strtol_show_int_i32)

lemma show_int_of_nat [simp]: "show_int (int n) = show_nat n"
  by (simp add: show_int_def)

lemma strtol_show_nat:
  "n < 2 ^ 63 \<Longrightarrow> t = [] \<or> \<not> isdigit (hd t) \<Longrightarrow> strtol (show_nat n @ t) = (int n, t)"
  using strtol_show_int [of t "int n"] by simp

lemma length_show_nat: "n < 10 ^ k \<Longrightarrow> 0 < k \<Longrightarrow> length (show_nat n) \<le> k"
proof (induction n arbitrary: k rule: show_nat.induct)
  case (1 n)
  show ?case
  proof (cases "n < 10")
    case True
    with "1.prems" show ?thesis by (simp add: show_nat.simps [of n])
  next
    case False
    then obtain j where k: "k = Suc j" and j: "0 < j"
      using "1.prems" by (cases k; cases "k - 1") auto
    from "1.prems" k have "n div 10 < 10 ^ j" by (simp add: less_mult_imp_div_less mult.commute)
    from "1.IH" [OF False this j] False k show ?thesis by (simp add: show_nat.simps [of n])
  qed
qed

lemma length_show_int:
  assumes "in_i32 v"
  shows "length (show_int v) \<le> 11"
proof -
  have "length (show_nat (nat \<bar>v\<bar>)) \<le> 10"
    using assms by (intro length_show_nat) (auto simp: in_i32_def)
  then show ?thesis by (auto simp: show_int_def)
qed

lemma NUL_notin_show_nat [simp]: "NUL \<notin> set (show_nat n)"
  using isdigit_show_nat [of NUL n] by (auto simp: isdigit_def digit_val_def)

lemma CR_notin_show_nat [simp]: "CR \<notin> set (show_nat n)"
  using isdigit_show_nat [of CR n] by (auto simp: isdigit_def digit_val_def)

lemma LF_notin_show_nat [simp]: "LF \<notin> set (show_nat n)"
  using isdigit_show_nat [of LF n] by (auto simp: isdigit_def digit_val_def)

lemma notin_show_int [simp]:
  "NUL \<notin> set (show_int v)" "CR \<notin> set (show_int v)" "LF \<notin> set (show_int v)"
  by (simp_all add: show_int_def)

lemma show_int_nonempty [simp]: "show_int v \<noteq> []"
  by (simp add: show_int_def)

end
