(* ===== verification/Json_Util.thy ===== *)
theory Json_Util
  imports C_Base
begin

text \<open>
  \<open>common/json_util.c\<close>: the key-value store the two leaf services load from a JSON file
  (\<open>kv_store_load\<close>, \<open>kv_store_get\<close>) and the query string lookup (\<open>query_get\<close>).

  A \<open>kv_store_t\<close> is the list of its first \<open>count\<close> entries; cells past \<open>count\<close> are never read.
  The loader works on the raw bytes of the file followed by the NUL it appends, and its pointer
  may leave that array after \<open>p += 4\<close> or \<open>p += 5\<close>: then the result is \<open>None\<close>.
\<close>

definition MAX_ENTRIES :: nat where "MAX_ENTRIES = 256"
definition MAX_KEY_LEN :: nat where "MAX_KEY_LEN = 64"

record kv_entry =
  key :: string
  kv_value :: int

record kv_store =
  entries :: "kv_entry list"

text \<open>What the calls of \<open>kv_store_load\<close> to the environment return: the bytes of the file (\<open>None\<close>
  when \<open>fopen\<close> fails), whether \<open>ftell\<close> and \<open>malloc\<close> succeed, and the count \<open>fread\<close> returns.\<close>

record file_env =
  fe_file :: "char list option"
  fe_ftell :: bool
  fe_malloc :: bool
  fe_fread :: nat

section \<open>Loading the store\<close>

text \<open>One iteration of the loop: the closing brace or the end of the text after the separators, a
  malformed key, or one entry and the pointer after it.\<close>

datatype kv_step = KvBreak | KvMalformed | KvEntry kv_entry cptr

text \<open>The value: \<open>true\<close> and \<open>false\<close> are told by their first letter and skipped by length, anything
  else goes to \<open>strtol\<close>.\<close>

definition kv_parse_value :: "cptr \<Rightarrow> (int \<times> cptr) option" where
  "kv_parse_value p =
     (case p of
        [] \<Rightarrow> None
      | c # _ \<Rightarrow>
          if c = CHR ''t'' then (if 4 < length p then Some (1, drop 4 p) else None)
          else if c = CHR ''f'' then (if 5 < length p then Some (0, drop 5 p) else None)
          else do {
            s \<leftarrow> str_arg p;
            let (v, e) = strtol s;
            Some (i32 v, drop (length s - length e) p)
          })"

definition is_separator :: "char \<Rightarrow> bool" where
  "is_separator c \<longleftrightarrow> isspace c \<or> c = CHR '',''"

definition kv_parse_entry :: "cptr \<Rightarrow> kv_step option" where
  "kv_parse_entry p = do {
     p1 \<leftarrow> skip_while is_separator p;
     if hd p1 = CHR ''}'' \<or> hd p1 = NUL then Some KvBreak
     else if hd p1 \<noteq> DQ then Some KvMalformed
     else do {
       let kstart = tl p1;
       p2 \<leftarrow> skip_while (\<lambda>c. c \<noteq> DQ) kstart;
       if hd p2 = NUL then Some KvMalformed
       else do {
         let klen = length kstart - length p2;
         let klen' = (if klen \<ge> MAX_KEY_LEN then MAX_KEY_LEN - 1 else klen);
         p3 \<leftarrow> skip_while (\<lambda>c. c \<noteq> CHR '':'') (tl p2);
         let p4 = (if hd p3 = CHR '':'' then tl p3 else p3);
         p5 \<leftarrow> skip_while isspace p4;
         (v, p6) \<leftarrow> kv_parse_value p5;
         Some (KvEntry \<lparr>key = take klen' kstart, kv_value = v\<rparr> p6)
       }
     }
   }"

text \<open>The loop over the entries: it ends after \<open>MAX_ENTRIES\<close> entries at the latest.\<close>

function kv_parse_entries :: "cptr \<Rightarrow> kv_entry list \<Rightarrow> (int \<times> kv_entry list) option" where
  "kv_parse_entries p acc =
     (if p = [] then None
      else if hd p \<noteq> NUL \<and> hd p \<noteq> CHR ''}'' \<and> length acc < MAX_ENTRIES
      then (case kv_parse_entry p of
              None \<Rightarrow> None
            | Some KvBreak \<Rightarrow> Some (0, acc)
            | Some KvMalformed \<Rightarrow> Some (-1, acc)
            | Some (KvEntry e q) \<Rightarrow> kv_parse_entries q (acc @ [e]))
      else Some (0, acc))"
  by pat_completeness auto
termination
  by (relation "measure (\<lambda>(p, acc). MAX_ENTRIES - length acc)") auto

declare kv_parse_entries.simps [simp del]

text \<open>\<open>kv_store_load\<close>: the returned code and the store. When \<open>ftell\<close> fails, its -1 makes \<open>malloc\<close> reserve
  nothing and \<open>fread\<close> read up to \<open>SIZE_MAX\<close> bytes into that: every byte of the file is stored outside.\<close>

definition kv_store_load :: "kv_store \<Rightarrow> file_env \<Rightarrow> (int \<times> kv_store) option" where
  "kv_store_load store env =
     (case fe_file env of
        None \<Rightarrow> Some (-1, store)
      | Some bytes \<Rightarrow>
          if \<not> fe_malloc env then Some (-1, store)
          else if \<not> fe_ftell env then (if bytes = [] then Some (-1, store) else None)
          else if fe_fread env \<noteq> length bytes then Some (-1, store)
          else do {
            p \<leftarrow> skip_while (\<lambda>c. c \<noteq> CHR ''{'') (bytes @ [NUL]);
            let p' = (if hd p = CHR ''{'' then tl p else p);
            (rc, es) \<leftarrow> kv_parse_entries p' [];
            Some (rc, store\<lparr>entries := es\<rparr>)
          })"

section \<open>Lookup\<close>

text \<open>\<open>kv_store_get\<close>: the value of the first entry with the key.\<close>

fun kv_entries_get :: "kv_entry list \<Rightarrow> string \<Rightarrow> int option" where
  "kv_entries_get [] k = None"
| "kv_entries_get (e # es) k = (if key e = k then Some (kv_value e) else kv_entries_get es k)"

definition kv_store_get :: "kv_store \<Rightarrow> string \<Rightarrow> int option" where
  "kv_store_get store k = kv_entries_get (entries store) k"

section \<open>Query strings\<close>

text \<open>\<open>query_get\<close>: \<open>None\<close> is the return value -1, \<open>Some out\<close> the text written to the buffer of
  \<open>outsz\<close> bytes; with a size of 0 the bound of the loop wraps around, and the text, of any length,
  lies outside the buffer. \<open>NULL\<close> arguments are \<open>None\<close>.\<close>

function query_scan :: "string \<Rightarrow> string \<Rightarrow> nat \<Rightarrow> string option" where
  "query_scan p k outsz =
     (if p = [] then None
      else if prefix (k @ ''='') p
      then Some (take (size_pred outsz) (takeWhile (\<lambda>c. c \<noteq> CHR ''&'') (drop (length k + 1) p)))
      else query_scan (tl (dropWhile (\<lambda>c. c \<noteq> CHR ''&'') p)) k outsz)"
  by pat_completeness auto
termination
proof (relation "measure (\<lambda>(p, k, n). length p)")
  fix p k :: string and n :: nat
  assume "p \<noteq> []"
  have "length (dropWhile (\<lambda>c. c \<noteq> CHR ''&'') p) \<le> length p"
    by (rule length_dropWhile_le)
  with \<open>p \<noteq> []\<close> show "((tl (dropWhile (\<lambda>c. c \<noteq> CHR ''&'') p), k, n), (p, k, n))
      \<in> measure (\<lambda>(p, k, n). length p)"
    by (cases p; cases "dropWhile (\<lambda>c. c \<noteq> CHR ''&'') p") auto
qed simp

declare query_scan.simps [simp del]

definition query_get :: "string option \<Rightarrow> string option \<Rightarrow> nat \<Rightarrow> string option" where
  "query_get qs k outsz =
     (case (qs, k) of
        (Some q, Some k') \<Rightarrow> query_scan q k' outsz
      | _ \<Rightarrow> None)"

section \<open>Reference definitions\<close>

text \<open>The texts \<open>kv_store_load\<close> is written for: JSON objects of integers and booleans, with any
  white space between the tokens.\<close>

datatype kv_lit = LInt int | LTrue | LFalse

fun lit_text :: "kv_lit \<Rightarrow> string" where
  "lit_text (LInt i) = show_int i"
| "lit_text LTrue = ''true''"
| "lit_text LFalse = ''false''"

fun lit_value :: "kv_lit \<Rightarrow> int" where
  "lit_value (LInt i) = i"
| "lit_value LTrue = 1"
| "lit_value LFalse = 0"

record kv_item =
  ws_before :: string
  item_key :: string
  ws_colon :: string
  ws_value :: string
  item_lit :: kv_lit
  ws_after :: string

definition item_text :: "kv_item \<Rightarrow> string" where
  "item_text x = ws_before x @ DQ # item_key x @ DQ # ws_colon x @ CHR '':'' # ws_value x
     @ lit_text (item_lit x) @ ws_after x"

fun items_text :: "kv_item list \<Rightarrow> string" where
  "items_text [] = []"
| "items_text [x] = item_text x"
| "items_text (x # y # xs) = item_text x @ CHR '','' # items_text (y # xs)"

definition doc_text :: "string \<Rightarrow> kv_item list \<Rightarrow> string \<Rightarrow> string" where
  "doc_text pre xs post = pre @ CHR ''{'' # items_text xs @ CHR ''}'' # post"

definition spaces :: "string \<Rightarrow> bool" where
  "spaces w \<longleftrightarrow> (\<forall>c \<in> set w. isspace c)"

definition item_ok :: "kv_item \<Rightarrow> bool" where
  "item_ok x \<longleftrightarrow> spaces (ws_before x) \<and> spaces (ws_colon x) \<and> spaces (ws_value x)
     \<and> spaces (ws_after x) \<and> DQ \<notin> set (item_key x) \<and> NUL \<notin> set (item_key x)
     \<and> (\<forall>i. item_lit x = LInt i \<longrightarrow> in_i32 i)"

definition item_entry :: "kv_item \<Rightarrow> kv_entry" where
  "item_entry x = \<lparr>key = take (MAX_KEY_LEN - 1) (item_key x), kv_value = lit_value (item_lit x)\<rparr>"

text \<open>A file that opens and is read in full.\<close>

definition readable :: "string \<Rightarrow> file_env" where
  "readable s = \<lparr>fe_file = Some s, fe_ftell = True, fe_malloc = True, fe_fread = length s\<rparr>"

text \<open>What the arrays of a \<open>kv_store_t\<close> can hold.\<close>

definition entry_wf :: "kv_entry \<Rightarrow> bool" where
  "entry_wf e \<longleftrightarrow> length (key e) < MAX_KEY_LEN \<and> NUL \<notin> set (key e) \<and> DQ \<notin> set (key e)
     \<and> in_i32 (kv_value e)"

definition kv_store_wf :: "kv_store \<Rightarrow> bool" where
  "kv_store_wf st \<longleftrightarrow> length (entries st) \<le> MAX_ENTRIES \<and> (\<forall>e \<in> set (entries st). entry_wf e)"

text \<open>Query strings as lists of parameters.\<close>

fun split_amp :: "string \<Rightarrow> string list" where
  "split_amp [] = [[]]"
| "split_amp (c # s) =
     (if c = CHR ''&'' then [] # split_amp s
      else (case split_amp s of [] \<Rightarrow> [[c]] | seg # segs \<Rightarrow> (c # seg) # segs))"

fun find_param :: "string \<Rightarrow> string list \<Rightarrow> string option" where
  "find_param k [] = None"
| "find_param k (seg # segs) =
     (if prefix (k @ ''='') seg then Some (drop (length k + 1) seg) else find_param k segs)"

section \<open>Lemmas on the loader\<close>

lemma isspace_not_special [simp]:
  "\<not> isspace NUL" "\<not> isspace DQ" "\<not> isspace CHR '':''" "\<not> isspace CHR ''}''" "\<not> isspace CHR '',''"
  by (simp_all add: isspace_def)

lemma spaces_nonNUL: "spaces w \<Longrightarrow> c \<in> set w \<Longrightarrow> c \<noteq> NUL"
  by (auto simp: spaces_def)

lemma hd_lit_text: "hd (lit_text v @ r) \<noteq> NUL" "\<not> isspace (hd (lit_text v @ r))"
proof -
  have "hd (show_int i) \<noteq> NUL \<and> \<not> isspace (hd (show_int i))" for i
    using isdigit_not_isspace [OF hd_show_nat, of "nat i"] hd_show_nat [of "nat i"]
    by (auto simp: show_int_def isdigit_def digit_val_def)
  then show "hd (lit_text v @ r) \<noteq> NUL" "\<not> isspace (hd (lit_text v @ r))"
    by (cases v; simp add: hd_append isspace_def)+
qed

lemma lit_text_nonempty [simp]: "lit_text v \<noteq> []"
  by (cases v) auto

lemma kv_parse_value_lit:
  assumes r: "NUL \<in> set r" "hd r \<noteq> NUL" "\<not> isdigit (hd r)" and v: "\<And>i. v = LInt i \<Longrightarrow> in_i32 i"
  shows "kv_parse_value (lit_text v @ r) = Some (lit_value v, r)"
proof (cases v)
  case (LInt i)
  obtain t r' where rr: "r = t @ NUL # r'" and t: "NUL \<notin> set t"
    using split_list_first [OF r(1)] by blast
  have tne: "t \<noteq> []" using r(2) rr by auto
  then have hdt: "\<not> isdigit (hd t)" using r(3) rr by simp
  have hd1: "hd (show_int i) \<noteq> CHR ''t''" "hd (show_int i) \<noteq> CHR ''f''"
    using hd_show_nat [of "nat i"] by (auto simp: show_int_def isdigit_def digit_val_def)
  have arg: "str_arg (show_int i @ t @ NUL # r') = Some (show_int i @ t)"
    using str_arg_append [of "show_int i @ t" r'] t by simp
  obtain c cs where c: "show_int i = c # cs" using show_int_nonempty [of i] by (cases "show_int i") auto
  show ?thesis
    using LInt rr hd1 arg v [OF LInt] strtol_show_int_i32 [of i t] hdt
    by (simp add: kv_parse_value_def c)
qed (use r in \<open>cases r; simp add: kv_parse_value_def\<close>)+

lemma separatorD: "is_separator c \<Longrightarrow> c \<noteq> NUL \<and> c \<noteq> CHR ''}''"
  by (auto simp: is_separator_def)

lemma separator_spaces: "spaces w \<Longrightarrow> list_all is_separator w"
  by (auto simp: spaces_def is_separator_def list_all_iff)

lemma skip_separators:
  "list_all is_separator sep \<Longrightarrow> \<not> is_separator c \<Longrightarrow> skip_while is_separator (sep @ c # p) = Some (c # p)"
  by (subst skip_while_append) (auto simp: list_all_iff dest: separatorD)

lemma kv_parse_entry_item:
  assumes sep: "list_all is_separator sep" and ok: "item_ok x"
    and r: "NUL \<in> set r" "hd r = CHR '','' \<or> hd r = CHR ''}''"
  shows "kv_parse_entry (sep @ item_text x @ r) = Some (KvEntry (item_entry x) (ws_after x @ r))"
proof -
  let ?v = "lit_text (item_lit x) @ ws_after x @ r"
  have sp: "spaces (ws_before x)" "spaces (ws_colon x)" "spaces (ws_value x)" "spaces (ws_after x)"
    and k: "DQ \<notin> set (item_key x)" "NUL \<notin> set (item_key x)"
    and lit: "\<And>i. item_lit x = LInt i \<Longrightarrow> in_i32 i"
    using ok by (auto simp: item_ok_def)
  have nonspace: "\<forall>c \<in> set w. c \<noteq> NUL \<and> isspace c \<and> c \<noteq> CHR '':''" if "spaces w" for w
    using that by (auto simp: spaces_def)
  have p1: "skip_while is_separator (sep @ item_text x @ r)
      = Some (DQ # item_key x @ DQ # ws_colon x @ CHR '':'' # ws_value x @ ?v)"
    using sep separator_spaces [OF sp(1)] skip_separators [of "sep @ ws_before x"]
    by (simp add: item_text_def is_separator_def)
  have p2: "skip_while (\<lambda>c. c \<noteq> DQ) (item_key x @ DQ # q) = Some (DQ # q)" for q
    using k by (subst skip_while_append) auto
  have p3: "skip_while (\<lambda>c. c \<noteq> CHR '':'') (ws_colon x @ CHR '':'' # q) = Some (CHR '':'' # q)" for q
    using nonspace [OF sp(2)] by (subst skip_while_append) auto
  have p5: "skip_while isspace (ws_value x @ ?v) = Some ?v"
  proof -
    obtain c v' where c: "?v = c # v'" by (cases ?v) auto
    with hd_lit_text [of "item_lit x" "ws_after x @ r"] have "\<not> isspace c" by simp
    with c nonspace [OF sp(3)] show ?thesis by (subst skip_while_append) auto
  qed
  have p6: "kv_parse_value ?v = Some (lit_value (item_lit x), ws_after x @ r)"
  proof (rule kv_parse_value_lit)
    have hr: "r \<noteq> []" using r(1) by auto
    show "NUL \<in> set (ws_after x @ r)" using r by simp
    have "isspace (hd (ws_after x))" if "ws_after x \<noteq> []"
      using sp(4) that by (simp add: spaces_def)
    then show "hd (ws_after x @ r) \<noteq> NUL" "\<not> isdigit (hd (ws_after x @ r))"
      using r(2) hr isdigit_not_isspace
      by (auto simp: hd_append isdigit_def digit_val_def isspace_def)
  qed (rule lit)
  show ?thesis
    by (simp add: kv_parse_entry_def p1 p2 p3 p5 p6 item_entry_def Let_def MAX_KEY_LEN_def)
qed

lemma hd_separators:
  "list_all is_separator sep \<Longrightarrow> sep \<noteq> [] \<Longrightarrow> hd sep \<noteq> NUL \<and> hd sep \<noteq> CHR ''}''"
  by (cases sep) (auto simp: separatorD)

lemma hd_item_text: "item_ok x \<Longrightarrow> hd (item_text x @ r) \<noteq> NUL \<and> hd (item_text x @ r) \<noteq> CHR ''}''"
  using hd_separators [OF separator_spaces, of "ws_before x"]
  by (auto simp: item_text_def item_ok_def hd_append)

lemma kv_parse_entries_end:
  assumes sep: "list_all is_separator sep"
  shows "kv_parse_entries (sep @ CHR ''}'' # post) acc = Some (0, acc)"
proof (cases "sep = []")
  case True
  then show ?thesis by (subst kv_parse_entries.simps) simp
next
  case False
  have "kv_parse_entry (sep @ CHR ''}'' # post) = Some KvBreak"
    using skip_separators [OF sep] by (simp add: kv_parse_entry_def is_separator_def)
  with False show ?thesis by (subst kv_parse_entries.simps) simp
qed

text \<open>One turn of the loop on a text that starts with an entry.\<close>

lemma kv_parse_entries_step:
  assumes sep: "list_all is_separator sep" and ok: "item_ok x"
    and r: "NUL \<in> set r" "hd r = CHR '','' \<or> hd r = CHR ''}''"
  shows "kv_parse_entries (sep @ item_text x @ r) acc =
    (if length acc < MAX_ENTRIES then kv_parse_entries (ws_after x @ r) (acc @ [item_entry x])
     else Some (0, acc))"
proof -
  have "sep @ item_text x @ r \<noteq> []" "hd (sep @ item_text x @ r) \<noteq> NUL"
      "hd (sep @ item_text x @ r) \<noteq> CHR ''}''"
    using hd_separators [OF sep] hd_item_text [OF ok] by (auto simp: hd_append item_text_def)
  then show ?thesis
    using kv_parse_entry_item [OF sep ok r] by (subst kv_parse_entries.simps) auto
qed

lemma kv_parse_entries_items:
  assumes "\<forall>x \<in> set xs. item_ok x" and "list_all is_separator sep" and "NUL \<in> set post"
  shows "kv_parse_entries (sep @ items_text xs @ CHR ''}'' # post) acc
           = Some (0, acc @ take (MAX_ENTRIES - length acc) (map item_entry xs))"
  using assms
proof (induction xs arbitrary: sep acc rule: items_text.induct)
  case 1
  then show ?case by (simp add: kv_parse_entries_end)
next
  case (2 x)
  then have "list_all is_separator (ws_after x)"
    by (auto simp: item_ok_def separator_spaces)
  with "2.prems" show ?case
    by (simp add: kv_parse_entries_step kv_parse_entries_end)
next
  case (3 x y ys)
  let ?r = "CHR '','' # items_text (y # ys) @ CHR ''}'' # post"
  have after: "list_all is_separator (ws_after x @ '','')"
    using "3.prems"(1) by (auto simp: item_ok_def separator_spaces is_separator_def)
  have IH: "kv_parse_entries (ws_after x @ ?r) acc'
      = Some (0, acc' @ take (MAX_ENTRIES - length acc') (map item_entry (y # ys)))" for acc'
    using "3.IH" [OF _ after "3.prems"(3), of acc'] "3.prems"(1) by simp
  have "kv_parse_entries (sep @ item_text x @ ?r) acc =
      (if length acc < MAX_ENTRIES then kv_parse_entries (ws_after x @ ?r) (acc @ [item_entry x])
       else Some (0, acc))"
    using "3.prems" by (intro kv_parse_entries_step) auto
  with IH show ?case by (simp add: take_Cons' Suc_diff_Suc)
qed

lemma kv_store_load_doc:
  assumes "\<forall>x \<in> set xs. item_ok x" and "CHR ''{'' \<notin> set pre" and "NUL \<notin> set pre"
  shows "kv_store_load st (readable (doc_text pre xs post))
           = Some (0, st\<lparr>entries := take MAX_ENTRIES (map item_entry xs)\<rparr>)"
proof -
  have "skip_while (\<lambda>c. c \<noteq> CHR ''{'') (pre @ CHR ''{'' # q) = Some (CHR ''{'' # q)" for q
    using assms(2,3) by (subst skip_while_append) auto
  moreover have "kv_parse_entries (items_text xs @ CHR ''}'' # post @ [NUL]) []
      = Some (0, take MAX_ENTRIES (map item_entry xs))"
    using kv_parse_entries_items [OF assms(1), of "[]" "post @ [NUL]" "[]"] by simp
  ultimately show ?thesis
    by (simp add: kv_store_load_def readable_def doc_text_def)
qed

lemma kv_entries_get_map_of: "kv_entries_get es k = map_of (map (\<lambda>e. (key e, kv_value e)) es) k"
  by (induction es) auto

text \<open>The invariant of the store, entry by entry.\<close>

lemma kv_parse_value_i32: "kv_parse_value p = Some (v, q) \<Longrightarrow> in_i32 v"
  by (auto simp: kv_parse_value_def in_i32_def [of 0] in_i32_def [of 1]
      split: list.splits if_splits prod.splits bind_splits)

lemma kv_parse_entry_wf: "kv_parse_entry p = Some (KvEntry e q) \<Longrightarrow> entry_wf e"
proof -
  assume "kv_parse_entry p = Some (KvEntry e q)"
  then obtain p1 p2 v p5 p6 where
    k2: "skip_while (\<lambda>c. c \<noteq> DQ) (tl p1) = Some p2" and
    v: "kv_parse_value p5 = Some (v, p6)" and
    e: "e = \<lparr>key = take (if length (tl p1) - length p2 \<ge> MAX_KEY_LEN then MAX_KEY_LEN - 1
          else length (tl p1) - length p2) (tl p1), kv_value = v\<rparr>"
    by (auto simp: kv_parse_entry_def Let_def split: bind_splits if_splits)
  obtain u where u: "tl p1 = u @ p2" "\<forall>c \<in> set u. c \<noteq> NUL \<and> c \<noteq> DQ"
    using skip_while_suffix [OF k2] by blast
  from u(1) have "key e = take (MAX_KEY_LEN - 1) u"
    by (simp add: e MAX_KEY_LEN_def)
  moreover have "kv_value e = v" by (simp add: e)
  moreover have "length (take (MAX_KEY_LEN - 1) u) < MAX_KEY_LEN" by (simp add: MAX_KEY_LEN_def)
  moreover have "NUL \<notin> set (take (MAX_KEY_LEN - 1) u)" "DQ \<notin> set (take (MAX_KEY_LEN - 1) u)"
    using u(2) set_take_subset [of "MAX_KEY_LEN - 1" u] by blast+
  ultimately show ?thesis
    using kv_parse_value_i32 [OF v] by (simp only: entry_wf_def simp_thms)
qed

lemma kv_parse_entries_wf:
  "kv_parse_entries p acc = Some (rc, es) \<Longrightarrow> list_all entry_wf acc \<Longrightarrow> length acc \<le> MAX_ENTRIES
     \<Longrightarrow> list_all entry_wf es \<and> length es \<le> MAX_ENTRIES"
proof (induction p acc rule: kv_parse_entries.induct)
  case (1 p acc)
  show ?case
  proof (cases "p \<noteq> [] \<and> hd p \<noteq> NUL \<and> hd p \<noteq> CHR ''}'' \<and> length acc < MAX_ENTRIES")
    case True
    with "1.prems" obtain st where st: "kv_parse_entry p = Some st"
      by (subst (asm) kv_parse_entries.simps) (auto split: option.splits)
    show ?thesis
    proof (cases st)
      case (KvEntry e q)
      with True st "1.prems" have "kv_parse_entries q (acc @ [e]) = Some (rc, es)"
        by (subst (asm) kv_parse_entries.simps) auto
      with True st KvEntry "1.prems" "1.IH" [of st e q] kv_parse_entry_wf [of p e q] show ?thesis
        by auto
    qed (use True st "1.prems" in \<open>subst (asm) kv_parse_entries.simps, auto\<close>)+
  next
    case False
    with "1.prems" show ?thesis
      by (subst (asm) kv_parse_entries.simps) (auto split: if_splits)
  qed
qed

section \<open>Lemmas on query strings\<close>

lemma split_amp_nonempty [simp]: "split_amp s \<noteq> []"
  by (induction s) (auto split: list.splits)

lemma split_amp_last [simp]: "CHR ''&'' \<notin> set s \<Longrightarrow> split_amp s = [s]"
  by (induction s) auto

lemma split_amp_append: "CHR ''&'' \<notin> set s \<Longrightarrow> split_amp (s @ CHR ''&'' # t) = s # split_amp t"
  by (induction s) auto

lemma query_scan_find_param:
  assumes "CHR ''&'' \<notin> set k"
  shows "query_scan q k n = map_option (take (size_pred n)) (find_param k (split_amp q))"
  using assms
proof (induction q k n rule: query_scan.induct)
  case (1 q k n)
  have k: "CHR ''&'' \<notin> set (k @ ''='')" using "1.prems" by simp
  show ?case
  proof (cases "CHR ''&'' \<in> set q")
    case False
    have "query_scan [] k n = None" by (subst query_scan.simps) simp
    moreover from False have "CHR ''&'' \<notin> set (drop (length k + 1) q)"
      by (auto dest: in_set_dropD)
    ultimately show ?thesis
      using False by (subst query_scan.simps) auto
  next
    case True
    then obtain s t where q: "q = s @ CHR ''&'' # t" and s: "CHR ''&'' \<notin> set s"
      using split_list_first by fastforce
    have pre: "prefix (k @ ''='') q \<longleftrightarrow> prefix (k @ ''='') s"
      using prefix_before [OF k] q by simp
    have "takeWhile (\<lambda>c. c \<noteq> CHR ''&'') (drop (length k + 1) q) = drop (length k + 1) s"
      if "prefix (k @ ''='') s"
      using that s q by (auto simp: prefix_def)
    with 1 pre q s show ?thesis
      by (subst query_scan.simps) (auto simp: split_amp_append)
  qed
qed

lemma load_keeps_wf:
  assumes "kv_store_wf st" and "kv_store_load st env = Some (rc, st')"
  shows "kv_store_wf st'"
  using assms kv_parse_entries_wf [of _ "[]"]
  by (fastforce simp: kv_store_load_def kv_store_wf_def list_all_iff Let_def
      split: option.splits if_splits bind_splits)

lemma load_doc_get:
  assumes "\<forall>x \<in> set xs. item_ok x \<and> length (item_key x) < MAX_KEY_LEN"
    and "length xs \<le> MAX_ENTRIES" and "CHR ''{'' \<notin> set pre" and "NUL \<notin> set pre"
    and "kv_store_load st (readable (doc_text pre xs post)) = Some (rc, st')"
  shows "rc = 0 \<and> kv_store_get st' k = map_of (map (\<lambda>x. (item_key x, lit_value (item_lit x))) xs) k"
proof -
  have eq: "map (\<lambda>x. (key (item_entry x), kv_value (item_entry x))) xs
      = map (\<lambda>x. (item_key x, lit_value (item_lit x))) xs"
    using assms(1) by (intro map_cong) (auto simp: item_entry_def MAX_KEY_LEN_def)
  have "rc = 0" "st' = st\<lparr>entries := map item_entry xs\<rparr>"
    using assms kv_store_load_doc [of xs pre st post] by auto
  then show ?thesis
    by (simp add: kv_store_get_def kv_entries_get_map_of comp_def eq)
qed

section \<open>Properties\<close>

text \<open>C8. Loading any JSON object of integers and booleans, whatever the white space between its
  tokens and whatever stands before its opening and after its closing brace, succeeds and yields
  exactly its entries in order, keys cut to 63 characters, at most the first 256 of them.\<close>

theorem kv_store_load_correct:
  assumes "\<forall>x \<in> set xs. item_ok x" and "CHR ''{'' \<notin> set pre" and "NUL \<notin> set pre"
  shows "kv_store_load st (readable (doc_text pre xs post))
           = Some (0, st\<lparr>entries := take MAX_ENTRIES (map item_entry xs)\<rparr>)"
  using assms by (rule kv_store_load_doc)

definition demo_items :: "kv_item list" where
  "demo_items =
    [\<lparr>ws_before = [LF, SPC, SPC], item_key = ''alice'', ws_colon = [], ws_value = [SPC],
      item_lit = LInt 1, ws_after = []\<rparr>,
     \<lparr>ws_before = [LF, SPC, SPC], item_key = ''bob'', ws_colon = [SPC], ws_value = [],
      item_lit = LTrue, ws_after = [LF]\<rparr>]"

lemma demo_items_ok: "\<forall>x \<in> set demo_items. item_ok x"
  by (simp add: demo_items_def item_ok_def spaces_def isspace_def in_i32_def)

theorem kv_store_load_correct_witness:
  "kv_store_load \<lparr>entries = []\<rparr> (readable (doc_text [] demo_items [LF]))
     = Some (0, \<lparr>entries = [\<lparr>key = ''alice'', kv_value = 1\<rparr>, \<lparr>key = ''bob'', kv_value = 1\<rparr>]\<rparr>)"
  using kv_store_load_correct [OF demo_items_ok, of "[]" "\<lparr>entries = []\<rparr>" "[LF]"]
  by (simp add: demo_items_def item_entry_def MAX_ENTRIES_def MAX_KEY_LEN_def)

text \<open>A lookup after loading such a file returns the value of the first entry of the object
  with that key, and reports a missing key exactly when no loaded entry has it.\<close>

theorem kv_store_load_get:
  assumes "\<forall>x \<in> set xs. item_ok x \<and> length (item_key x) < MAX_KEY_LEN"
    and "length xs \<le> MAX_ENTRIES" and "CHR ''{'' \<notin> set pre" and "NUL \<notin> set pre"
    and "kv_store_load st (readable (doc_text pre xs post)) = Some (rc, st')"
  shows "rc = 0 \<and> kv_store_get st' k = map_of (map (\<lambda>x. (item_key x, lit_value (item_lit x))) xs) k"
  using assms by (rule load_doc_get)

theorem kv_store_load_get_witness:
  "\<exists>st'. kv_store_load \<lparr>entries = []\<rparr> (readable (doc_text [] demo_items [])) = Some (0, st')
     \<and> kv_store_get st' ''bob'' = Some 1 \<and> kv_store_get st' ''eve'' = None"
proof -
  let ?e = "\<lparr>entries = []\<rparr>"
  obtain rc st' where l: "kv_store_load ?e (readable (doc_text [] demo_items [])) = Some (rc, st')"
    using kv_store_load_doc [OF demo_items_ok, of "[]" ?e "[]"] by simp
  have ok: "\<forall>x \<in> set demo_items. item_ok x \<and> length (item_key x) < MAX_KEY_LEN"
    using demo_items_ok by (auto simp: demo_items_def MAX_KEY_LEN_def)
  have len: "length demo_items \<le> MAX_ENTRIES" by (simp add: demo_items_def MAX_ENTRIES_def)
  show ?thesis
    using l kv_store_load_get [OF ok len _ _ l, of "''bob''"]
      kv_store_load_get [OF ok len _ _ l, of "''eve''"]
    by (auto simp: demo_items_def)
qed

text \<open>C33. Whatever the bytes of the file, a load that returns leaves a store that fits its arrays:
  at most 256 entries, keys of at most 63 characters without NUL or quote, values of type int.\<close>

theorem kv_store_load_wf:
  assumes "kv_store_wf st" and "kv_store_load st env = Some (rc, st')"
  shows "kv_store_wf st'"
  using assms by (rule load_keeps_wf)

theorem kv_store_load_wf_witness:
  "kv_store_wf \<lparr>entries = [\<lparr>key = ''alice'', kv_value = 1\<rparr>, \<lparr>key = ''bob'', kv_value = 1\<rparr>]\<rparr>"
proof (rule kv_store_load_wf)
  show "kv_store_wf \<lparr>entries = []\<rparr>" by (simp add: kv_store_wf_def)
  show "kv_store_load \<lparr>entries = []\<rparr> (readable (doc_text [] demo_items [])) =
      Some (0, \<lparr>entries = [\<lparr>key = ''alice'', kv_value = 1\<rparr>, \<lparr>key = ''bob'', kv_value = 1\<rparr>]\<rparr>)"
    using kv_store_load_doc [OF demo_items_ok, of "[]" "\<lparr>entries = []\<rparr>" "[]"]
    by (simp add: demo_items_def item_entry_def MAX_ENTRIES_def MAX_KEY_LEN_def)
qed

text \<open>A literal cut off at the end of the file makes the loader step over the NUL it appended
  and read outside its buffer.\<close>

theorem kv_store_load_overrun: "kv_store_load st (readable (''{'' @ [DQ] @ ''a'' @ [DQ] @ '':t'')) = None"
  by (simp add: kv_store_load_def readable_def kv_parse_entries.simps kv_parse_entry_def
      kv_parse_value_def MAX_ENTRIES_def isspace_def is_separator_def Let_def)

text \<open>C27. The query string lookup is the lookup in the list of parameters between the ampersands:
  the value of the first parameter with the name, cut to the caller's buffer, which has room for a
  byte at least.\<close>

theorem query_get_find_param:
  assumes "CHR ''&'' \<notin> set k" and "0 < n"
  shows "query_get (Some q) (Some k) n = map_option (take (n - 1)) (find_param k (split_amp q))"
  using query_scan_find_param [OF assms(1)] assms(2) by (simp add: query_get_def)

theorem query_get_find_param_witness:
  "query_get (Some ''x=1&name=alice'') (Some ''name'') 64 = Some ''alice''"
  using query_get_find_param [of "''name''" 64 "''x=1&name=alice''"] by simp

end
