(* ===== verification/Http_Parse.thy ===== *)
theory Http_Parse
  imports C_Base
begin

text \<open>
  \<open>common/http_parse.c\<close>: the HTTP/1.1 request and response parsers and the response formatter.

  The parsers read the whole receive array (\<open>cptr\<close>) and are told how many of its bytes are data
  (\<open>len\<close>). Only \<open>find_header_end\<close> and the copy of the body are guarded by \<open>len\<close>; the request
  line, the header value and the status code are read up to a delimiter, so these reads can pass
  the data and even the array. The outcome is \<open>None\<close> when they pass the array.

  A character array of \<open>http_request_t\<close> or \<open>http_response_t\<close> is the list of the bytes stored into
  it; the rest of the array holds the zeros of the \<open>memset\<close>.
\<close>

record http_request =
  req_method :: string
  req_path :: string
  req_query :: string
  req_body :: string
  req_body_len :: nat
  req_content_length :: nat
  req_headers_complete :: bool
  req_complete :: bool

record http_response =
  resp_status_code :: int
  resp_body :: string
  resp_body_len :: nat
  resp_content_length :: nat
  resp_headers_complete :: bool
  resp_complete :: bool

definition http_request_zero :: http_request where
  "http_request_zero = \<lparr>req_method = [], req_path = [], req_query = [], req_body = [],
     req_body_len = 0, req_content_length = 0, req_headers_complete = False, req_complete = False\<rparr>"

definition http_response_zero :: http_response where
  "http_response_zero = \<lparr>resp_status_code = 0, resp_body = [], resp_body_len = 0,
     resp_content_length = 0, resp_headers_complete = False, resp_complete = False\<rparr>"

text \<open>\<open>sizeof(req->body)\<close>.\<close>

definition BODY_SIZE :: nat where "BODY_SIZE = 4096"

section \<open>Scanning\<close>

text \<open>\<open>find_header_end\<close> from index \<open>i\<close> on: \<open>p\<close> is \<open>buf + i\<close> and \<open>n\<close> is \<open>len - i\<close>. The result is the
  index just after the blank line.\<close>

fun find_header_end_from :: "nat \<Rightarrow> cptr \<Rightarrow> nat \<Rightarrow> nat option option" where
  "find_header_end_from i p 0 = Some None"
| "find_header_end_from i p (Suc n) =
     (if n = 0 then Some None
      else do {
        crlf \<leftarrow> (if n \<ge> 3 then match_at (=) p [CR, LF, CR, LF] else Some False);
        if crlf then Some (Some (i + 4))
        else do {
          lf \<leftarrow> match_at (=) p [LF, LF];
          if lf then Some (Some (i + 2))
          else (case p of [] \<Rightarrow> None | _ # p' \<Rightarrow> find_header_end_from (Suc i) p' n)
        }
      })"

definition find_header_end :: "cptr \<Rightarrow> nat \<Rightarrow> nat option option" where
  "find_header_end buf len = find_header_end_from 0 buf len"

text \<open>\<open>strncasecmp\<close> compares up to case.\<close>

definition eq_nocase :: "char \<Rightarrow> char \<Rightarrow> bool" where
  "eq_nocase c x \<longleftrightarrow> tolower c = tolower x"

text \<open>\<open>parse_content_length\<close> from some position on: \<open>bol\<close> says that the position starts a line
  (\<open>p == headers || *(p-1) == '\n'\<close>) and \<open>n\<close> is \<open>end - p\<close>.\<close>

fun content_length_from :: "bool \<Rightarrow> cptr \<Rightarrow> nat \<Rightarrow> nat option" where
  "content_length_from bol p 0 = Some 0"
| "content_length_from bol p (Suc n) = do {
     hit \<leftarrow> (if bol then match_at eq_nocase p ''Content-Length:'' else Some False);
     if hit then do {
       q \<leftarrow> skip_while (\<lambda>c. c = SPC) (drop 15 p);
       s \<leftarrow> str_arg q;
       Some (size_of_long (atol s))
     }
     else (case p of [] \<Rightarrow> None | c # p' \<Rightarrow> content_length_from (c = LF) p' n)
   }"

definition parse_content_length :: "cptr \<Rightarrow> nat \<Rightarrow> nat option" where
  "parse_content_length headers hlen = content_length_from True headers hlen"

text \<open>\<open>memcpy(dst, body_start, copy)\<close>, with the size \<open>copy\<close> of both parsers.\<close>

definition copy_body :: "cptr \<Rightarrow> nat \<Rightarrow> nat \<Rightarrow> string option" where
  "copy_body buf hlen content_length =
     (let copy = (if content_length < BODY_SIZE then content_length else BODY_SIZE - 1)
      in if hlen + copy \<le> length buf then Some (take copy (drop hlen buf)) else None)"

section \<open>Requests\<close>

definition http_parse_request :: "cptr \<Rightarrow> nat \<Rightarrow> (int \<times> http_request) option" where
  "http_parse_request buf len = do {
     body_start \<leftarrow> find_header_end buf len;
     case body_start of
       None \<Rightarrow> Some (1, http_request_zero)
     | Some hlen \<Rightarrow> do {
         (meth, p1) \<leftarrow> copy_until (\<lambda>c. c = SPC) 7 buf;
         p2 \<leftarrow> skip_while (\<lambda>c. c = SPC) p1;
         (path, p3) \<leftarrow> copy_until (\<lambda>c. c = SPC \<or> c = CHR ''?'' \<or> c = CR) 255 p2;
         query \<leftarrow> (if hd p3 = CHR ''?''
                  then map_option fst (copy_until (\<lambda>c. c = SPC \<or> c = CR) 511 (tl p3))
                  else Some []);
         cl \<leftarrow> parse_content_length buf hlen;
         let req = http_request_zero\<lparr>req_headers_complete := True, req_method := meth,
                     req_path := path, req_query := query, req_content_length := cl\<rparr>;
         if cl > 0 then
           if len - hlen < cl then Some (1, req)
           else do {
             body \<leftarrow> copy_body buf hlen cl;
             Some (0, req\<lparr>req_body := body, req_body_len := length body, req_complete := True\<rparr>)
           }
         else Some (0, req\<lparr>req_complete := True\<rparr>)
       }
   }"

section \<open>Responses\<close>

definition http_reason :: "int \<Rightarrow> string" where
  "http_reason status =
     (if status = 200 then ''OK''
      else if status = 400 then ''Bad Request''
      else if status = 404 then ''Not Found''
      else if status = 500 then ''Internal Server Error''
      else ''Unknown'')"

text \<open>\<open>http_format_response\<close>: the text in the buffer and the returned length. The body is a C string,
  \<open>body_len\<close> a \<open>size_t\<close> that the precision of \<open>%.*s\<close> converts to \<open>int\<close>.\<close>

definition http_format_response :: "nat \<Rightarrow> int \<Rightarrow> string \<Rightarrow> nat \<Rightarrow> string \<times> nat" where
  "http_format_response bufsz status body body_len =
     snprintf bufsz
       (''HTTP/1.1 '' @ show_int status @ '' '' @ http_reason status @ CRLF
        @ ''Content-Type: application/json'' @ CRLF
        @ ''Content-Length: '' @ show_nat body_len @ CRLF
        @ ''Connection: close'' @ CRLF
        @ CRLF
        @ fmt_prec (i32 (int body_len)) body)"

definition http_parse_response :: "cptr \<Rightarrow> nat \<Rightarrow> (int \<times> http_response) option" where
  "http_parse_response buf len = do {
     body_start \<leftarrow> find_header_end buf len;
     case body_start of
       None \<Rightarrow> Some (1, http_response_zero)
     | Some hlen \<Rightarrow>
         if len < 12 then Some (-1, http_response_zero\<lparr>resp_headers_complete := True\<rparr>)
         else do {
           s \<leftarrow> str_arg (drop 9 buf);
           cl \<leftarrow> parse_content_length buf hlen;
           let resp = http_response_zero\<lparr>resp_headers_complete := True,
                        resp_status_code := atoi s, resp_content_length := cl\<rparr>;
           if cl > 0 then
             if len - hlen < cl then Some (1, resp)
             else do {
               body \<leftarrow> copy_body buf hlen cl;
               Some (0, resp\<lparr>resp_body := body, resp_body_len := length body, resp_complete := True\<rparr>)
             }
           else Some (0, resp\<lparr>resp_complete := True\<rparr>)
         }
   }"

section \<open>Reference definitions\<close>

text \<open>The messages the program exchanges: lines that end in CR LF, a blank line, the body.\<close>

definition http_head :: "string list \<Rightarrow> string" where
  "http_head ls = concat (map (\<lambda>l. l @ CRLF) ls) @ CRLF"

definition line_ok :: "string \<Rightarrow> bool" where
  "line_ok l \<longleftrightarrow> l \<noteq> [] \<and> CR \<notin> set l \<and> LF \<notin> set l \<and> NUL \<notin> set l"

text \<open>A line that is not a \<open>Content-Length\<close> header.\<close>

definition other_line :: "string \<Rightarrow> bool" where
  "other_line l \<longleftrightarrow> match_at eq_nocase (l @ [CR]) ''Content-Length:'' = Some False"

text \<open>The heads of the messages: a start line, headers, at most one \<open>Content-Length\<close> header.\<close>

definition length_line :: "nat \<Rightarrow> string" where
  "length_line n = ''Content-Length: '' @ show_nat n"

definition msg_head :: "string \<Rightarrow> string list \<Rightarrow> nat option \<Rightarrow> string list \<Rightarrow> string" where
  "msg_head start hs cl hs' =
     http_head (start # hs @ (case cl of None \<Rightarrow> [] | Some n \<Rightarrow> [length_line n]) @ hs')"

definition announced :: "nat option \<Rightarrow> nat" where
  "announced cl = (case cl of None \<Rightarrow> 0 | Some n \<Rightarrow> n)"

definition head_ok :: "string \<Rightarrow> string list \<Rightarrow> nat option \<Rightarrow> string list \<Rightarrow> bool" where
  "head_ok start hs cl hs' \<longleftrightarrow>
     (\<forall>l \<in> set (start # hs). line_ok l \<and> other_line l)
     \<and> (\<forall>l \<in> set hs'. line_ok l \<and> (cl = None \<longrightarrow> other_line l)) \<and> announced cl < 2 ^ 63"

text \<open>The first line of a request, with an optional query, and what the arrays of
  \<open>http_request_t\<close> can hold of it.\<close>

definition request_line :: "string \<Rightarrow> string \<Rightarrow> string option \<Rightarrow> string" where
  "request_line m path q =
     m @ '' '' @ path @ (case q of None \<Rightarrow> [] | Some s \<Rightarrow> ''?'' @ s) @ '' HTTP/1.1''"

definition target_ok :: "string \<Rightarrow> string \<Rightarrow> string option \<Rightarrow> bool" where
  "target_ok m path q \<longleftrightarrow> SPC \<notin> set m \<and> length m \<le> 7
     \<and> path \<noteq> [] \<and> length path \<le> 255 \<and> SPC \<notin> set path \<and> CHR ''?'' \<notin> set path \<and> CR \<notin> set path
     \<and> (\<forall>s. q = Some s \<longrightarrow> length s \<le> 511 \<and> SPC \<notin> set s \<and> CR \<notin> set s)"

text \<open>The request the parser should deliver.\<close>

definition parsed_request :: "string \<Rightarrow> string \<Rightarrow> string option \<Rightarrow> string \<Rightarrow> http_request" where
  "parsed_request m path q body =
     \<lparr>req_method = m, req_path = path, req_query = (case q of None \<Rightarrow> [] | Some s \<Rightarrow> s),
      req_body = take (BODY_SIZE - 1) body, req_body_len = min (BODY_SIZE - 1) (length body),
      req_content_length = length body, req_headers_complete = True, req_complete = True\<rparr>"

definition parsed_response :: "int \<Rightarrow> string \<Rightarrow> http_response" where
  "parsed_response status body =
     \<lparr>resp_status_code = status, resp_body = take (BODY_SIZE - 1) body,
      resp_body_len = min (BODY_SIZE - 1) (length body), resp_content_length = length body,
      resp_headers_complete = True, resp_complete = True\<rparr>"

text \<open>A receive array: the data read so far, the NUL written after it, the rest of the array.\<close>

abbreviation recv_buf :: "string \<Rightarrow> cptr \<Rightarrow> cptr" where
  "recv_buf d pad \<equiv> d @ NUL # pad"

section \<open>Lemmas on the scanners\<close>

lemma http_head_simps [simp]:
  "http_head [] = CRLF" "http_head (l # ls) = l @ CRLF @ http_head ls"
  by (simp_all add: http_head_def)

lemma find_header_end_word:
  "CR \<notin> set w \<Longrightarrow> LF \<notin> set w \<Longrightarrow> length w < n \<Longrightarrow>
     find_header_end_from i (w @ p) n = find_header_end_from (i + length w) p (n - length w)"
proof (induction w arbitrary: i n)
  case (Cons c w)
  then obtain m where n: "n = Suc m" and m: "length w < m" by (cases n) auto
  with Cons show ?case by auto
qed simp

lemma find_header_end_eol:
  "c \<noteq> CR \<Longrightarrow> c \<noteq> LF \<Longrightarrow> 3 \<le> n \<Longrightarrow>
     find_header_end_from i (CR # LF # c # p) n = find_header_end_from (i + 2) (c # p) (n - 2)"
  by (cases n; cases "n - 1"; cases "n - 2") auto

lemma find_header_end_blank:
  "4 \<le> n \<Longrightarrow> find_header_end_from i (CR # LF # CR # LF # p) n = Some (Some (i + 4))"
  by (cases n) auto

lemma find_header_end_head:
  assumes "\<forall>l \<in> set ls. line_ok l" and "ls \<noteq> []" and "length (http_head ls) \<le> n"
  shows "find_header_end_from i (http_head ls @ b) n = Some (Some (i + length (http_head ls)))"
  using assms
proof (induction ls arbitrary: i n)
  case (Cons l ls)
  have l: "CR \<notin> set l" "LF \<notin> set l" using Cons.prems(1) by (auto simp: line_ok_def)
  show ?case
  proof (cases ls)
    case Nil
    with l Cons.prems(3) show ?thesis
      by (simp add: find_header_end_word find_header_end_blank)
  next
    case (Cons l' ls')
    then obtain c cs where c: "l' = c # cs" "c \<noteq> CR" "c \<noteq> LF"
      using Cons.prems(1) by (cases l') (auto simp: line_ok_def)
    have "find_header_end_from (i + length l + 2) (http_head ls @ b) (n - length l - 2)
        = Some (Some (i + length l + 2 + length (http_head ls)))"
      using Cons Cons.prems by (intro Cons.IH) auto
    with l c Cons Cons.prems(3) show ?thesis
      by (simp add: find_header_end_word find_header_end_eol)
  qed
qed simp

lemma match_at_hit: "match_at (=) p xs = Some True \<Longrightarrow> prefix xs p"
  by (induction "(=) :: char \<Rightarrow> char \<Rightarrow> bool" p xs rule: match_at.induct) (auto split: if_splits)

text \<open>With fewer bytes of data than the found index, the scan asks for more data.\<close>

lemma find_header_end_short:
  "find_header_end_from i p n = Some (Some k) \<Longrightarrow> m \<le> n \<Longrightarrow> i + m < k \<Longrightarrow>
     find_header_end_from i p m = Some None"
proof (induction i p n arbitrary: m rule: find_header_end_from.induct)
  case (2 i p n)
  show ?case
  proof (cases "m \<le> 1")
    case True
    then show ?thesis by (cases m) auto
  next
    case False
    then obtain m' where m: "m = Suc m'" "0 < m'" by (cases m) auto
    with "2.prems" have n: "n \<noteq> 0" "m' \<le> n" by auto
    define crlf where "crlf = (if n \<ge> 3 then match_at (=) p [CR, LF, CR, LF] else Some False)"
    show ?thesis
    proof (cases "crlf = Some True")
      case True
      then obtain r where r: "p = CR # LF # CR # LF # r"
        using match_at_hit [of p "[CR, LF, CR, LF]"] by (auto simp: crlf_def prefix_def split: if_splits)
      from True n "2.prems" have "k = i + 4" by (auto simp: crlf_def split: if_splits)
      with "2.prems"(3) m have "m' = 1 \<or> m' = 2" by auto
      with m r show ?thesis by (auto simp: numeral_2_eq_2)
    next
      case False
      with "2.prems"(1) n have crlf: "crlf = Some False" by (auto simp: crlf_def split: bind_splits)
      with "2.prems" n m have lf: "match_at (=) p [LF, LF] = Some False"
        by (auto simp: crlf_def split: bind_splits if_splits)
      with crlf "2.prems"(1) n obtain c p' where p: "p = c # p'"
          and rec: "find_header_end_from (Suc i) p' n = Some (Some k)"
        by (auto simp: crlf_def split: bind_splits if_splits list.splits)
      have "find_header_end_from (Suc i) p' m' = Some None"
        using "2.IH" [OF n(1) crlf [unfolded crlf_def] _ lf _ p rec n(2)] "2.prems"(3) m by simp
      with p lf crlf m n show ?thesis by (auto simp: crlf_def split: if_splits)
    qed
  qed
qed simp

lemma match_at_extend: "match_at eq p xs = Some b \<Longrightarrow> match_at eq (p @ q) xs = Some b"
  by (induction eq p xs rule: match_at.induct) (auto split: if_splits)

lemma content_length_word:
  "LF \<notin> set w \<Longrightarrow> content_length_from False (w @ p) (length w + n) = content_length_from False p n"
  by (induction w) auto

lemma content_length_other:
  assumes "line_ok l" and "other_line l"
  shows "content_length_from True (l @ CRLF @ p) (length l + 2 + n) = content_length_from True p n"
proof -
  obtain c cs where l: "l = c # cs" "c \<noteq> LF" "LF \<notin> set cs"
    using assms(1) by (cases l) (auto simp: line_ok_def)
  have "match_at eq_nocase (l @ CRLF @ p) ''Content-Length:'' = Some False"
    using match_at_extend [OF assms(2) [unfolded other_line_def], of "LF # p"] by simp
  with l show ?thesis
    using content_length_word [of "cs @ [CR]" "LF # p" "Suc n"] by simp
qed

lemma content_length_lines:
  assumes "\<forall>l \<in> set ls. line_ok l \<and> other_line l"
  shows "content_length_from True (concat (map (\<lambda>l. l @ CRLF) ls) @ p)
      (length (concat (map (\<lambda>l. l @ CRLF) ls)) + n) = content_length_from True p n"
  using assms
proof (induction ls)
  case (Cons l ls)
  let ?q = "concat (map (\<lambda>l. l @ CRLF) ls)"
  have "content_length_from True (l @ CRLF @ ?q @ p) (length l + 2 + (length ?q + n))
      = content_length_from True (?q @ p) (length ?q + n)"
    using Cons.prems by (intro content_length_other) auto
  with Cons show ?case by (simp add: add.assoc del: content_length_from.simps)
qed simp

lemma content_length_hit:
  assumes "n < 2 ^ 63" and "NUL \<in> set p"
  shows "content_length_from True (length_line n @ CR # p) (Suc m) = Some n"
proof -
  obtain t r where p: "p = t @ NUL # r" and t: "NUL \<notin> set t"
    using split_list_first [OF assms(2)] by blast
  have hit: "match_at eq_nocase (length_line n @ q) ''Content-Length:'' = Some True" for q
    by (simp add: length_line_def eq_nocase_def)
  have skip: "skip_while (\<lambda>c. c = SPC) (drop 15 (length_line n @ CR # p)) = Some (show_nat n @ CR # p)"
  proof -
    obtain c cs where c: "show_nat n = c # cs" by (cases "show_nat n") auto
    have "isdigit c" using hd_show_nat [of n] c by simp
    then have "c \<noteq> SPC" by (auto simp: isdigit_def digit_val_def)
    with c show ?thesis by (simp add: length_line_def)
  qed
  have arg: "str_arg (show_nat n @ CR # p) = Some (show_nat n @ CR # t)"
    using str_arg_append [of "show_nat n @ CR # t" r] t p by simp
  have "\<not> isdigit CR" by (simp add: isdigit_def digit_val_def)
  then have "atol (show_nat n @ CR # t) = int n"
    using assms(1) by (simp add: atol_def strtol_show_nat)
  then show ?thesis
    using assms(1) hit [of "CR # p"] skip arg by simp
qed

lemma parse_content_length_found:
  assumes "\<forall>l \<in> set ls. line_ok l \<and> other_line l" and "n < 2 ^ 63" and "NUL \<in> set b"
  shows "parse_content_length (http_head (ls @ length_line n # ls') @ b)
    (length (http_head (ls @ length_line n # ls'))) = Some n"
proof -
  let ?q = "concat (map (\<lambda>l. l @ CRLF) ls)" and ?r = "LF # http_head ls' @ b"
  have split: "http_head (ls @ length_line n # ls') @ b = ?q @ length_line n @ CR # ?r"
    "length (http_head (ls @ length_line n # ls'))
       = length ?q + Suc (length (length_line n) + 1 + length (http_head ls'))"
    by (simp_all add: http_head_def)
  show ?thesis
    unfolding parse_content_length_def split content_length_lines [OF assms(1)]
    using assms by (intro content_length_hit) auto
qed

lemma parse_content_length_none:
  assumes "\<forall>l \<in> set ls. line_ok l \<and> other_line l"
  shows "parse_content_length (http_head ls @ b) (length (http_head ls)) = Some 0"
proof -
  have "content_length_from True (CRLF @ b) 2 = Some 0"
    by (simp add: numeral_2_eq_2 eq_nocase_def tolower_def)
  with content_length_lines [OF assms, of "CRLF @ b" 2] show ?thesis
    by (simp add: parse_content_length_def http_head_def del: content_length_from.simps)
qed

lemma find_header_end_http_head:
  assumes "\<forall>l \<in> set ls. line_ok l" and "ls \<noteq> []"
  shows "find_header_end (http_head ls @ b) n =
    (if length (http_head ls) \<le> n then Some (Some (length (http_head ls))) else Some None)"
proof (cases "length (http_head ls) \<le> n")
  case True
  with find_header_end_head [OF assms, of n 0 b] show ?thesis by (simp add: find_header_end_def)
next
  case False
  with find_header_end_short [OF find_header_end_head [OF assms order.refl, of 0 b], of n] show ?thesis
    by (simp add: find_header_end_def)
qed

text \<open>The scan for the blank line reads the data only.\<close>

lemma find_header_end_data:
  "find_header_end_from i (d @ r) (length d) = find_header_end_from i (d @ r') (length d)"
proof (induction d arbitrary: i)
  case (Cons c d)
  have "match_at (=) (c # d @ r) [LF, LF] = match_at (=) (c # d @ r') [LF, LF]" if "length d > 0"
    using that by (cases d) auto
  moreover have "match_at (=) (c # d @ r) [CR, LF, CR, LF] = match_at (=) (c # d @ r') [CR, LF, CR, LF]"
    if "length d \<ge> 3"
    using that by (cases d; cases "tl d"; cases "tl (tl d)") auto
  ultimately show ?case
    using Cons.IH [of "Suc i"] by (auto split: bind_splits)
qed simp

lemma line_ok_length_line [simp]: "line_ok (length_line n)"
  by (simp add: line_ok_def length_line_def)

lemma find_header_end_msg:
  assumes "head_ok start hs cl hs'"
  shows "find_header_end (msg_head start hs cl hs' @ b) n =
    (if length (msg_head start hs cl hs') \<le> n then Some (Some (length (msg_head start hs cl hs')))
     else Some None)"
  unfolding msg_head_def
  using assms by (intro find_header_end_http_head) (auto simp: head_ok_def split: option.splits)

lemma parse_content_length_msg:
  assumes "head_ok start hs cl hs'" and "NUL \<in> set b"
  shows "parse_content_length (msg_head start hs cl hs' @ b) (length (msg_head start hs cl hs'))
    = Some (announced cl)"
proof (cases cl)
  case None
  with assms show ?thesis
    using parse_content_length_none [of "start # hs @ hs'"]
    by (auto simp: msg_head_def head_ok_def announced_def)
next
  case (Some n)
  with assms show ?thesis
    using parse_content_length_found [of "start # hs" n b hs']
    by (auto simp: msg_head_def head_ok_def announced_def)
qed

lemma find_header_end_prefix:
  assumes "head_ok start hs cl hs'" and "n < length (msg_head start hs cl hs')"
  shows "find_header_end (take n (msg_head start hs cl hs' @ b) @ r) n = Some None"
proof -
  let ?t = "msg_head start hs cl hs' @ b"
  have "find_header_end (take n ?t @ drop n ?t) n = Some None"
    unfolding append_take_drop_id using find_header_end_msg [OF assms(1), of b n] assms(2) by simp
  then show ?thesis
    using find_header_end_data [of 0 "take n ?t" "drop n ?t" r] assms(2)
    by (simp add: find_header_end_def)
qed

text \<open>A prefix of a message that holds the whole head.\<close>

lemma recv_prefix:
  "length h \<le> n \<Longrightarrow> take n (h @ body) @ r = h @ take (n - length h) body @ r"
  by simp

lemma copy_body_all:
  "n \<le> length b \<Longrightarrow> copy_body (h @ b @ r) (length h) n = Some (take (min (BODY_SIZE - 1) n) b)"
proof -
  have "(if n < BODY_SIZE then n else BODY_SIZE - 1) = min (BODY_SIZE - 1) n"
    by (simp add: BODY_SIZE_def)
  then show "n \<le> length b \<Longrightarrow> ?thesis" by (simp add: copy_body_def Let_def min_def)
qed

text \<open>A copy that ends at its delimiter.\<close>

lemma copy_until_delim:
  "\<forall>c \<in> set w. \<not> stop c \<Longrightarrow> length w \<le> n \<Longrightarrow> stop x \<Longrightarrow> copy_until stop n (w @ x # t) = Some (w, x # t)"
  by simp

lemma skip_space_word:
  "w \<noteq> [] \<Longrightarrow> SPC \<notin> set w \<Longrightarrow> skip_while (\<lambda>c. c = SPC) (SPC # w @ t) = Some (w @ t)"
  by (cases w) auto

lemma request_fields:
  assumes "target_ok m path q"
  shows "\<exists>p1 p2 p3. copy_until (\<lambda>c. c = SPC) 7 (request_line m path q @ r) = Some (m, p1)
    \<and> skip_while (\<lambda>c. c = SPC) p1 = Some p2
    \<and> copy_until (\<lambda>c. c = SPC \<or> c = CHR ''?'' \<or> c = CR) 255 p2 = Some (path, p3)
    \<and> (if hd p3 = CHR ''?'' then map_option fst (copy_until (\<lambda>c. c = SPC \<or> c = CR) 511 (tl p3))
        else Some []) = Some (case q of None \<Rightarrow> [] | Some s \<Rightarrow> s)"
proof -
  let ?t = "(case q of None \<Rightarrow> [] | Some s \<Rightarrow> ''?'' @ s) @ '' HTTP/1.1'' @ r"
  have ok: "SPC \<notin> set m" "length m \<le> 7" "path \<noteq> []" "length path \<le> 255" "SPC \<notin> set path"
    "CHR ''?'' \<notin> set path" "CR \<notin> set path"
    "\<And>s. q = Some s \<Longrightarrow> length s \<le> 511 \<and> SPC \<notin> set s \<and> CR \<notin> set s"
    using assms by (auto simp: target_ok_def)
  have "copy_until (\<lambda>c. c = SPC) 7 (request_line m path q @ r) = Some (m, SPC # path @ ?t)"
  proof -
    have "copy_until (\<lambda>c. c = SPC) 7 (m @ SPC # path @ ?t) = Some (m, SPC # path @ ?t)"
      by (rule copy_until_delim) (use ok in auto)
    then show ?thesis by (simp add: request_line_def)
  qed
  moreover have "skip_while (\<lambda>c. c = SPC) (SPC # path @ ?t) = Some (path @ ?t)"
    using ok by (intro skip_space_word) auto
  moreover have "copy_until (\<lambda>c. c = SPC \<or> c = CHR ''?'' \<or> c = CR) 255 (path @ ?t) = Some (path, ?t)"
  proof -
    obtain x t where t: "?t = x # t" "x = SPC \<or> x = CHR ''?''" by (cases q) auto
    show ?thesis unfolding t(1) by (rule copy_until_delim) (use ok t in auto)
  qed
  moreover have "(if hd ?t = CHR ''?'' then map_option fst (copy_until (\<lambda>c. c = SPC \<or> c = CR) 511 (tl ?t))
        else Some []) = Some (case q of None \<Rightarrow> [] | Some s \<Rightarrow> s)"
  proof (cases q)
    case (Some s)
    have "copy_until (\<lambda>c. c = SPC \<or> c = CR) 511 (s @ SPC # ''HTTP/1.1'' @ r)
        = Some (s, SPC # ''HTTP/1.1'' @ r)"
      by (rule copy_until_delim) (use ok(8) [OF Some] in auto)
    with Some show ?thesis by simp
  qed simp
  ultimately show ?thesis by blast
qed

text \<open>Parsing a request whose head and \<open>length d\<close> bytes of whose body have arrived.\<close>

lemma http_parse_request_head:
  assumes head: "head_ok (request_line m path q) hs cl hs'" and target: "target_ok m path q"
  shows "\<exists>req. http_parse_request (recv_buf (msg_head (request_line m path q) hs cl hs' @ d) pad)
      (length (msg_head (request_line m path q) hs cl hs') + length d)
    = Some (if length d < announced cl then (1, req)
            else (0, parsed_request m path q (take (announced cl) d)))"
proof -
  let ?h = "msg_head (request_line m path q) hs cl hs'"
  let ?b = "?h @ d @ NUL # pad"
  obtain r where r: "?b = request_line m path q @ r" by (auto simp: msg_head_def)
  obtain p1 p2 p3 where fields:
    "copy_until (\<lambda>c. c = SPC) 7 ?b = Some (m, p1)"
    "skip_while (\<lambda>c. c = SPC) p1 = Some p2"
    "copy_until (\<lambda>c. c = SPC \<or> c = CHR ''?'' \<or> c = CR) 255 p2 = Some (path, p3)"
    "(if hd p3 = CHR ''?'' then map_option fst (copy_until (\<lambda>c. c = SPC \<or> c = CR) 511 (tl p3))
        else Some []) = Some (case q of None \<Rightarrow> [] | Some s \<Rightarrow> s)"
    unfolding r using request_fields [OF target] by blast
  have fhe: "find_header_end ?b (length ?h + length d) = Some (Some (length ?h))"
    using find_header_end_msg [OF head] by simp
  have cl: "parse_content_length ?b (length ?h) = Some (announced cl)"
    using parse_content_length_msg [OF head, of "d @ NUL # pad"] by simp
  have body: "copy_body ?b (length ?h) (announced cl) = Some (take (min (BODY_SIZE - 1) (announced cl)) d)"
    if "announced cl \<le> length d"
    using copy_body_all [OF that] by simp
  show ?thesis
    using body
    by (simp add: http_parse_request_def fhe fields cl Let_def parsed_request_def http_request_zero_def
        min_def)
qed

section \<open>Properties of the request parser\<close>

text \<open>C9. A request whose bytes have all arrived is parsed with code 0 into exactly its method,
  path, query and body (the body cut to 4095 bytes), whatever the rest of the receive array holds.\<close>

theorem http_parse_request_complete:
  assumes head: "head_ok (request_line m path q) hs cl hs'" and target: "target_ok m path q"
    and cl: "announced cl = length body"
    and msg: "msg = msg_head (request_line m path q) hs cl hs' @ body"
  shows "http_parse_request (recv_buf msg pad) (length msg) = Some (0, parsed_request m path q body)"
  using http_parse_request_head [OF head target, of body pad] cl by (simp add: msg)

definition demo_request :: string where
  "demo_request = msg_head (request_line ''GET'' ''/lookup'' (Some ''name=bob'')) [''Host: x''] (Some 2) []
     @ ''hi''"

lemma demo_head_ok:
  "head_ok (request_line ''GET'' ''/lookup'' (Some ''name=bob'')) [''Host: x''] (Some 2) []"
  "target_ok ''GET'' ''/lookup'' (Some ''name=bob'')"
  by (simp_all add: head_ok_def line_ok_def other_line_def request_line_def announced_def eq_nocase_def
      tolower_def target_ok_def)

theorem http_parse_request_complete_witness:
  "http_parse_request (recv_buf demo_request [NUL, NUL]) (length demo_request)
     = Some (0, parsed_request ''GET'' ''/lookup'' (Some ''name=bob'') ''hi'')"
  by (rule http_parse_request_complete [OF demo_head_ok])
    (simp_all add: demo_request_def announced_def)

lemma request_prefix_incomplete:
  assumes head: "head_ok (request_line m path q) hs cl hs'" and target: "target_ok m path q"
    and cl: "announced cl = length body"
    and msg: "msg = msg_head (request_line m path q) hs cl hs' @ body" and n: "n < length msg"
  shows "\<exists>req. http_parse_request (recv_buf (take n msg) pad) n = Some (1, req)"
proof -
  let ?h = "msg_head (request_line m path q) hs cl hs'"
  show ?thesis
  proof (cases "n < length ?h")
    case True
    with find_header_end_prefix [OF head, of n body "NUL # pad"] show ?thesis
      by (simp add: http_parse_request_def msg)
  next
    case False
    with n cl have "length (take (n - length ?h) body) < announced cl"
      and "length ?h + length (take (n - length ?h) body) = n"
      by (auto simp: msg)
    with http_parse_request_head [OF head target, of "take (n - length ?h) body" pad] False show ?thesis
      by (auto simp: msg)
  qed
qed

text \<open>With any proper prefix of a request in the receive array the parser asks for more data:
  it never accepts or rejects a request early.\<close>

theorem http_parse_request_prefix:
  assumes head: "head_ok (request_line m path q) hs cl hs'" and target: "target_ok m path q"
    and cl: "announced cl = length body"
    and msg: "msg = msg_head (request_line m path q) hs cl hs' @ body" and n: "n < length msg"
  shows "\<exists>req. http_parse_request (recv_buf (take n msg) pad) n = Some (1, req)"
  using assms by (rule request_prefix_incomplete)

theorem http_parse_request_prefix_witness:
  "\<exists>req. http_parse_request (recv_buf (take 30 demo_request) [NUL]) 30 = Some (1, req)"
  by (rule http_parse_request_prefix [OF demo_head_ok, where body = "''hi''"])
    (simp_all add: demo_request_def announced_def msg_head_def request_line_def length_line_def)

text \<open>What a parse that returns stores.\<close>

lemma request_fields_fit:
  assumes "http_parse_request buf len = Some (rc, req)"
  shows "(rc = 0 \<or> rc = 1) \<and> length (req_method req) \<le> 7 \<and> length (req_path req) \<le> 255
    \<and> length (req_query req) \<le> 511 \<and> length (req_body req) < BODY_SIZE
    \<and> req_body_len req = length (req_body req) \<and> (rc = 0 \<longleftrightarrow> req_complete req)"
proof -
  have body: "copy_body buf h n = Some b \<Longrightarrow> length b < BODY_SIZE" for h n b
    by (auto simp: copy_body_def Let_def BODY_SIZE_def split: if_splits)
  have pos: "0 < BODY_SIZE" by (simp add: BODY_SIZE_def)
  show ?thesis
  proof (cases "find_header_end buf len")
    case (Some r)
    show ?thesis
    proof (cases r)
      case None
      with Some assms pos show ?thesis
        by (auto simp: http_parse_request_def http_request_zero_def)
    next
      case (Some hlen)
      with \<open>find_header_end buf len = Some r\<close> assms obtain m p1 p2 path p3 query cl where
        m: "copy_until (\<lambda>c. c = SPC) 7 buf = Some (m, p1)" and
        path: "copy_until (\<lambda>c. c = SPC \<or> c = CHR ''?'' \<or> c = CR) 255 p2 = Some (path, p3)" and
        query: "(if hd p3 = CHR ''?'' then map_option fst (copy_until (\<lambda>c. c = SPC \<or> c = CR) 511 (tl p3))
          else Some []) = Some query" and
        rest: "(if cl > 0 then if len - hlen < cl
             then Some (1, http_request_zero\<lparr>req_headers_complete := True, req_method := m,
                     req_path := path, req_query := query, req_content_length := cl\<rparr>)
             else copy_body buf hlen cl \<bind> (\<lambda>b. Some (0, http_request_zero\<lparr>req_headers_complete := True,
                     req_method := m, req_path := path, req_query := query, req_content_length := cl,
                     req_body := b, req_body_len := length b, req_complete := True\<rparr>))
           else Some (0, http_request_zero\<lparr>req_headers_complete := True, req_method := m,
                     req_path := path, req_query := query, req_content_length := cl,
                     req_complete := True\<rparr>)) = Some (rc, req)"
        by (auto simp: http_parse_request_def Let_def bind_eq_Some_conv)
      have "length query \<le> 511"
        using query by (auto split: if_splits dest: copy_until_length)
      with rest copy_until_length [OF m] copy_until_length [OF path] pos show ?thesis
        by (auto simp: http_request_zero_def bind_eq_Some_conv split: if_splits dest: body)
    qed
  qed (use assms in \<open>simp add: http_parse_request_def\<close>)
qed

text \<open>The reads of the parser inside a zero padded array.\<close>

lemma skip_while_Some: "NUL \<in> set p \<Longrightarrow> \<exists>q. skip_while P p = Some q"
  by (induction P p rule: skip_while.induct) auto

lemma skip_while_stops: "\<exists>c \<in> set p. \<not> P c \<Longrightarrow> \<exists>q. skip_while P p = Some q"
  by (induction P p rule: skip_while.induct) auto

lemma find_header_end_Some: "n \<le> length p \<Longrightarrow> \<exists>r. find_header_end_from i p n = Some r"
proof (induction i p n rule: find_header_end_from.induct)
  case (2 i p n)
  show ?case
  proof (cases "n = 0")
    case False
    with "2.prems" obtain c p' where p: "p = c # p'" by (cases p) auto
    from False "2.prems" obtain b where b: "match_at (=) p [LF, LF] = Some b"
      using match_at_Some [of "[LF, LF]" p "(=)"] by auto
    have "\<exists>b'. (if n \<ge> 3 then match_at (=) p [CR, LF, CR, LF] else Some False) = Some b'"
      using "2.prems" match_at_Some [of "[CR, LF, CR, LF]" p "(=)"] by auto
    then obtain b' where b': "(if n \<ge> 3 then match_at (=) p [CR, LF, CR, LF] else Some False) = Some b'"
      by blast
    have "\<exists>r. find_header_end_from (Suc i) p' n = Some r" if "\<not> b'" "\<not> b"
      using "2.IH" [OF False b' that(1) b that(2) p] "2.prems" p by simp
    moreover have "find_header_end_from i p (Suc n) = (if b' then Some (Some (i + 4))
        else if b then Some (Some (i + 2)) else find_header_end_from (Suc i) p' n)"
      using False b b' by (simp only: find_header_end_from.simps) (simp add: p)
    ultimately show ?thesis by auto
  qed simp
qed simp

lemma find_header_end_le:
  "find_header_end_from i p n = Some (Some k) \<Longrightarrow> k \<le> i + n"
  by (induction i p n rule: find_header_end_from.induct)
    (fastforce split: bind_splits if_splits list.splits)+

lemma match_at_nocase_Some:
  "NUL \<in> set p \<Longrightarrow> \<forall>x \<in> set xs. \<not> eq_nocase NUL x \<Longrightarrow> \<exists>b. match_at eq_nocase p xs = Some b
     \<and> (b \<longrightarrow> NUL \<in> set (drop (length xs) p))"
  by (induction eq_nocase p xs rule: match_at.induct) auto

lemma content_length_Some:
  "NUL \<in> set (drop n p) \<Longrightarrow> \<exists>r. content_length_from bol p n = Some r"
proof (induction bol p n rule: content_length_from.induct)
  case (2 bol p n)
  then obtain c p' where p: "p = c # p'" by (cases p) auto
  have NULp: "NUL \<in> set p" using "2.prems" by (auto dest: in_set_dropD)
  have "\<forall>x \<in> set ''Content-Length:''. \<not> eq_nocase NUL x" by code_simp
  moreover have "length ''Content-Length:'' = 15" by simp
  ultimately obtain b
    where b: "match_at eq_nocase p ''Content-Length:'' = Some b" "b \<longrightarrow> NUL \<in> set (drop 15 p)"
    using match_at_nocase_Some [OF NULp] by metis
  have rest: "\<exists>r. content_length_from (c = LF) p' n = Some r" if "\<not> (bol \<and> b)"
    using "2.IH" [of "bol \<and> b" c p'] "2.prems" p b that by auto
  have hit: "\<exists>q s. skip_while (\<lambda>c. c = SPC) (drop 15 p) = Some q \<and> str_arg q = Some s" if "bol \<and> b"
  proof -
    from b that have NULd: "NUL \<in> set (drop 15 p)" by simp
    then obtain q where q: "skip_while (\<lambda>c. c = SPC) (drop 15 p) = Some q"
      using skip_while_Some by blast
    from skip_while_suffix [OF q] obtain u where u: "drop 15 p = u @ q" "\<forall>c \<in> set u. c \<noteq> NUL" by blast
    have "NUL \<in> set u \<or> NUL \<in> set q" using NULd unfolding u(1) by simp
    with u(2) have "NUL \<in> set q" by blast
    with q show ?thesis by (auto simp: str_arg_def)
  qed
  show ?case
  proof (cases "bol \<and> b")
    case True
    with hit b show ?thesis by auto
  next
    case False
    with rest b p show ?thesis by (cases bol) auto
  qed
qed simp

text \<open>The three scans of the request line advance by at most 7 characters, the spaces before some position
  \<open>j\<close> that holds no space, and 255 and 511 characters.\<close>

lemma request_line_scans:
  assumes "7 \<le> j" and "j + 768 \<le> length buf" and "buf ! j \<noteq> SPC"
  shows "\<exists>m p1 p2 path p3 query. copy_until (\<lambda>c. c = SPC) 7 buf = Some (m, p1)
    \<and> skip_while (\<lambda>c. c = SPC) p1 = Some p2
    \<and> copy_until (\<lambda>c. c = SPC \<or> c = CHR ''?'' \<or> c = CR) 255 p2 = Some (path, p3)
    \<and> (if hd p3 = CHR ''?'' then map_option fst (copy_until (\<lambda>c. c = SPC \<or> c = CR) 511 (tl p3))
        else Some []) = Some query"
proof -
  obtain m p1 where m: "copy_until (\<lambda>c. c = SPC) 7 buf = Some (m, p1)"
    using copy_until_Some [of 7 buf "\<lambda>c. c = SPC"] assms(1,2) by auto
  have p1: "buf = m @ p1" "length m \<le> 7"
    using copy_until_parts [OF m] copy_until_length [OF m] by auto
  have at: "p1 ! (j - length m) = buf ! j" "j - length m < length p1"
    using p1 assms(1,2) by (simp_all add: nth_append)
  have "p1 ! (j - length m) \<noteq> SPC" using at(1) assms(3) by simp
  with nth_mem [OF at(2)] have "\<exists>c \<in> set p1. c \<noteq> SPC" by (rule bexI [rotated])
  then obtain p2 where p2: "skip_while (\<lambda>c. c = SPC) p1 = Some p2" using skip_while_stops [of p1 "\<lambda>c. c = SPC"] by blast
  obtain u where u: "p1 = u @ p2" "\<forall>c \<in> set u. c = SPC"
    using skip_while_suffix [OF p2] by blast
  have "length u \<le> j - length m"
  proof (rule ccontr)
    assume "\<not> length u \<le> j - length m"
    then have "p1 ! (j - length m) \<in> set u" using u(1) by (auto simp: nth_append)
    with u(2) at(1) assms(3) show False by metis
  qed
  then have len: "768 \<le> length p2" using u(1) p1 assms(1,2) by auto
  then obtain path p3 where path: "copy_until (\<lambda>c. c = SPC \<or> c = CHR ''?'' \<or> c = CR) 255 p2 = Some (path, p3)"
    using copy_until_Some [of 255 p2 "\<lambda>c. c = SPC \<or> c = CHR ''?'' \<or> c = CR"] by auto
  then have "513 \<le> length p3"
    using copy_until_parts [OF path] copy_until_length [OF path] len by auto
  then have "511 < length (tl p3)" by simp
  then obtain qs r where "copy_until (\<lambda>c. c = SPC \<or> c = CR) 511 (tl p3) = Some (qs, r)"
    using copy_until_Some [of 511 "tl p3" "\<lambda>c. c = SPC \<or> c = CR"] by auto
  with m p2 path show ?thesis by auto
qed

text \<open>A header end that is inside the array is found, at the latest there; and the parser stays inside the
  array when the largest body it copies fits behind it, whatever length it is told.\<close>

lemma find_header_end_found:
  "length u + 4 \<le> n \<Longrightarrow> \<exists>h. find_header_end_from i (u @ CR # LF # CR # LF # v) n = Some (Some h) \<and> h \<le> i + length u + 4"
proof (induction u arbitrary: i n)
  case Nil
  then obtain n' where "n = Suc n'" "3 \<le> n'" by (cases n) auto
  then show ?case by simp
next
  case (Cons c u)
  then obtain n' where n: "n = Suc n'" "length u + 4 \<le> n'" by (cases n) auto
  let ?p = "(c # u) @ CR # LF # CR # LF # v"
  obtain b where b: "match_at (=) ?p [CR, LF, CR, LF] = Some b" using match_at_Some [of "[CR, LF, CR, LF]" ?p "(=)"] by auto
  obtain b' where b': "match_at (=) ?p [LF, LF] = Some b'" using match_at_Some [of "[LF, LF]" ?p "(=)"] by auto
  obtain h where h: "find_header_end_from (Suc i) (u @ CR # LF # CR # LF # v) n' = Some (Some h)" "h \<le> Suc i + length u + 4"
    using Cons.IH [OF n(2)] by blast
  have e: "find_header_end_from i ?p n = (if b then Some (Some (i + 4)) else if b' then Some (Some (i + 2))
      else find_header_end_from (Suc i) (u @ CR # LF # CR # LF # v) n')"
    using b b' n by simp
  show ?case unfolding e h(1) using h(2) by auto
qed

lemma http_parse_request_total:
  assumes "buf = u @ CR # LF # CR # LF # v" and "length u + 4 \<le> len" and "length u + 4 + BODY_SIZE \<le> length buf"
    and "NUL \<in> set v" and "7 \<le> j" and "j + 768 \<le> length buf" and "buf ! j \<noteq> SPC"
  shows "\<exists>rc req. http_parse_request buf len = Some (rc, req)"
proof -
  obtain hlen where h: "find_header_end buf len = Some (Some hlen)" "hlen \<le> length u + 4"
    using find_header_end_found [OF assms(2), of 0 v] assms(1) by (auto simp: find_header_end_def)
  obtain m p1 p2 path p3 query where scans:
    "copy_until (\<lambda>c. c = SPC) 7 buf = Some (m, p1)"
    "skip_while (\<lambda>c. c = SPC) p1 = Some p2"
    "copy_until (\<lambda>c. c = SPC \<or> c = CHR ''?'' \<or> c = CR) 255 p2 = Some (path, p3)"
    "(if hd p3 = CHR ''?'' then map_option fst (copy_until (\<lambda>c. c = SPC \<or> c = CR) 511 (tl p3))
      else Some []) = Some query"
    using request_line_scans [OF assms(5-7)] by blast
  define x where "x = u @ [CR, LF, CR, LF]"
  have "buf = x @ v" "hlen \<le> length x" using assms(1) h(2) by (simp_all add: x_def)
  then have "drop hlen buf = drop hlen x @ v" by simp
  then have "NUL \<in> set (drop hlen buf)" using assms(4) by simp
  then obtain cl where cl: "parse_content_length buf hlen = Some cl"
    using content_length_Some [of hlen buf True] by (auto simp: parse_content_length_def)
  have "\<exists>b. copy_body buf hlen cl = Some b" using h(2) assms(3) by (auto simp: copy_body_def Let_def)
  then show ?thesis
    using h(1) scans cl by (cases "len - hlen < cl") (auto simp: http_parse_request_def Let_def)
qed

text \<open>In a receive array whose data is followed by at least 775 zero bytes (7 for the method, 255
  for the path, 511 for the query and the delimiters) the parser stays inside the array, whatever
  the data is.\<close>

theorem http_parse_request_safe:
  assumes buf: "buf = d @ replicate k NUL" and k: "775 \<le> k"
  shows "\<exists>rc req. http_parse_request buf (length d) = Some (rc, req)"
proof -
  obtain r where r: "find_header_end buf (length d) = Some r"
    using find_header_end_Some [of "length d" buf 0] buf by (auto simp: find_header_end_def)
  show ?thesis
  proof (cases r)
    case None
    with r show ?thesis by (simp add: http_parse_request_def)
  next
    case (Some hlen)
    with r have hlen: "hlen \<le> length d"
      using find_header_end_le [of 0 buf "length d" hlen] by (simp add: find_header_end_def)
    obtain m p1 p2 path p3 query where scans:
      "copy_until (\<lambda>c. c = SPC) 7 buf = Some (m, p1)"
      "skip_while (\<lambda>c. c = SPC) p1 = Some p2"
      "copy_until (\<lambda>c. c = SPC \<or> c = CHR ''?'' \<or> c = CR) 255 p2 = Some (path, p3)"
      "(if hd p3 = CHR ''?'' then map_option fst (copy_until (\<lambda>c. c = SPC \<or> c = CR) 511 (tl p3))
        else Some []) = Some query"
    proof -
      have "7 \<le> max 7 (length d)" "max 7 (length d) + 768 \<le> length buf" "buf ! max 7 (length d) \<noteq> SPC"
        using buf k by (simp_all add: nth_append)
      from request_line_scans [OF this] show ?thesis using that by blast
    qed
    obtain cl where cl: "parse_content_length buf hlen = Some cl"
      using content_length_Some [of hlen buf True] buf k hlen by (auto simp: parse_content_length_def)
    have "\<exists>b. copy_body buf hlen cl = Some b" if "cl \<le> length d - hlen"
      using that hlen buf by (auto simp: copy_body_def Let_def)
    then show ?thesis
      using r Some scans cl by (cases "length d - hlen < cl") (auto simp: http_parse_request_def Let_def)
  qed
qed

theorem http_parse_request_safe_witness:
  "\<exists>rc req. http_parse_request (demo_request @ replicate 775 NUL) (length demo_request) = Some (rc, req)"
  by (rule http_parse_request_safe [where k = 775]) simp_all

text \<open>C32. A parse that returns reports 0 or 1 (never an error), and every field fits its array: method 7,
  path 255, query 511 and body 4095 bytes, the body length being the number of stored bytes. And it
  does return whatever the data, when at least 775 zero bytes follow the data in the receive array
  (without them it may read past the array, \<open>http_parse_request_overread\<close>).\<close>

theorem http_parse_request_bounds:
  "(\<forall>rc req. http_parse_request buf len = Some (rc, req) \<longrightarrow>
      (rc = 0 \<or> rc = 1) \<and> length (req_method req) \<le> 7 \<and> length (req_path req) \<le> 255
      \<and> length (req_query req) \<le> 511 \<and> length (req_body req) < BODY_SIZE
      \<and> req_body_len req = length (req_body req) \<and> (rc = 0 \<longleftrightarrow> req_complete req))
   \<and> (\<forall>d k. buf = d @ replicate k NUL \<longrightarrow> 775 \<le> k \<longrightarrow> len = length d \<longrightarrow>
      (\<exists>rc req. http_parse_request buf len = Some (rc, req)))"
  using request_fields_fit [of buf len] http_parse_request_safe by blast

theorem http_parse_request_bounds_witness:
  "\<exists>rc req. http_parse_request (demo_request @ replicate 775 NUL) (length demo_request) = Some (rc, req)
     \<and> (rc = 0 \<or> rc = 1) \<and> length (req_path req) \<le> 255 \<and> length (req_body req) < BODY_SIZE"
  using http_parse_request_bounds [of "demo_request @ replicate 775 NUL" "length demo_request"] by blast

text \<open>In a receive array that holds nothing but the terminating NUL after the data, the parser
  leaves the array: a request of blanks after an empty line sends the scan of the path past the end.\<close>

theorem http_parse_request_overread:
  "http_parse_request ([LF, LF] @ replicate (Suc k) SPC @ [NUL]) (k + 3) = None"
proof -
  let ?b = "[LF, LF] @ replicate (Suc k) SPC @ [NUL]"
  have "find_header_end ?b (k + 3) = Some (Some 2)"
    by (simp add: find_header_end_def numeral_3_eq_3)
  moreover have "copy_until (\<lambda>c. c = SPC) 7 ?b = Some ([LF, LF], replicate (Suc k) SPC @ [NUL])"
    by (simp add: numeral_eq_Suc)
  moreover have "skip_while (\<lambda>c. c = SPC) (replicate (Suc k) SPC @ [NUL]) = Some [NUL]"
    by (subst skip_while_append) auto
  ultimately show ?thesis by (simp add: http_parse_request_def)
qed

section \<open>Properties of the response formatter and parser\<close>

definition status_line :: "int \<Rightarrow> string \<Rightarrow> string" where
  "status_line status reason = ''HTTP/1.1 '' @ show_int status @ '' '' @ reason"

lemma http_format_response_text:
  assumes "body_len < 2 ^ 31"
  shows "http_format_response bufsz status body body_len =
    snprintf bufsz (msg_head (status_line status (http_reason status))
      [''Content-Type: application/json''] (Some body_len) [''Connection: close''] @ take body_len body)"
proof -
  have "i32 (int body_len) = int body_len" using assms by (simp add: in_i32_def)
  then show ?thesis
    by (simp add: http_format_response_def msg_head_def status_line_def length_line_def fmt_prec_def)
qed

lemma http_parse_response_head:
  assumes head: "head_ok (status_line status reason) hs cl hs'" and status: "in_i32 status"
  shows "\<exists>resp. http_parse_response (recv_buf (msg_head (status_line status reason) hs cl hs' @ d) pad)
      (length (msg_head (status_line status reason) hs cl hs') + length d)
    = Some (if length d < announced cl then (1, resp)
            else (0, parsed_response status (take (announced cl) d)))"
proof -
  let ?h = "msg_head (status_line status reason) hs cl hs'"
  define b where "b = recv_buf (?h @ d) pad"
  obtain r where r: "?h = status_line status reason @ r" by (auto simp: msg_head_def)
  have len: "\<not> length ?h + length d < 12"
  proof -
    have "12 \<le> length ?h" by (cases "show_int status") (auto simp: msg_head_def status_line_def)
    then show ?thesis by simp
  qed
  have "\<exists>s. str_arg (drop 9 b) = Some s \<and> atoi s = status"
  proof -
    let ?t = "'' '' @ reason @ r @ d @ NUL # pad"
    have "drop 9 b = drop 9 (status_line status reason @ r @ d @ NUL # pad)"
      by (simp only: b_def r append_assoc)
    also have "\<dots> = show_int status @ ?t" by (simp add: status_line_def)
    finally have "drop 9 b = show_int status @ ?t" .
    moreover have "str_arg (show_int status @ ?t) = Some (show_int status @ SPC # takeWhile (\<lambda>c. c \<noteq> NUL) (tl ?t))"
      by (simp add: str_arg_def)
    moreover have "\<not> isdigit SPC" by (simp add: isdigit_def digit_val_def)
    ultimately show ?thesis using status by (simp add: atoi_show_int)
  qed
  then obtain s where s: "str_arg (drop 9 b) = Some s" "atoi s = status" by blast
  have fhe: "find_header_end b (length ?h + length d) = Some (Some (length ?h))"
    using find_header_end_msg [OF head] by (simp add: b_def)
  have cl: "parse_content_length b (length ?h) = Some (announced cl)"
    using parse_content_length_msg [OF head, of "d @ NUL # pad"] by (simp add: b_def)
  have body: "copy_body b (length ?h) (announced cl) = Some (take (min (BODY_SIZE - 1) (announced cl)) d)"
    if "announced cl \<le> length d"
    using copy_body_all [OF that] by (simp add: b_def)
  have "\<exists>resp. http_parse_response b (length ?h + length d)
    = Some (if length d < announced cl then (1, resp)
            else (0, parsed_response status (take (announced cl) d)))"
    using body len s(2)
    by (simp add: http_parse_response_def fhe s(1) cl Let_def parsed_response_def
        http_response_zero_def min_def)
  then show ?thesis by (simp only: b_def)
qed

text \<open>The heads the program writes are well formed.\<close>

lemma line_ok_status_line: "reason = [] \<or> line_ok reason \<Longrightarrow> line_ok (status_line status reason)"
  by (auto simp: line_ok_def status_line_def)

lemma other_line_status_line: "other_line (status_line status reason)"
  by (simp add: other_line_def status_line_def eq_nocase_def tolower_def)

lemma line_ok_http_reason: "line_ok (http_reason status)"
  by (simp add: http_reason_def line_ok_def)

lemma response_head_ok:
  assumes "body_len < 2 ^ 63"
  shows "head_ok (status_line status (http_reason status)) [''Content-Type: application/json'']
    (Some body_len) [''Connection: close'']"
proof -
  have "other_line ''Content-Type: application/json''" by code_simp
  then show ?thesis
    using assms
    by (simp add: head_ok_def announced_def line_ok_status_line other_line_status_line
        line_ok_http_reason) (simp add: line_ok_def)
qed

lemma http_format_response_length:
  assumes "in_i32 status" and "body_len \<le> 7168"
    and "http_format_response 8192 status body body_len = (text, n)"
  shows "n < 8192 \<and> length text = n"
proof -
  have "length (show_nat body_len) \<le> 4"
    using assms(2) by (intro length_show_nat) auto
  moreover have "length (http_reason status) \<le> 21" by (simp add: http_reason_def)
  ultimately have "n < 8192"
    using assms length_show_int [OF assms(1)]
    by (auto simp: http_format_response_text snprintf_def msg_head_def status_line_def length_line_def)
  with assms(3) show ?thesis by (auto simp: http_format_response_def snprintf_def)
qed

lemma format_parse_response:
  assumes "in_i32 status" and "body_len \<le> length body" and "body_len < 2 ^ 31"
    and "http_format_response bufsz status body body_len = (text, n)" and "n < bufsz"
  shows "http_parse_response (recv_buf text pad) n = Some (0, parsed_response status (take body_len body))"
proof -
  let ?h = "msg_head (status_line status (http_reason status)) [''Content-Type: application/json'']
    (Some body_len) [''Connection: close'']"
  have "body_len < 2 ^ 63" using assms(3) by simp
  then have ok: "head_ok (status_line status (http_reason status)) [''Content-Type: application/json'']
    (Some body_len) [''Connection: close'']" by (rule response_head_ok)
  have "snprintf bufsz (?h @ take body_len body) = (text, n)"
    using assms(3,4) by (simp add: http_format_response_text)
  from snprintf_fits [OF this assms(5)] assms(2)
  have "text = ?h @ take body_len body" "n = length ?h + body_len" by auto
  then show ?thesis
    using http_parse_response_head [OF ok assms(1), of "take body_len body" pad] assms(2)
    by (simp add: announced_def min_absorb2)
qed

text \<open>C26. A formatted response that fits its buffer is parsed back by the client side parser: the same
  status code and the same body, cut to 4095 bytes.\<close>

theorem http_response_roundtrip:
  assumes "in_i32 status" and "body_len \<le> length body" and "body_len < 2 ^ 31"
    and "http_format_response bufsz status body body_len = (text, n)" and "n < bufsz"
  shows "http_parse_response (recv_buf text pad) n = Some (0, parsed_response status (take body_len body))"
  using assms by (rule format_parse_response)

theorem http_response_roundtrip_witness:
  "http_parse_response (recv_buf (fst (http_format_response 8192 404 ''no'' 2)) [])
      (snd (http_format_response 8192 404 ''no'' 2)) = Some (0, parsed_response 404 ''no'')"
proof -
  obtain t n where tn: "http_format_response 8192 404 ''no'' 2 = (t, n)"
    by (rule prod.exhaust)
  have "in_i32 404" by (simp add: in_i32_def)
  with http_response_roundtrip [OF _ _ _ tn] http_format_response_length [OF _ _ tn] show ?thesis
    by (simp add: tn)
qed

text \<open>A response of any status code and at most 7168 bytes of body fits the 8192 byte write buffer
  of a connection, so the length the connection sends is the length of the text in the buffer.\<close>

theorem http_format_response_fits:
  assumes "in_i32 status" and "body_len \<le> 7168"
    and "http_format_response 8192 status body body_len = (text, n)"
  shows "n < 8192 \<and> length text = n"
  using assms by (rule http_format_response_length)

theorem http_format_response_fits_witness:
  "snd (http_format_response 8192 200 ''ok'' 2) < 8192"
proof -
  obtain t n where tn: "http_format_response 8192 200 ''ok'' 2 = (t, n)"
    by (rule prod.exhaust)
  then show ?thesis
    using http_format_response_fits [OF _ _ tn] by (simp add: in_i32_def)
qed

end
