(* ===== verification/Interfaces.thy ===== *)
theory Interfaces
  imports C_Base
begin

text \<open>
  The contracts between the components of the shared memory library, as locales.

  \<^item> \<open>slot_allocator\<close>: what \<open>dpumesh_write\<close> and \<open>dpumesh_read\<close> rely on of the buffer pools. The
    provider is \<open>Buffer_Pool\<close> (\<open>bp_alloc\<close>, \<open>bp_free\<close>).
  \<^item> \<open>bounded_fifo\<close>: what the writer and the poller thread rely on of the descriptor rings. The
    provider is \<open>Desc_Ring\<close> (\<open>dr_put\<close>, \<open>dr_get\<close>).
\<close>

section \<open>The name prefix of the shared memory objects\<close>

text \<open>\<open>shm_prefix\<close> of the value of the environment variable.\<close>

definition shm_prefix :: "string option \<Rightarrow> string" where
  "shm_prefix env = (case env of None \<Rightarrow> ''dpumesh'' | Some s \<Rightarrow> s)"

section \<open>Slot allocators\<close>

text \<open>Allocating \<open>n\<close> slots in a row: the returned slot numbers, -1 for a refusal.\<close>

fun alloc_many :: "('p \<Rightarrow> int \<times> 'p) \<Rightarrow> nat \<Rightarrow> 'p \<Rightarrow> int list \<times> 'p" where
  "alloc_many alloc 0 p = ([], p)"
| "alloc_many alloc (Suc n) p =
     (let (s, p') = alloc p; (ss, p'') = alloc_many alloc n p' in (s # ss, p''))"

locale slot_allocator =
  fixes alloc :: "'p \<Rightarrow> int \<times> 'p"
    and release :: "'p \<Rightarrow> int \<Rightarrow> 'p"
    and used :: "'p \<Rightarrow> int set"
    and slots :: "'p \<Rightarrow> int set"
    and inv :: "'p \<Rightarrow> bool"
  assumes used_slots: "inv p \<Longrightarrow> used p \<subseteq> slots p"
    and slots_finite: "inv p \<Longrightarrow> finite (slots p)"
    and slots_nonneg: "s \<in> slots p \<Longrightarrow> 0 \<le> s"
    and alloc_full: "inv p \<Longrightarrow> used p = slots p \<Longrightarrow> alloc p = (-1, p)"
    and alloc_free_slot: "inv p \<Longrightarrow> used p \<noteq> slots p \<Longrightarrow> alloc p = (s, p') \<Longrightarrow>
      s \<in> slots p - used p \<and> used p' = insert s (used p) \<and> slots p' = slots p \<and> inv p'"
    and release_used: "inv p \<Longrightarrow> used (release p s) = used p - {s}"
    and release_slots: "slots (release p s) = slots p"
    and release_inv: "inv p \<Longrightarrow> inv (release p s)"
begin

lemma alloc_cases:
  assumes "inv p" and "alloc p = (s, p')"
  obtains (full) "s < 0" "used p = slots p" "p' = p"
  | (slot) "0 \<le> s" "s \<in> slots p" "s \<notin> used p" "used p' = insert s (used p)" "slots p' = slots p" "inv p'"
proof (cases "used p = slots p")
  case True
  then have "alloc p = (-1, p)" using assms(1) by (intro alloc_full)
  with assms(2) True show ?thesis by (intro full) auto
next
  case False
  from alloc_free_slot [OF assms(1) False assms(2)]
  have a: "s \<in> slots p" "s \<notin> used p" "used p' = insert s (used p)" "slots p' = slots p" "inv p'" by auto
  show ?thesis by (rule slot [OF slots_nonneg [OF a(1)] a])
qed

lemma alloc_inv: "inv p \<Longrightarrow> alloc p = (s, p') \<Longrightarrow> inv p' \<and> slots p' = slots p"
  by (rule alloc_cases [of p s p']) auto

lemma alloc_release: "inv p \<Longrightarrow> alloc p = (s, p') \<Longrightarrow> 0 \<le> s \<Longrightarrow> used (release p' s) = used p"
  by (rule alloc_cases [of p s p']) (auto simp: release_used)

text \<open>\<open>n\<close> allocations with room for \<open>n\<close> succeed and return \<open>n\<close> different free slots.\<close>

lemma alloc_many_distinct:
  assumes "inv p" and "n \<le> card (slots p - used p)" and "alloc_many alloc n p = (ss, p')"
  shows "distinct ss \<and> length ss = n \<and> set ss \<subseteq> slots p - used p \<and> used p' = used p \<union> set ss
    \<and> slots p' = slots p \<and> inv p'"
  using assms
proof (induction n arbitrary: p ss)
  case (Suc n)
  obtain s p1 where s: "alloc p = (s, p1)" by (rule prod.exhaust)
  obtain rs where rs: "alloc_many alloc n p1 = (rs, p')" "ss = s # rs"
    using Suc.prems(3) s by (auto split: prod.splits)
  have room: "used p \<noteq> slots p" using Suc.prems(2) by auto
  have s1: "s \<in> slots p - used p" "used p1 = insert s (used p)" "slots p1 = slots p" "inv p1"
    using alloc_free_slot [OF Suc.prems(1) room s] by auto
  have "slots p1 - used p1 = (slots p - used p) - {s}" using s1 by auto
  moreover have "finite (slots p - used p)" using slots_finite [OF Suc.prems(1)] by blast
  ultimately have "n \<le> card (slots p1 - used p1)"
    using Suc.prems(2) s1(1) by simp
  from Suc.IH [OF s1(4) this rs(1)] s1 rs(2) show ?case by auto
qed simp

end

section \<open>Bounded queues\<close>

text \<open>A run of a queue: insertions with their outcome and removals with what they deliver.\<close>

datatype 'a queue_op = Put 'a | Get

datatype 'a queue_out = PutDone | PutRefused | Got 'a | Empty

fun run_queue :: "('q \<Rightarrow> 'a \<Rightarrow> 'q option) \<Rightarrow> ('q \<Rightarrow> ('a \<times> 'q) option) \<Rightarrow> 'q \<Rightarrow> 'a queue_op list
    \<Rightarrow> 'a queue_out list \<times> 'q" where
  "run_queue put get q [] = ([], q)"
| "run_queue put get q (Put x # ops) =
     (case put q x of
        None \<Rightarrow> let (os, q') = run_queue put get q ops in (PutRefused # os, q')
      | Some q1 \<Rightarrow> let (os, q') = run_queue put get q1 ops in (PutDone # os, q'))"
| "run_queue put get q (Get # ops) =
     (case get q of
        None \<Rightarrow> let (os, q') = run_queue put get q ops in (Empty # os, q')
      | Some (x, q1) \<Rightarrow> let (os, q') = run_queue put get q1 ops in (Got x # os, q'))"

text \<open>The abstract queue: a list with a capacity.\<close>

definition fifo_put :: "nat \<Rightarrow> 'a list \<Rightarrow> 'a \<Rightarrow> 'a list option" where
  "fifo_put cap xs x = (if length xs < cap then Some (xs @ [x]) else None)"

definition fifo_get :: "'a list \<Rightarrow> ('a \<times> 'a list) option" where
  "fifo_get xs = (case xs of [] \<Rightarrow> None | x # r \<Rightarrow> Some (x, r))"

locale bounded_fifo =
  fixes put :: "'q \<Rightarrow> 'a \<Rightarrow> 'q option"
    and get :: "'q \<Rightarrow> ('a \<times> 'q) option"
    and elems :: "'q \<Rightarrow> 'a list"
    and inv :: "'q \<Rightarrow> bool"
    and cap :: nat
  assumes put_abs: "inv q \<Longrightarrow> map_option elems (put q x) = fifo_put cap (elems q) x"
    and get_abs: "inv q \<Longrightarrow> map_option (\<lambda>(x, q'). (x, elems q')) (get q) = fifo_get (elems q)"
    and put_inv: "inv q \<Longrightarrow> put q x = Some q' \<Longrightarrow> inv q'"
    and get_inv: "inv q \<Longrightarrow> get q = Some (x, q') \<Longrightarrow> inv q'"
begin

lemma put_SomeD: "inv q \<Longrightarrow> put q x = Some q' \<Longrightarrow> elems q' = elems q @ [x] \<and> length (elems q) < cap"
  using put_abs [of q x] by (auto simp: fifo_put_def split: if_splits)

lemma put_NoneD: "inv q \<Longrightarrow> put q x = None \<Longrightarrow> cap \<le> length (elems q)"
  using put_abs [of q x] by (auto simp: fifo_put_def split: if_splits)

lemma get_SomeD: "inv q \<Longrightarrow> get q = Some (x, q') \<Longrightarrow> elems q = x # elems q'"
  using get_abs [of q] by (auto simp: fifo_get_def split: list.splits)

lemma get_NoneD: "inv q \<Longrightarrow> get q = None \<Longrightarrow> elems q = []"
  using get_abs [of q] by (auto simp: fifo_get_def split: list.splits)

text \<open>Every run of the queue is a run of the abstract queue.\<close>

lemma run_refines:
  "inv q \<Longrightarrow> run_queue put get q ops = (os, q') \<Longrightarrow>
     run_queue (fifo_put cap) fifo_get (elems q) ops = (os, elems q') \<and> inv q'"
proof (induction ops arbitrary: q os)
  case (Cons op ops)
  show ?case
  proof (cases op)
    case (Put x)
    show ?thesis
    proof (cases "put q x")
      case None
      with put_abs [of q x] Cons.prems(1) have "fifo_put cap (elems q) x = None" by simp
      with None Put Cons show ?thesis by (auto split: prod.splits)
    next
      case (Some q1)
      with put_abs [of q x] Cons.prems(1) have "fifo_put cap (elems q) x = Some (elems q1)" by simp
      with Some Put Cons put_inv [of q x q1] show ?thesis by (auto split: prod.splits)
    qed
  next
    case Get
    show ?thesis
    proof (cases "get q")
      case None
      with get_abs [of q] Cons.prems(1) have "fifo_get (elems q) = None" by simp
      with None Get Cons show ?thesis by (auto split: prod.splits)
    next
      case (Some xq)
      obtain x q1 where xq: "xq = (x, q1)" by (rule prod.exhaust)
      with Some get_abs [of q] Cons.prems(1) have "fifo_get (elems q) = Some (x, elems q1)" by simp
      with Some xq Get Cons get_inv [of q x q1] show ?thesis by (auto split: prod.splits)
    qed
  qed
qed simp

end

text \<open>The abstract queue never loses, invents or reorders: what was delivered followed by what is
  still queued is what was there followed by what was accepted.\<close>

fun accepted :: "'a queue_op list \<Rightarrow> 'a queue_out list \<Rightarrow> 'a list" where
  "accepted (Put x # ops) (PutDone # os) = x # accepted ops os"
| "accepted (_ # ops) (_ # os) = accepted ops os"
| "accepted _ _ = []"

fun delivered :: "'a queue_out list \<Rightarrow> 'a list" where
  "delivered [] = []"
| "delivered (Got x # os) = x # delivered os"
| "delivered (_ # os) = delivered os"

lemma fifo_conservation:
  "run_queue (fifo_put cap) fifo_get xs ops = (os, ys) \<Longrightarrow> delivered os @ ys = xs @ accepted ops os"
proof (induction ops arbitrary: xs os)
  case (Cons op ops)
  show ?case
  proof (cases op)
    case (Put x)
    with Cons.prems Cons.IH show ?thesis
      by (auto simp: fifo_put_def split: if_splits prod.splits)
  next
    case Get
    with Cons.prems Cons.IH show ?thesis
      by (cases xs) (auto simp: fifo_get_def split: prod.splits)
  qed
qed simp

end
