(* ===== verification/Buffer_Pool.thy ===== *)
theory Buffer_Pool
  imports Interfaces
begin

text \<open>
  The buffer pools of \<open>common/dpumesh.c\<close>: a shared memory object with one bitmap byte per slot
  followed by the slots. A \<open>buffer_pool\<close> is the handle of the C code together with the memory it
  maps. Each operation runs under the exclusive \<open>flock\<close> of the pool and is one atomic step here; the
  memory of a pool is only touched through a handle that \<open>bp_init\<close> has mapped.
\<close>

definition DPUMESH_SLOT_SIZE :: nat where "DPUMESH_SLOT_SIZE = 1024 * 1024"
definition DPUMESH_NUM_SLOTS :: nat where "DPUMESH_NUM_SLOTS = 64"

record buffer_pool =
  bp_name :: string
  bp_shm_path :: string
  bp_lock_path :: string
  bp_num_slots :: nat
  bp_slot_size :: nat
  bp_total_size :: nat
  bp_shm_fd :: int
  bp_mapped :: bool
  bp_bitmap :: "8 word list"
  bp_data :: "char list"

section \<open>Life cycle\<close>

text \<open>The shared memory objects of \<open>/dev/shm\<close> that hold pools (bitmap and data), and what the system
  calls of \<open>bp_init\<close> return.\<close>

type_synonym shm_pools = "string \<Rightarrow> (8 word list \<times> char list) option"

record bp_env =
  be_create_fd :: int
  be_truncate_ok :: bool
  be_create_map_ok :: bool
  be_open_fd :: int
  be_map_ok :: bool

definition bp_handle :: "string \<Rightarrow> string \<Rightarrow> buffer_pool" where
  "bp_handle pfx name =
     (let path = fst (snprintf 256 (''/dev/shm/'' @ pfx @ ''_'' @ name))
      in \<lparr>bp_name = fst (snprintf 128 name), bp_shm_path = path,
          bp_lock_path = fst (snprintf 256 (path @ ''.lock'')),
          bp_num_slots = DPUMESH_NUM_SLOTS, bp_slot_size = DPUMESH_SLOT_SIZE,
          bp_total_size = DPUMESH_NUM_SLOTS + DPUMESH_NUM_SLOTS * DPUMESH_SLOT_SIZE,
          bp_shm_fd = -1, bp_mapped = False, bp_bitmap = [], bp_data = []\<rparr>)"

text \<open>The creation: \<open>ftruncate\<close> fills a new object with zeros and keeps the data of an existing one,
  and the bitmap is cleared in either case. \<open>None\<close> is the return of -1.\<close>

definition bp_create :: "bp_env \<Rightarrow> shm_pools \<Rightarrow> string \<Rightarrow> shm_pools option" where
  "bp_create env shm path =
     (if be_create_fd env < 0 \<or> \<not> be_truncate_ok env \<or> \<not> be_create_map_ok env then None
      else Some (shm(path \<mapsto>
        (replicate DPUMESH_NUM_SLOTS 0,
         (case shm path of
            None \<Rightarrow> replicate (DPUMESH_NUM_SLOTS * DPUMESH_SLOT_SIZE) NUL
          | Some (_, d) \<Rightarrow> d)))))"

text \<open>The rest of \<open>bp_init\<close>: opening and mapping the object.\<close>

definition bp_open :: "bp_env \<Rightarrow> shm_pools \<Rightarrow> buffer_pool \<Rightarrow> int \<times> buffer_pool" where
  "bp_open env shm bp =
     (case shm (bp_shm_path bp) of
        None \<Rightarrow> (-1, bp)
      | Some (bm, d) \<Rightarrow>
          if be_open_fd env < 0 then (-1, bp)
          else if \<not> be_map_ok env then (-1, bp)
          else (0, bp\<lparr>bp_shm_fd := be_open_fd env, bp_mapped := True, bp_bitmap := bm, bp_data := d\<rparr>))"

definition bp_init :: "string option \<Rightarrow> bp_env \<Rightarrow> shm_pools \<Rightarrow> string \<Rightarrow> bool
    \<Rightarrow> int \<times> buffer_pool \<times> shm_pools" where
  "bp_init pfx env shm name create =
     (let bp = bp_handle (shm_prefix pfx) name
      in case (if create then bp_create env shm (bp_shm_path bp) else Some shm) of
           None \<Rightarrow> (-1, bp, shm)
         | Some shm' \<Rightarrow> let (rc, bp') = bp_open env shm' bp in (rc, bp', shm'))"

section \<open>Allocation\<close>

text \<open>The loop of \<open>bp_alloc\<close>: the first slot whose bitmap byte is zero.\<close>

fun first_zero :: "8 word list \<Rightarrow> nat option" where
  "first_zero [] = None"
| "first_zero (b # bs) = (if b = 0 then Some 0 else map_option Suc (first_zero bs))"

definition bp_alloc :: "buffer_pool \<Rightarrow> int \<times> buffer_pool" where
  "bp_alloc bp =
     (case first_zero (take (bp_num_slots bp) (bp_bitmap bp)) of
        None \<Rightarrow> (-1, bp)
      | Some i \<Rightarrow> (int i, bp\<lparr>bp_bitmap := (bp_bitmap bp)[i := 1]\<rparr>))"

definition bp_free :: "buffer_pool \<Rightarrow> int \<Rightarrow> buffer_pool" where
  "bp_free bp slot =
     (if slot < 0 \<or> slot \<ge> int (bp_num_slots bp) then bp
      else bp\<lparr>bp_bitmap := (bp_bitmap bp)[nat slot := 0]\<rparr>)"

section \<open>Slot contents\<close>

text \<open>\<open>memcpy\<close> into a byte array at an offset.\<close>

definition mem_write :: "char list \<Rightarrow> nat \<Rightarrow> char list \<Rightarrow> char list" where
  "mem_write m off bs = take off m @ bs @ drop (off + length bs) m"

text \<open>\<open>bp_write\<close> of the first \<open>len\<close> bytes of an array: the size check converts \<open>len\<close> to \<open>int\<close>. The
  outcome is \<open>None\<close> when the copy reads past the source or writes past the mapping.\<close>

definition bp_write :: "buffer_pool \<Rightarrow> int \<Rightarrow> char list \<Rightarrow> nat \<Rightarrow> (int \<times> buffer_pool) option" where
  "bp_write bp slot src len =
     (if slot < 0 \<or> slot \<ge> int (bp_num_slots bp) then Some (-1, bp)
      else if i32 (int len) > int (bp_slot_size bp) then Some (-1, bp)
      else
        let off = nat slot * bp_slot_size bp
        in if length src < len \<or> length (bp_data bp) < off + len then None
           else Some (i32 (int len), bp\<lparr>bp_data := mem_write (bp_data bp) off (take len src)\<rparr>))"

text \<open>\<open>bp_read\<close>: the returned length and the bytes copied to the caller.\<close>

definition bp_read :: "buffer_pool \<Rightarrow> int \<Rightarrow> nat \<Rightarrow> (int \<times> char list) option" where
  "bp_read bp slot maxlen =
     (if slot < 0 \<or> slot \<ge> int (bp_num_slots bp) then Some (0, [])
      else
        let off = nat slot * bp_slot_size bp;
            rlen = (if maxlen < bp_slot_size bp then maxlen else bp_slot_size bp)
        in if length (bp_data bp) < off + rlen then None
           else Some (i32 (int rlen), take rlen (drop off (bp_data bp))))"

section \<open>Invariant and abstraction\<close>

text \<open>The sizes of a mapped pool.\<close>

definition bp_inv :: "buffer_pool \<Rightarrow> bool" where
  "bp_inv bp \<longleftrightarrow> length (bp_bitmap bp) = bp_num_slots bp
     \<and> length (bp_data bp) = bp_num_slots bp * bp_slot_size bp \<and> bp_slot_size bp < 2 ^ 31"

definition bp_used :: "buffer_pool \<Rightarrow> int set" where
  "bp_used bp = {int i |i. i < length (bp_bitmap bp) \<and> bp_bitmap bp ! i \<noteq> 0}"

definition bp_slots :: "buffer_pool \<Rightarrow> int set" where
  "bp_slots bp = {0 ..< int (bp_num_slots bp)}"

lemma first_zero_Some:
  "first_zero bs = Some i \<Longrightarrow> i < length bs \<and> bs ! i = 0 \<and> (\<forall>j < i. bs ! j \<noteq> 0)"
proof (induction bs arbitrary: i)
  case (Cons b bs)
  show ?case
  proof (cases "b = 0")
    case False
    with Cons.prems obtain i' where i: "i = Suc i'" "first_zero bs = Some i'" by auto
    with False Cons.IH [of i'] show ?thesis by (auto simp: less_Suc_eq_0_disj)
  qed (use Cons.prems in auto)
qed simp

lemma first_zero_None: "first_zero bs = None \<longleftrightarrow> (\<forall>b \<in> set bs. b \<noteq> 0)"
  by (induction bs) auto

lemma bp_alloc_slot:
  assumes "bp_inv bp" and "bp_alloc bp = (s, bp')" and "bp_used bp \<noteq> bp_slots bp"
  shows "s \<in> bp_slots bp - bp_used bp \<and> bp_used bp' = insert s (bp_used bp)
    \<and> bp_slots bp' = bp_slots bp \<and> bp_inv bp'"
proof -
  have len: "length (bp_bitmap bp) = bp_num_slots bp" using assms(1) by (simp add: bp_inv_def)
  obtain i where i: "first_zero (bp_bitmap bp) = Some i"
  proof (cases "first_zero (bp_bitmap bp)")
    case None
    then have "bp_bitmap bp ! j \<noteq> 0" if "j < bp_num_slots bp" for j
      using len that nth_mem by (fastforce simp: first_zero_None)
    then have "bp_used bp = bp_slots bp"
      using len by (auto simp: bp_used_def bp_slots_def) (metis nat_less_iff int_nat_eq)
    with assms(3) show ?thesis by simp
  qed (use that in blast)
  from first_zero_Some [OF i] have "i < length (bp_bitmap bp)" "bp_bitmap bp ! i = 0" by auto
  moreover have "s = int i" "bp' = bp\<lparr>bp_bitmap := (bp_bitmap bp)[i := 1]\<rparr>"
    using assms(2) i len by (auto simp: bp_alloc_def)
  ultimately show ?thesis
    using assms(1) len by (auto simp: bp_used_def bp_slots_def bp_inv_def nth_list_update split: if_splits)
qed

lemma bp_alloc_full: "bp_inv bp \<Longrightarrow> bp_used bp = bp_slots bp \<Longrightarrow> bp_alloc bp = (-1, bp)"
proof -
  assume inv: "bp_inv bp" and full: "bp_used bp = bp_slots bp"
  have "bp_bitmap bp ! i \<noteq> 0" if "i < length (bp_bitmap bp)" for i
  proof -
    have "int i \<in> bp_used bp" using that inv full by (simp add: bp_slots_def bp_inv_def)
    then show ?thesis by (auto simp: bp_used_def)
  qed
  then have "first_zero (bp_bitmap bp) = None"
    by (auto simp: first_zero_None in_set_conv_nth)
  with inv show ?thesis by (simp add: bp_alloc_def bp_inv_def)
qed

text \<open>The pools keep the contract of a slot allocator.\<close>

interpretation pool: slot_allocator bp_alloc bp_free bp_used bp_slots bp_inv
proof (unfold_locales, goal_cases)
  case (1 p)
  then show ?case by (auto simp: bp_used_def bp_slots_def bp_inv_def)
next
  case (2 p)
  then show ?case by (simp add: bp_slots_def)
next
  case (3 s p)
  then show ?case by (simp add: bp_slots_def)
next
  case (4 p)
  then show ?case by (rule bp_alloc_full)
next
  case (5 p s p')
  then show ?case by (intro bp_alloc_slot)
next
  case (6 p s)
  then show ?case
    by (auto simp: bp_used_def bp_free_def bp_inv_def nth_list_update split: if_splits)
next
  case (7 p s)
  then show ?case by (simp add: bp_slots_def bp_free_def)
next
  case (8 p s)
  then show ?case by (simp add: bp_inv_def bp_free_def)
qed

section \<open>Lemmas on slot contents\<close>

lemma length_mem_write [simp]: "off + length bs \<le> length m \<Longrightarrow> length (mem_write m off bs) = length m"
  by (simp add: mem_write_def)

lemma mem_write_same: "off + length bs \<le> length m \<Longrightarrow> take (length bs) (drop off (mem_write m off bs)) = bs"
  by (simp add: mem_write_def)

lemma mem_write_other:
  assumes "off + length bs \<le> length m" and "off' + n \<le> off \<or> off + length bs \<le> off'"
  shows "take n (drop off' (mem_write m off bs)) = take n (drop off' m)"
proof (rule nth_equalityI)
  show "length (take n (drop off' (mem_write m off bs))) = length (take n (drop off' m))"
    using assms(1) by simp
next
  fix i assume i: "i < length (take n (drop off' (mem_write m off bs)))"
  with assms show "take n (drop off' (mem_write m off bs)) ! i = take n (drop off' m) ! i"
    by (auto simp: mem_write_def nth_append)
qed

lemma slot_offset_bound:
  assumes "bp_inv bp" and "0 \<le> slot" and "slot < int (bp_num_slots bp)" and "len \<le> bp_slot_size bp"
  shows "nat slot * bp_slot_size bp + len \<le> length (bp_data bp)"
proof -
  have "nat slot * bp_slot_size bp + bp_slot_size bp = Suc (nat slot) * bp_slot_size bp" by simp
  also have "\<dots> \<le> bp_num_slots bp * bp_slot_size bp"
    using assms(2,3) by (intro mult_le_mono1) auto
  finally show ?thesis using assms(1,4) by (simp add: bp_inv_def)
qed

lemma slot_offsets_disjoint:
  assumes "0 \<le> s" and "0 \<le> t" and "s \<noteq> t" and "n \<le> sz" and "len \<le> sz"
  shows "nat t * sz + n \<le> nat s * sz \<or> nat s * sz + len \<le> nat t * sz"
proof (cases "nat t < nat s")
  case True
  then have "Suc (nat t) * sz \<le> nat s * sz" by (intro mult_le_mono1 Suc_leI)
  with assms(4) show ?thesis by simp
next
  case False
  with assms(1-3) have "nat s < nat t" by linarith
  then have "Suc (nat s) * sz \<le> nat t * sz" by (intro mult_le_mono1 Suc_leI)
  with assms(5) show ?thesis by simp
qed

lemma bp_write_Some:
  assumes "bp_inv bp" and "0 \<le> slot" and "slot < int (bp_num_slots bp)" and "len \<le> bp_slot_size bp"
    and "len \<le> length src"
  shows "bp_write bp slot src len =
    Some (int len, bp\<lparr>bp_data := mem_write (bp_data bp) (nat slot * bp_slot_size bp) (take len src)\<rparr>)"
proof -
  have "in_i32 (int len)" using assms(1,4) by (simp add: bp_inv_def in_i32_def)
  then show ?thesis
    using assms slot_offset_bound [OF assms(1-4)] by (simp add: bp_write_def Let_def not_less)
qed

lemma bp_read_Some:
  assumes "bp_inv bp" and "0 \<le> slot" and "slot < int (bp_num_slots bp)" and "n \<le> bp_slot_size bp"
  shows "bp_read bp slot n = Some (int n, take n (drop (nat slot * bp_slot_size bp) (bp_data bp)))"
proof -
  have "in_i32 (int n)" using assms(1,4) by (simp add: bp_inv_def in_i32_def)
  then show ?thesis
    using assms slot_offset_bound [OF assms(1-4)]
    by (cases "n = bp_slot_size bp") (simp_all add: bp_read_def Let_def not_less)
qed

lemma bp_write_bitmap: "bp_write bp slot src len = Some (r, bp') \<Longrightarrow> bp_bitmap bp' = bp_bitmap bp
    \<and> bp_num_slots bp' = bp_num_slots bp \<and> bp_slot_size bp' = bp_slot_size bp"
  by (auto simp: bp_write_def Let_def split: if_splits)

lemma bp_write_inv: "bp_inv bp \<Longrightarrow> bp_write bp slot src len = Some (r, bp') \<Longrightarrow>
    bp_inv bp' \<and> bp_used bp' = bp_used bp \<and> bp_slots bp' = bp_slots bp"
  by (auto simp: bp_write_def Let_def bp_inv_def bp_used_def bp_slots_def split: if_splits)

text \<open>What a write does to its slot and to the others.\<close>

lemma bp_write_slot:
  assumes "bp_inv bp" and "0 \<le> slot" and "slot < int (bp_num_slots bp)" and "len \<le> bp_slot_size bp"
    and "len \<le> length src"
  shows "\<exists>bp'. bp_write bp slot src len = Some (int len, bp') \<and> bp_inv bp'
    \<and> bp_read bp' slot len = Some (int len, take len src)
    \<and> (\<forall>slot' n. slot' \<noteq> slot \<longrightarrow> bp_read bp' slot' n = bp_read bp slot' n)"
proof -
  let ?off = "nat slot * bp_slot_size bp"
  let ?bp = "bp\<lparr>bp_data := mem_write (bp_data bp) ?off (take len src)\<rparr>"
  have w: "bp_write bp slot src len = Some (int len, ?bp)" by (rule bp_write_Some [OF assms])
  have inv: "bp_inv ?bp" using bp_write_inv [OF assms(1) w] by blast
  have b: "?off + length (take len src) \<le> length (bp_data bp)"
    using slot_offset_bound [OF assms(1-4)] assms(5) by simp
  have "bp_read ?bp slot len = Some (int len, take len src)"
    using bp_read_Some [OF inv, of slot len] mem_write_same [OF b] assms by simp
  moreover have "bp_read ?bp slot' n = bp_read bp slot' n" if "slot' \<noteq> slot" for slot' n
  proof (cases "0 \<le> slot'")
    case True
    let ?n = "if n < bp_slot_size bp then n else bp_slot_size bp"
    have "nat slot' * bp_slot_size bp + ?n \<le> ?off
        \<or> ?off + length (take len src) \<le> nat slot' * bp_slot_size bp"
      using assms True that by (intro slot_offsets_disjoint) auto
    from mem_write_other [OF b this] b show ?thesis
      by (cases "n < bp_slot_size bp") (simp_all add: bp_read_def Let_def)
  qed (simp add: bp_read_def)
  ultimately show ?thesis using w inv by blast
qed

section \<open>Properties\<close>

text \<open>C18. Allocations never hand out a slot twice: \<open>n\<close> allocations from a pool with at least \<open>n\<close> free
  slots return \<open>n\<close> different slots that were free, and exactly these become used.\<close>

theorem bp_alloc_distinct:
  assumes "bp_inv bp" and "n \<le> card (bp_slots bp - bp_used bp)" and "alloc_many bp_alloc n bp = (ss, bp')"
  shows "distinct ss \<and> length ss = n \<and> set ss \<subseteq> bp_slots bp - bp_used bp
    \<and> bp_used bp' = bp_used bp \<union> set ss"
  using pool.alloc_many_distinct [OF assms] by blast

definition demo_pool :: buffer_pool where
  "demo_pool = \<lparr>bp_name = ''p'', bp_shm_path = ''/dev/shm/p'', bp_lock_path = ''/dev/shm/p.lock'',
     bp_num_slots = 3, bp_slot_size = 4, bp_total_size = 15, bp_shm_fd = 5, bp_mapped = True,
     bp_bitmap = [0, 1, 0], bp_data = replicate 12 NUL\<rparr>"

lemma demo_pool_inv: "bp_inv demo_pool"
  by (simp add: bp_inv_def demo_pool_def)

lemma demo_pool_free: "bp_slots demo_pool - bp_used demo_pool = {0, 2}"
proof -
  have "i < Suc (Suc (Suc 0)) \<and> [0, 1, 0 :: 8 word] ! i \<noteq> 0 \<longleftrightarrow> i = 1" for i
    by (cases i; cases "i - 1"; cases "i - 2") auto
  then have "bp_used demo_pool = {1}" by (simp add: bp_used_def demo_pool_def)
  moreover have "bp_slots demo_pool = {0 ..< 3}" by (simp add: bp_slots_def demo_pool_def)
  moreover have "{0 ..< 3} - {1 :: int} = {0, 2}" by auto
  ultimately show ?thesis by simp
qed

theorem bp_alloc_distinct_witness:
  "alloc_many bp_alloc 2 demo_pool = ([0, 2], demo_pool\<lparr>bp_bitmap := [1, 1, 1]\<rparr>)
     \<and> bp_used (demo_pool\<lparr>bp_bitmap := [1, 1, 1]\<rparr>) = bp_used demo_pool \<union> {0, 2}"
proof -
  have "alloc_many bp_alloc 2 demo_pool = ([0, 2], demo_pool\<lparr>bp_bitmap := [1, 1, 1]\<rparr>)"
    by (simp add: demo_pool_def numeral_2_eq_2 bp_alloc_def)
  with bp_alloc_distinct [OF demo_pool_inv _ this] show ?thesis by (simp add: demo_pool_free)
qed

text \<open>Writing at most a slot's size into a slot of the pool succeeds, reading the slot returns what
  was written, and every other slot keeps its contents.\<close>

theorem bp_write_read:
  assumes "bp_inv bp" and "0 \<le> slot" and "slot < int (bp_num_slots bp)" and "len \<le> bp_slot_size bp"
    and "len \<le> length src"
  shows "\<exists>bp'. bp_write bp slot src len = Some (int len, bp') \<and> bp_inv bp'
    \<and> bp_read bp' slot len = Some (int len, take len src)
    \<and> (\<forall>slot' n. slot' \<noteq> slot \<longrightarrow> bp_read bp' slot' n = bp_read bp slot' n)"
  by (rule bp_write_slot [OF assms])

theorem bp_write_read_witness:
  "\<exists>bp'. bp_write demo_pool 1 ''ab'' 2 = Some (2, bp') \<and> bp_read bp' 1 2 = Some (2, ''ab'')"
  using bp_write_read [OF demo_pool_inv, of 1 2 "''ab''"] by (auto simp: demo_pool_def)

text \<open>The size check of a write converts the length to \<open>int\<close>: a length just above 2^32 passes it
  and the copy runs past the mapping.\<close>

theorem bp_write_length_wraps:
  assumes "bp_inv bp" and "0 \<le> slot" and "slot < int (bp_num_slots bp)" and "k \<le> bp_slot_size bp"
    and "length (bp_data bp) < 2 ^ 32"
  shows "bp_write bp slot src (2 ^ 32 + k) = None"
proof -
  have "i32 (int (2 ^ 32 + k)) = i32 (int k)" using i32_wrap [of "int k"] by (simp add: add.commute)
  moreover have "in_i32 (int k)" using assms(1,4) by (simp add: bp_inv_def in_i32_def)
  ultimately have "i32 (int (2 ^ 32 + k)) = int k" by simp
  with assms show ?thesis by (simp add: bp_write_def Let_def)
qed

theorem bp_write_length_wraps_witness: "bp_write demo_pool 0 [] (2 ^ 32 + 1) = None"
  by (rule bp_write_length_wraps [OF demo_pool_inv]) (simp_all add: demo_pool_def)

text \<open>Initialising a pool that another worker of the service already uses marks all its slots
  free, though their contents are kept: slots in use can be handed out again.\<close>

theorem bp_init_clears_bitmap:
  assumes "shm (bp_shm_path (bp_handle (shm_prefix pfx) name)) = Some (bm, d)"
    and "0 \<le> be_create_fd env" and "be_truncate_ok env" and "be_create_map_ok env"
    and "0 \<le> be_open_fd env" and "be_map_ok env"
  shows "\<exists>bp shm'. bp_init pfx env shm name True = (0, bp, shm') \<and> bp_used bp = {} \<and> bp_data bp = d
    \<and> shm' (bp_shm_path bp) = Some (replicate DPUMESH_NUM_SLOTS 0, d)"
  using assms by (auto simp: bp_init_def bp_create_def bp_open_def Let_def bp_used_def)

definition ok_bp_env :: bp_env where
  "ok_bp_env = \<lparr>be_create_fd = 3, be_truncate_ok = True, be_create_map_ok = True, be_open_fd = 4,
     be_map_ok = True\<rparr>"

theorem bp_init_clears_bitmap_witness:
  "\<exists>bp shm'. bp_init None ok_bp_env (\<lambda>_. Some ([1, 1], ''xy'')) ''frontend_tx_body'' True = (0, bp, shm')
    \<and> bp_used bp = {} \<and> bp_data bp = ''xy''"
  using bp_init_clears_bitmap [of "\<lambda>_. Some ([1, 1], ''xy'')" None "''frontend_tx_body''" "[1, 1]" "''xy''" ok_bp_env]
  by (auto simp: ok_bp_env_def)

end
