(* ===== verification/Desc_Ring.thy ===== *)
theory Desc_Ring
  imports Interfaces
begin

text \<open>
  The descriptors and descriptor rings of \<open>common/dpumesh.c\<close> and \<open>common/dpumesh.h\<close>.

  The fields of \<open>sw_descriptor_t\<close> keep their widths; a signed field is read with \<open>sint\<close>. A ring is
  the three counters of its header and its descriptor cells, all in shared memory, so nothing is
  known of them beyond what the invariant states. The offset of a cell is computed in 32 bit
  arithmetic, as in the code, and a copy outside the mapping is \<open>None\<close>. The operations run under the
  exclusive \<open>flock\<close> of the ring and are atomic steps here.
\<close>

unbundle bit_operations_syntax

definition DPUMESH_MAX_DESCRIPTORS :: nat where "DPUMESH_MAX_DESCRIPTORS = 512"
definition DPUMESH_DESCRIPTOR_SIZE :: nat where "DPUMESH_DESCRIPTOR_SIZE = 64"

record sw_descriptor =
  header_buf_slot :: "32 word"
  header_len :: "32 word"
  body_buf_slot :: "32 word"
  body_len :: "32 word"
  req_id :: "32 word"
  step_id :: "32 word"
  dst_pod_id :: "32 word"
  src_pod_id :: "32 word"
  flags :: "8 word"
  valid :: "8 word"
  src_body_pool_type :: "8 word"
  src_header_pool_type :: "8 word"
  src_body_pod_id :: "32 word"
  src_header_pod_id :: "32 word"
  src_body_buf_slot :: "32 word"
  src_header_buf_slot :: "32 word"

text \<open>The descriptor of all zero bytes.\<close>

definition zero_descriptor :: sw_descriptor where
  "zero_descriptor = \<lparr>header_buf_slot = 0, header_len = 0, body_buf_slot = 0, body_len = 0, req_id = 0,
     step_id = 0, dst_pod_id = 0, src_pod_id = 0, flags = 0, valid = 0, src_body_pool_type = 0,
     src_header_pool_type = 0, src_body_pod_id = 0, src_header_pod_id = 0, src_body_buf_slot = 0,
     src_header_buf_slot = 0\<rparr>"

section \<open>Layout\<close>

text \<open>The packed little endian layout of the 64 bytes: \<open><iIiIIIiibbBBiiii12x\<close>.\<close>

definition le32 :: "32 word \<Rightarrow> 8 word list" where
  "le32 w = [ucast w, ucast (drop_bit 8 w), ucast (drop_bit 16 w), ucast (drop_bit 24 w)]"

definition of_le32 :: "8 word list \<Rightarrow> 32 word" where
  "of_le32 bs = ucast (bs ! 0) OR push_bit 8 (ucast (bs ! 1)) OR push_bit 16 (ucast (bs ! 2))
     OR push_bit 24 (ucast (bs ! 3))"

definition encode_descriptor :: "sw_descriptor \<Rightarrow> 8 word list" where
  "encode_descriptor d =
     le32 (header_buf_slot d) @ le32 (header_len d) @ le32 (body_buf_slot d) @ le32 (body_len d)
     @ le32 (req_id d) @ le32 (step_id d) @ le32 (dst_pod_id d) @ le32 (src_pod_id d)
     @ [flags d, valid d, src_body_pool_type d, src_header_pool_type d]
     @ le32 (src_body_pod_id d) @ le32 (src_header_pod_id d) @ le32 (src_body_buf_slot d)
     @ le32 (src_header_buf_slot d) @ replicate 12 0"

definition decode_descriptor :: "8 word list \<Rightarrow> sw_descriptor" where
  "decode_descriptor bs =
     \<lparr>header_buf_slot = of_le32 bs, header_len = of_le32 (drop 4 bs),
      body_buf_slot = of_le32 (drop 8 bs), body_len = of_le32 (drop 12 bs),
      req_id = of_le32 (drop 16 bs), step_id = of_le32 (drop 20 bs),
      dst_pod_id = of_le32 (drop 24 bs), src_pod_id = of_le32 (drop 28 bs),
      flags = bs ! 32, valid = bs ! 33, src_body_pool_type = bs ! 34, src_header_pool_type = bs ! 35,
      src_body_pod_id = of_le32 (drop 36 bs), src_header_pod_id = of_le32 (drop 40 bs),
      src_body_buf_slot = of_le32 (drop 44 bs), src_header_buf_slot = of_le32 (drop 48 bs)\<rparr>"

section \<open>Rings\<close>

record desc_ring =
  dr_max_descs :: nat
  dr_head :: "32 word"
  dr_tail :: "32 word"
  dr_count :: "32 word"
  dr_descs :: "sw_descriptor list"

text \<open>What \<open>dr_init\<close> with creation leaves in the object: the header is zeroed, the cells keep what they
  held.\<close>

definition dr_reset :: "sw_descriptor list \<Rightarrow> desc_ring" where
  "dr_reset cells = \<lparr>dr_max_descs = DPUMESH_MAX_DESCRIPTORS, dr_head = 0, dr_tail = 0, dr_count = 0,
     dr_descs = cells\<rparr>"

text \<open>\<open>dr_init\<close>: the ring objects by path, and the outcomes of the system calls (\<open>open\<close>, \<open>ftruncate\<close>
  and \<open>mmap\<close> of the creation, then \<open>open\<close> and \<open>mmap\<close>). The returned ring is what the handle maps.\<close>

type_synonym shm_rings = "string \<Rightarrow> desc_ring option"

record dr_env =
  de_create_fd :: int
  de_truncate_ok :: bool
  de_create_map_ok :: bool
  de_open_fd :: int
  de_map_ok :: bool

definition dr_shm_path :: "string option \<Rightarrow> string \<Rightarrow> string" where
  "dr_shm_path pfx name = fst (snprintf 256 (''/dev/shm/'' @ shm_prefix pfx @ ''_'' @ name))"

definition dr_init :: "string option \<Rightarrow> dr_env \<Rightarrow> shm_rings \<Rightarrow> string \<Rightarrow> bool
    \<Rightarrow> int \<times> desc_ring option \<times> shm_rings" where
  "dr_init pfx env shm name create =
     (let path = dr_shm_path pfx name
      in if create \<and> (de_create_fd env < 0 \<or> \<not> de_truncate_ok env \<or> \<not> de_create_map_ok env)
         then (-1, None, shm)
         else
           let shm' = (if create
                 then shm(path \<mapsto> dr_reset (case shm path of
                        None \<Rightarrow> replicate DPUMESH_MAX_DESCRIPTORS zero_descriptor
                      | Some dr \<Rightarrow> dr_descs dr))
                 else shm)
           in case shm' path of
                None \<Rightarrow> (-1, None, shm')
              | Some dr \<Rightarrow> if de_open_fd env < 0 \<or> \<not> de_map_ok env then (-1, None, shm')
                          else (0, Some dr, shm'))"

text \<open>The cell at the offset \<open>12 + index * DPUMESH_DESCRIPTOR_SIZE\<close>.\<close>

definition cell_of :: "32 word \<Rightarrow> nat" where
  "cell_of i = unat (i * of_nat DPUMESH_DESCRIPTOR_SIZE) div DPUMESH_DESCRIPTOR_SIZE"

definition dr_put :: "desc_ring \<Rightarrow> sw_descriptor \<Rightarrow> (int \<times> desc_ring) option" where
  "dr_put dr desc =
     (if dr_count dr \<ge> of_nat (dr_max_descs dr) then Some (-1, dr)
      else if length (dr_descs dr) \<le> cell_of (dr_tail dr) then None
      else Some (0, dr\<lparr>dr_descs := (dr_descs dr)[cell_of (dr_tail dr) := desc],
                       dr_tail := (dr_tail dr + 1) mod of_nat (dr_max_descs dr),
                       dr_count := dr_count dr + 1\<rparr>))"

text \<open>\<open>dr_get\<close> returns 0 with the descriptor or -1 without one.\<close>

definition dr_get :: "desc_ring \<Rightarrow> (sw_descriptor option \<times> desc_ring) option" where
  "dr_get dr =
     (if dr_count dr = 0 then Some (None, dr)
      else if length (dr_descs dr) \<le> cell_of (dr_head dr) then None
      else Some (Some (dr_descs dr ! cell_of (dr_head dr)),
                 dr\<lparr>dr_head := (dr_head dr + 1) mod of_nat (dr_max_descs dr),
                    dr_count := dr_count dr - 1\<rparr>))"

section \<open>Invariant and abstraction\<close>

definition dr_inv :: "desc_ring \<Rightarrow> bool" where
  "dr_inv dr \<longleftrightarrow>
     dr_max_descs dr = DPUMESH_MAX_DESCRIPTORS \<and> length (dr_descs dr) = DPUMESH_MAX_DESCRIPTORS
     \<and> unat (dr_head dr) < DPUMESH_MAX_DESCRIPTORS \<and> unat (dr_count dr) \<le> DPUMESH_MAX_DESCRIPTORS
     \<and> unat (dr_tail dr) = (unat (dr_head dr) + unat (dr_count dr)) mod DPUMESH_MAX_DESCRIPTORS"

text \<open>The queued descriptors, oldest first.\<close>

definition dr_list :: "desc_ring \<Rightarrow> sw_descriptor list" where
  "dr_list dr = map (\<lambda>i. dr_descs dr ! ((unat (dr_head dr) + i) mod DPUMESH_MAX_DESCRIPTORS))
     [0 ..< unat (dr_count dr)]"

text \<open>The operations as the callers see them: put fails or succeeds, get returns a descriptor or none.\<close>

definition ring_put :: "desc_ring \<Rightarrow> sw_descriptor \<Rightarrow> desc_ring option" where
  "ring_put dr desc =
     (case dr_put dr desc of Some (rc, dr') \<Rightarrow> if rc < 0 then None else Some dr' | None \<Rightarrow> None)"

definition ring_get :: "desc_ring \<Rightarrow> (sw_descriptor \<times> desc_ring) option" where
  "ring_get dr = (case dr_get dr of Some (Some d, dr') \<Rightarrow> Some (d, dr') | _ \<Rightarrow> None)"

lemma cell_of_small: "unat i < 2 ^ 26 \<Longrightarrow> cell_of i = unat i"
proof -
  assume "unat i < 2 ^ 26"
  then have "unat (i * of_nat DPUMESH_DESCRIPTOR_SIZE) = unat i * 64"
    by (simp add: unat_word_ariths DPUMESH_DESCRIPTOR_SIZE_def)
  then show ?thesis by (simp add: cell_of_def DPUMESH_DESCRIPTOR_SIZE_def)
qed

lemma unat_next: "unat i < 512 \<Longrightarrow> unat ((i + 1) mod 512 :: 32 word) = (unat i + 1) mod 512"
  by (simp add: unat_word_ariths)

lemma dr_put_full: "dr_inv dr \<Longrightarrow> unat (dr_count dr) = 512 \<Longrightarrow> dr_put dr desc = Some (-1, dr)"
  by (simp add: dr_put_def dr_inv_def DPUMESH_MAX_DESCRIPTORS_def word_le_nat_alt)

lemma dr_put_room:
  assumes "dr_inv dr" and "unat (dr_count dr) < 512"
  shows "dr_put dr desc = Some (0, dr\<lparr>dr_descs := (dr_descs dr)[unat (dr_tail dr) := desc],
    dr_tail := (dr_tail dr + 1) mod 512, dr_count := dr_count dr + 1\<rparr>)"
proof -
  have "unat (dr_tail dr) < 512" using assms(1) by (simp add: dr_inv_def DPUMESH_MAX_DESCRIPTORS_def)
  then have "cell_of (dr_tail dr) = unat (dr_tail dr)" by (intro cell_of_small) simp
  then show ?thesis
    using assms \<open>unat (dr_tail dr) < 512\<close>
    by (simp add: dr_put_def dr_inv_def DPUMESH_MAX_DESCRIPTORS_def word_le_nat_alt)
qed

lemma dr_get_empty: "dr_count dr = 0 \<Longrightarrow> dr_get dr = Some (None, dr)"
  by (simp add: dr_get_def)

lemma dr_get_nonempty:
  assumes "dr_inv dr" and "dr_count dr \<noteq> 0"
  shows "dr_get dr = Some (Some (dr_descs dr ! unat (dr_head dr)),
    dr\<lparr>dr_head := (dr_head dr + 1) mod 512, dr_count := dr_count dr - 1\<rparr>)"
proof -
  have "unat (dr_head dr) < 512" using assms(1) by (simp add: dr_inv_def DPUMESH_MAX_DESCRIPTORS_def)
  then have "cell_of (dr_head dr) = unat (dr_head dr)" by (intro cell_of_small) simp
  then show ?thesis
    using assms \<open>unat (dr_head dr) < 512\<close>
    by (simp add: dr_get_def dr_inv_def DPUMESH_MAX_DESCRIPTORS_def)
qed

lemma mod_512_neq:
  "(h + i) mod 512 \<noteq> (h + n) mod (512::nat)" if "i < n" "n < i + 512"
proof
  assume "(h + i) mod 512 = (h + n) mod 512"
  then have "(h + n - (h + i)) mod 512 = 0" using that mod_eq_dvd_iff_nat [of "h + i" "h + n" 512] by simp
  with that show False by auto
qed

lemma dr_list_put:
  assumes inv: "dr_inv dr" and room: "unat (dr_count dr) < 512"
    and dr': "dr' = dr\<lparr>dr_descs := (dr_descs dr)[unat (dr_tail dr) := desc],
      dr_tail := (dr_tail dr + 1) mod 512, dr_count := dr_count dr + 1\<rparr>"
  shows "dr_list dr' = dr_list dr @ [desc]" and "dr_inv dr'"
proof -
  let ?h = "unat (dr_head dr)" and ?n = "unat (dr_count dr)"
  have c: "unat (dr_count dr + 1) = ?n + 1" using room by (simp add: unat_word_ariths)
  have tail: "unat (dr_tail dr) = (?h + ?n) mod 512" "unat (dr_tail dr) < 512"
    using inv by (auto simp: dr_inv_def DPUMESH_MAX_DESCRIPTORS_def)
  have len: "length (dr_descs dr) = 512" using inv by (simp add: dr_inv_def DPUMESH_MAX_DESCRIPTORS_def)
  have old: "(dr_descs dr)[unat (dr_tail dr) := desc] ! ((?h + i) mod 512) = dr_descs dr ! ((?h + i) mod 512)"
    if "i < ?n" for i
    using mod_512_neq [of i ?n ?h] that room tail by simp
  show "dr_list dr' = dr_list dr @ [desc]"
    using old tail len by (simp add: dr_list_def dr' c DPUMESH_MAX_DESCRIPTORS_def)
  have "(?h + (?n + 1)) mod 512 = (unat (dr_tail dr) + 1) mod 512"
    by (simp add: tail mod_Suc_eq)
  with inv room c tail show "dr_inv dr'"
    by (simp add: dr_inv_def dr' DPUMESH_MAX_DESCRIPTORS_def unat_next)
qed

lemma dr_list_get:
  assumes inv: "dr_inv dr" and ne: "dr_count dr \<noteq> 0"
    and dr': "dr' = dr\<lparr>dr_head := (dr_head dr + 1) mod 512, dr_count := dr_count dr - 1\<rparr>"
  shows "dr_list dr = dr_descs dr ! unat (dr_head dr) # dr_list dr'" and "dr_inv dr'"
proof -
  let ?h = "unat (dr_head dr)" and ?n = "unat (dr_count dr)"
  have n: "0 < ?n" using ne by (simp add: unat_gt_0)
  then have c: "unat (dr_count dr - 1) = ?n - 1" by (simp add: unat_sub_if_size word_le_nat_alt)
  have h: "?h < 512" using inv by (simp add: dr_inv_def DPUMESH_MAX_DESCRIPTORS_def)
  have next_cell: "(Suc ?h mod 512 + i) mod 512 = Suc (?h + i) mod 512" for i by presburger
  have "[0 ..< ?n] = 0 # map Suc [0 ..< ?n - 1]"
    using n by (simp add: map_Suc_upt upt_conv_Cons)
  then show "dr_list dr = dr_descs dr ! ?h # dr_list dr'"
    using h by (simp add: dr_list_def dr' c DPUMESH_MAX_DESCRIPTORS_def unat_next next_cell comp_def)
  have "(Suc ?h mod 512 + (?n - 1)) mod 512 = (?h + ?n) mod 512" using next_cell [of "?n - 1"] n by simp
  with inv c h show "dr_inv dr'"
    by (auto simp: dr_inv_def dr' DPUMESH_MAX_DESCRIPTORS_def unat_next)
qed

text \<open>The rings keep the contract of a bounded queue.\<close>

lemma ring_put_cases:
  assumes "dr_inv dr"
  shows "ring_put dr desc = (if unat (dr_count dr) < 512
    then Some (dr\<lparr>dr_descs := (dr_descs dr)[unat (dr_tail dr) := desc],
      dr_tail := (dr_tail dr + 1) mod 512, dr_count := dr_count dr + 1\<rparr>) else None)"
proof (cases "unat (dr_count dr) < 512")
  case True
  with assms show ?thesis by (simp add: ring_put_def dr_put_room)
next
  case False
  with assms have "unat (dr_count dr) = 512" by (simp add: dr_inv_def DPUMESH_MAX_DESCRIPTORS_def)
  with assms show ?thesis by (simp add: ring_put_def dr_put_full)
qed

lemma ring_get_cases:
  assumes "dr_inv dr"
  shows "ring_get dr = (if dr_count dr = 0 then None
    else Some (dr_descs dr ! unat (dr_head dr),
      dr\<lparr>dr_head := (dr_head dr + 1) mod 512, dr_count := dr_count dr - 1\<rparr>))"
  using assms by (simp add: ring_get_def dr_get_empty dr_get_nonempty)

lemma length_dr_list: "length (dr_list dr) = unat (dr_count dr)"
  by (simp add: dr_list_def)

interpretation ring: bounded_fifo ring_put ring_get dr_list dr_inv 512
proof (unfold_locales, goal_cases)
  case (1 q x)
  then show ?case
    by (simp add: ring_put_cases fifo_put_def length_dr_list dr_list_put(1) [OF 1])
next
  case (2 q)
  then show ?case
  proof (cases "dr_count q = 0")
    case True
    then have "dr_list q = []" by (simp add: dr_list_def)
    with True 2 show ?thesis by (simp add: ring_get_cases fifo_get_def)
  next
    case False
    with 2 dr_list_get(1) [OF 2 False refl] show ?thesis by (simp add: ring_get_cases fifo_get_def)
  qed
next
  case (3 q x q')
  then show ?case by (auto simp: ring_put_cases split: if_splits intro: dr_list_put(2) [OF 3(1)])
next
  case (4 q x q')
  then show ?case by (auto simp: ring_get_cases split: if_splits intro: dr_list_get(2) [OF 4(1)])
qed

lemma ring_total:
  assumes "dr_inv dr"
  shows "(\<exists>rc dr'. dr_put dr desc = Some (rc, dr') \<and> dr_inv dr' \<and> (rc < 0 \<longleftrightarrow> length (dr_list dr) = 512)
      \<and> (rc < 0 \<longrightarrow> dr' = dr) \<and> (0 \<le> rc \<longrightarrow> dr_list dr' = dr_list dr @ [desc]))
    \<and> (\<exists>r dr'. dr_get dr = Some (r, dr') \<and> dr_inv dr' \<and> (r = None \<longleftrightarrow> dr_list dr = [])
      \<and> (r = None \<longrightarrow> dr' = dr) \<and> (\<forall>d. r = Some d \<longrightarrow> dr_list dr = d # dr_list dr'))"
proof
  show "\<exists>rc dr'. dr_put dr desc = Some (rc, dr') \<and> dr_inv dr' \<and> (rc < 0 \<longleftrightarrow> length (dr_list dr) = 512)
      \<and> (rc < 0 \<longrightarrow> dr' = dr) \<and> (0 \<le> rc \<longrightarrow> dr_list dr' = dr_list dr @ [desc])"
  proof (cases "unat (dr_count dr) < 512")
    case True
    with dr_put_room [OF assms True, of desc] dr_list_put [OF assms True refl] show ?thesis
      by (simp add: length_dr_list)
  next
    case False
    with assms have "unat (dr_count dr) = 512" by (simp add: dr_inv_def DPUMESH_MAX_DESCRIPTORS_def)
    with dr_put_full [OF assms this, of desc] assms show ?thesis by (simp add: length_dr_list)
  qed
  show "\<exists>r dr'. dr_get dr = Some (r, dr') \<and> dr_inv dr' \<and> (r = None \<longleftrightarrow> dr_list dr = [])
      \<and> (r = None \<longrightarrow> dr' = dr) \<and> (\<forall>d. r = Some d \<longrightarrow> dr_list dr = d # dr_list dr')"
  proof (cases "dr_count dr = 0")
    case True
    with assms show ?thesis by (simp add: dr_get_empty dr_list_def)
  next
    case False
    with dr_get_nonempty [OF assms False] dr_list_get [OF assms False refl] show ?thesis by simp
  qed
qed

section \<open>Properties\<close>

text \<open>C10. A freshly created ring and every run of insertions and removals on it behave as a first-in
  first-out queue of 512 descriptors: the same outcomes, and the same queued descriptors.\<close>

theorem ring_refines_fifo:
  assumes "length cells = DPUMESH_MAX_DESCRIPTORS"
    and "run_queue ring_put ring_get (dr_reset cells) ops = (os, dr)"
  shows "run_queue (fifo_put 512) fifo_get [] ops = (os, dr_list dr) \<and> dr_inv dr"
proof -
  have "dr_inv (dr_reset cells)" "dr_list (dr_reset cells) = []"
    using assms(1) by (simp_all add: dr_inv_def dr_reset_def dr_list_def DPUMESH_MAX_DESCRIPTORS_def)
  with ring.run_refines [OF _ assms(2)] show ?thesis by simp
qed

lemma run_put_get:
  "length cells = 512 \<Longrightarrow>
    run_queue ring_put ring_get (dr_reset cells) [Get, Put d, Get]
      = ([Empty, PutDone, Got d], (dr_reset (cells[0 := d]))\<lparr>dr_head := 1, dr_tail := 1\<rparr>)"
  by (simp add: ring_get_def ring_put_def dr_get_def dr_put_def dr_reset_def cell_of_def
      DPUMESH_MAX_DESCRIPTORS_def)

theorem ring_refines_fifo_witness:
  "run_queue (fifo_put 512) fifo_get [] [Get, Put zero_descriptor, Get]
     = ([Empty, PutDone, Got zero_descriptor],
        dr_list ((dr_reset ((replicate 512 zero_descriptor)[0 := zero_descriptor]))
          \<lparr>dr_head := 1, dr_tail := 1\<rparr>))"
proof -
  have l: "length (replicate 512 zero_descriptor) = 512" by simp
  have "length (replicate 512 zero_descriptor) = DPUMESH_MAX_DESCRIPTORS"
    by (simp only: l DPUMESH_MAX_DESCRIPTORS_def)
  from ring_refines_fifo [OF this run_put_get [OF l]] show ?thesis by (rule conjunct1)
qed

text \<open>On a well formed ring neither operation leaves the mapping, an insertion is refused exactly
  when 512 descriptors are queued, a removal exactly when none is, and both keep the ring well
  formed.\<close>

theorem ring_operations_total:
  assumes "dr_inv dr"
  shows "(\<exists>rc dr'. dr_put dr desc = Some (rc, dr') \<and> dr_inv dr' \<and> (rc < 0 \<longleftrightarrow> length (dr_list dr) = 512)
      \<and> (rc < 0 \<longrightarrow> dr' = dr) \<and> (0 \<le> rc \<longrightarrow> dr_list dr' = dr_list dr @ [desc]))
    \<and> (\<exists>r dr'. dr_get dr = Some (r, dr') \<and> dr_inv dr' \<and> (r = None \<longleftrightarrow> dr_list dr = [])
      \<and> (r = None \<longrightarrow> dr' = dr) \<and> (\<forall>d. r = Some d \<longrightarrow> dr_list dr = d # dr_list dr'))"
  using assms by (rule ring_total)

theorem ring_operations_total_witness:
  "\<exists>rc dr'. dr_put (dr_reset (replicate 512 zero_descriptor)) zero_descriptor = Some (rc, dr') \<and> dr_inv dr'"
proof -
  have "dr_inv (dr_reset (replicate 512 zero_descriptor))"
    by (simp add: dr_inv_def dr_reset_def DPUMESH_MAX_DESCRIPTORS_def)
  from ring_operations_total [OF this] show ?thesis by blast
qed

lemma of_le32_le32 [simp]: "of_le32 (le32 w @ r) = w"
proof (rule bit_word_eqI)
  fix n assume "n < LENGTH(32)"
  then consider "n < 8" | "8 \<le> n" "n < 16" | "16 \<le> n" "n < 24" | "24 \<le> n" "n < 32" by fastforce
  then show "bit (of_le32 (le32 w @ r)) n = bit w n"
    by cases (auto simp: of_le32_def le32_def bit_simps)
qed

lemma length_le32 [simp]: "length (le32 w) = 4"
  by (simp add: le32_def)

lemma drop_le32: "4 \<le> n \<Longrightarrow> drop n (le32 w @ r) = drop (n - 4) r"
  by simp

text \<open>A descriptor written in its packed 64 byte layout is read back unchanged.\<close>

theorem descriptor_roundtrip:
  "decode_descriptor (encode_descriptor d) = d \<and> length (encode_descriptor d) = DPUMESH_DESCRIPTOR_SIZE"
  by (cases d) (simp add: decode_descriptor_def encode_descriptor_def drop_le32 nth_append DPUMESH_DESCRIPTOR_SIZE_def)

end
