(* ===== verification/Header_Json.thy ===== *)
theory Header_Json
  imports C_Base
begin

text \<open>
  The JSON headers of the mesh messages (\<open>common/dpumesh.c\<close>): the text \<open>serialize_header\<close> prints, the
  substring searches \<open>json_get_str\<close> and \<open>json_get_int\<close> that read a field back, and
  \<open>parse_case2_body\<close>, which takes apart the combined header and body of an ingress message.

  The arguments are C strings, so the lists hold no NUL. A buffer a function leaves untouched is
  \<open>None\<close> in its result. A buffer size of 0, which no caller passes, makes the bounds wrap around
  (\<open>size_pred\<close>): the text stored is then not cut and lies outside the buffer.
\<close>

section \<open>Header text\<close>

record mesh_header =
  mh_method :: string
  mh_url :: string
  mh_path :: string
  mh_query :: string
  mh_status :: int
  mh_req_id_str :: string
  mh_source_worker :: string
  mh_dest_worker :: string

text \<open>A text in double quotes.\<close>

abbreviation quoted :: "string \<Rightarrow> string" where
  "quoted s \<equiv> DQ # s @ [DQ]"

definition header_text :: "mesh_header \<Rightarrow> string" where
  "header_text h =
     ''{'' @ quoted ''method'' @ '': '' @ quoted (mh_method h)
     @ '', '' @ quoted ''url'' @ '': '' @ quoted (mh_url h)
     @ '', '' @ quoted ''path'' @ '': '' @ quoted (mh_path h)
     @ '', '' @ quoted ''headers'' @ '': {}, ''
     @ quoted ''query_string'' @ '': '' @ quoted (mh_query h)
     @ '', '' @ quoted ''remote_addr'' @ '': '' @ quoted []
     @ '', '' @ quoted ''status_code'' @ '': '' @ show_int (mh_status h)
     @ '', '' @ quoted ''req_id_str'' @ '': '' @ quoted (mh_req_id_str h)
     @ '', '' @ quoted ''source_worker'' @ '': '' @ quoted (mh_source_worker h)
     @ '', '' @ quoted ''dest_worker'' @ '': '' @ quoted (mh_dest_worker h) @ ''}''"

text \<open>A \<open>NULL\<close> argument prints as the empty string.\<close>

definition nullable :: "string option \<Rightarrow> string" where
  "nullable s = (case s of None \<Rightarrow> [] | Some t \<Rightarrow> t)"

definition serialize_header :: "nat \<Rightarrow> string option \<Rightarrow> string option \<Rightarrow> string option \<Rightarrow> string option
    \<Rightarrow> int \<Rightarrow> string option \<Rightarrow> string option \<Rightarrow> string option \<Rightarrow> string \<times> nat" where
  "serialize_header bufsz meth url path query_string status_code req_id_str source_worker dest_worker =
     snprintf bufsz (header_text
       \<lparr>mh_method = nullable meth, mh_url = nullable url, mh_path = nullable path,
        mh_query = nullable query_string, mh_status = status_code, mh_req_id_str = nullable req_id_str,
        mh_source_worker = nullable source_worker, mh_dest_worker = nullable dest_worker\<rparr>)"

section \<open>Reading a field\<close>

definition key_pattern :: "string \<Rightarrow> string" where
  "key_pattern k = fst (snprintf 128 (quoted k @ '':''))"

definition after_key :: "string \<Rightarrow> string \<Rightarrow> string option" where
  "after_key json k =
     map_option (\<lambda>p. dropWhile (\<lambda>c. c = SPC) (drop (length (key_pattern k)) p))
       (strstr json (key_pattern k))"

definition json_get_str :: "string \<Rightarrow> string \<Rightarrow> nat \<Rightarrow> string option" where
  "json_get_str json k outsz =
     (case after_key json k of
        None \<Rightarrow> None
      | Some p \<Rightarrow>
          if p \<noteq> [] \<and> hd p = DQ then Some (take (size_pred outsz) (takeWhile (\<lambda>c. c \<noteq> DQ) (tl p)))
          else None)"

definition json_get_int :: "string \<Rightarrow> string \<Rightarrow> int" where
  "json_get_int json k = (case after_key json k of None \<Rightarrow> 0 | Some p \<Rightarrow> atoi p)"

section \<open>The combined text of an ingress message\<close>

text \<open>The search of the closing brace: how many characters are passed until the depth is 0.\<close>

fun brace_span :: "nat \<Rightarrow> string \<Rightarrow> nat" where
  "brace_span depth [] = 0"
| "brace_span depth (c # s) =
     (if depth = 0 then 0
      else Suc (brace_span (if c = CHR ''{'' then depth + 1
                            else if c = CHR ''}'' then depth - 1 else depth) s))"

text \<open>The copy of the body after its opening quote: \<open>i\<close> characters are stored, \<open>n\<close> is the size of the
  buffer, \<open>prev\<close> the character before the pointer.\<close>

function copy_quoted :: "nat \<Rightarrow> nat \<Rightarrow> char \<Rightarrow> string \<Rightarrow> string" where
  "copy_quoted i n prev [] = []"
| "copy_quoted i n prev (c # s) =
     (if \<not> i < size_pred n then []
      else if c = DQ \<and> (i = 0 \<or> prev \<noteq> BSL) then []
      else if c = BSL \<and> s \<noteq> [] \<and> hd s = DQ then DQ # copy_quoted (Suc i) n DQ (tl s)
      else c # copy_quoted (Suc i) n c s)"
  by pat_completeness auto
termination
  by (relation "measure (\<lambda>(i, n, prev, s). length s)") auto

text \<open>\<open>parse_case2_body\<close>: the returned code, the header text and the body.\<close>

definition parse_case2_body :: "string \<Rightarrow> nat \<Rightarrow> nat \<Rightarrow> int \<times> string option \<times> string option" where
  "parse_case2_body combined header_sz body_sz =
     (case strstr combined (quoted ''header'' @ '':'') of
        None \<Rightarrow> (-1, None, None)
      | Some p \<Rightarrow>
          let hp = dropWhile (\<lambda>c. c = SPC) (drop 9 p)
          in if hp = [] \<or> hd hp \<noteq> CHR ''{'' then (-1, None, None)
             else
               let hlen = Suc (brace_span 1 (tl hp));
                   hlen' = (if hlen \<ge> header_sz then size_pred header_sz else hlen);
                   header_json = take hlen' hp
               in (case strstr combined (quoted ''body'' @ '':'') of
                     None \<Rightarrow> (0, Some header_json, Some [])
                   | Some b \<Rightarrow>
                       let bp = dropWhile (\<lambda>c. c = SPC) (drop 7 b)
                       in if bp \<noteq> [] \<and> hd bp = DQ
                          then (0, Some header_json, Some (copy_quoted 0 body_sz DQ (tl bp)))
                          else (0, Some header_json, Some [])))"

section \<open>Reference definitions\<close>

text \<open>A value that needs no escapes: without quotes (and without the NUL no C string holds).\<close>

definition plain :: "string \<Rightarrow> bool" where
  "plain s \<longleftrightarrow> DQ \<notin> set s \<and> NUL \<notin> set s"

definition header_ok :: "mesh_header \<Rightarrow> bool" where
  "header_ok h \<longleftrightarrow> plain (mh_method h) \<and> plain (mh_url h) \<and> plain (mh_path h) \<and> plain (mh_query h)
     \<and> in_i32 (mh_status h) \<and> plain (mh_req_id_str h) \<and> plain (mh_source_worker h)
     \<and> plain (mh_dest_worker h)"

text \<open>A JSON string body with its quotes escaped.\<close>

fun escape_quotes :: "string \<Rightarrow> string" where
  "escape_quotes [] = []"
| "escape_quotes (c # s) = (if c = DQ then [BSL, DQ] else [c]) @ escape_quotes s"

definition case2_text :: "string \<Rightarrow> string \<Rightarrow> string" where
  "case2_text hdr body =
     ''{'' @ quoted ''header'' @ '': '' @ hdr @ '', '' @ quoted ''body'' @ '': ''
     @ quoted (escape_quotes body) @ ''}''"

text \<open>\<open>json.dumps\<close> of a string of code points below 256, with which the bridge combines the two (\<open>dpu_daemon.py\<close>):
  everything but printable ASCII is escaped. For printable texts without backslashes only the quotes are.\<close>

definition hex_digit :: "nat \<Rightarrow> char" where
  "hex_digit n = char_of (if n < 10 then 48 + n else 87 + n)"

definition json_char :: "char \<Rightarrow> string" where
  "json_char c =
     (let n = of_char c :: nat
      in if c = DQ \<or> c = BSL then [BSL, c]
         else if c = LF then BSL # ''n'' else if c = CR then BSL # ''r'' else if n = 9 then BSL # ''t''
         else if n = 8 then BSL # ''b'' else if n = 12 then BSL # ''f''
         else if n < 32 \<or> 126 < n then BSL # ''u00'' @ [hex_digit (n div 16), hex_digit (n mod 16)]
         else [c])"

definition json_dumps :: "string \<Rightarrow> string" where
  "json_dumps s = quoted (concat (map json_char s))"

definition dumps_message :: "string \<Rightarrow> string \<Rightarrow> string" where
  "dumps_message hdr body =
     ''{'' @ quoted ''header'' @ '': '' @ hdr @ '', '' @ quoted ''body'' @ '': '' @ json_dumps body @ ''}''"

definition printable :: "string \<Rightarrow> bool" where
  "printable s \<longleftrightarrow> (\<forall>c \<in> set s. 32 \<le> (of_char c :: nat) \<and> (of_char c :: nat) \<le> 126 \<and> c \<noteq> BSL)"

lemma dumps_printable: "printable body \<Longrightarrow> dumps_message hdr body = case2_text hdr body"
proof -
  have "printable s \<Longrightarrow> concat (map json_char s) = escape_quotes s" for s
  proof (induction s)
    case (Cons c s)
    then have n: "32 \<le> (of_char c :: nat)" "(of_char c :: nat) \<le> 126" "c \<noteq> BSL" by (simp_all add: printable_def)
    then have "c \<noteq> LF" "c \<noteq> CR" by auto
    with n have "json_char c = (if c = DQ then [BSL, DQ] else [c])"
      unfolding json_char_def Let_def by simp
    with Cons show ?case by (simp add: printable_def)
  qed simp
  then show "printable body \<Longrightarrow> dumps_message hdr body = case2_text hdr body"
    by (simp add: dumps_message_def case2_text_def json_dumps_def)
qed

text \<open>A text whose braces match: it opens and closes nested blocks.\<close>

inductive braces :: "string \<Rightarrow> bool" where
  braces_Nil: "braces []"
| braces_char: "c \<noteq> CHR ''{'' \<Longrightarrow> c \<noteq> CHR ''}'' \<Longrightarrow> braces s \<Longrightarrow> braces (c # s)"
| braces_block: "braces s \<Longrightarrow> braces t \<Longrightarrow> braces (''{'' @ s @ ''}'' @ t)"

section \<open>Searching quoted texts\<close>

text \<open>A text as its pieces between double quotes.\<close>

fun join_quotes :: "string list \<Rightarrow> string" where
  "join_quotes [] = []"
| "join_quotes [p] = p"
| "join_quotes (p # q # ps) = p @ DQ # join_quotes (q # ps)"

fun find_key :: "string \<Rightarrow> string list \<Rightarrow> string list option" where
  "find_key k (q # r # ps) =
     (if q = k \<and> prefix '':'' r then Some (r # ps) else find_key k (r # ps))"
| "find_key k _ = None"

lemma join_quotes_Cons: "ps \<noteq> [] \<Longrightarrow> join_quotes (p # ps) = p @ DQ # join_quotes ps"
  by (cases ps) auto

lemma prefix_quote:
  assumes "DQ \<notin> set q" and "DQ \<notin> set k"
  shows "prefix (k @ [DQ, CHR '':'']) (q @ DQ # r) \<longleftrightarrow> q = k \<and> prefix '':'' r"
  using assms
proof (induction k arbitrary: q)
  case Nil
  then show ?case by (cases q) auto
next
  case (Cons c k)
  then show ?case by (cases q) auto
qed

lemma prefix_join_quotes:
  "DQ \<notin> set k \<Longrightarrow> \<forall>q \<in> set (q # ps). DQ \<notin> set q \<Longrightarrow> prefix '':'' (join_quotes ps) \<longleftrightarrow> ps \<noteq> [] \<and> prefix '':'' (hd ps)"
  by (cases "(k, ps)" rule: find_key.cases) (auto simp: prefix_Cons prefix_append Cons_eq_append_conv)

lemma strstr_join_quotes:
  assumes "DQ \<notin> set k" and "\<forall>q \<in> set ps. DQ \<notin> set q" and "find_key k ps = Some rs"
  shows "strstr (DQ # join_quotes ps) (quoted k @ '':'') = Some (quoted k @ join_quotes rs)"
  using assms
proof (induction k ps rule: find_key.induct)
  case (1 k q r ps)
  have p: "prefix (quoted k @ '':'') (DQ # join_quotes (q # r # ps)) \<longleftrightarrow> q = k \<and> prefix '':'' r"
    using "1.prems" prefix_quote [of q k "join_quotes (r # ps)"] prefix_join_quotes [of k q "r # ps"] by simp
  show ?case
  proof (cases "q = k \<and> prefix '':'' r")
    case True
    then have "rs = r # ps" using "1.prems" by simp
    with True p show ?thesis by (simp add: strstr_here join_quotes_Cons)
  next
    case False
    then have "strstr (DQ # join_quotes (q # r # ps)) (quoted k @ '':'')
        = strstr (q @ DQ # join_quotes (r # ps)) (quoted k @ '':'')"
      using p by (subst strstr.simps) auto
    also have "\<dots> = strstr (DQ # join_quotes (r # ps)) (quoted k @ '':'')"
      using "1.prems" by (intro strstr_skip) auto
    also have "\<dots> = Some (quoted k @ join_quotes rs)"
      using False "1.prems" by (intro "1.IH") (auto split: if_splits)
    finally show ?thesis .
  qed
qed auto

definition header_pieces :: "mesh_header \<Rightarrow> string list" where
  "header_pieces h =
     [''method'', '': '', mh_method h, '', '', ''url'', '': '', mh_url h, '', '',
      ''path'', '': '', mh_path h, '', '', ''headers'', '': {}, '', ''query_string'', '': '', mh_query h,
      '', '', ''remote_addr'', '': '', [], '', '', ''status_code'', '': '' @ show_int (mh_status h) @ '', '',
      ''req_id_str'', '': '', mh_req_id_str h, '', '', ''source_worker'', '': '', mh_source_worker h, '', '',
      ''dest_worker'', '': '', mh_dest_worker h, ''}'']"

lemma header_text_pieces: "header_text h = ''{'' @ DQ # join_quotes (header_pieces h)"
  by (simp add: header_text_def header_pieces_def)

lemma key_pattern_short: "length k \<le> 124 \<Longrightarrow> key_pattern k = quoted k @ '':''"
  by (simp add: key_pattern_def snprintf_def)

lemma after_key_pieces:
  assumes "plain k" and "length k \<le> 124" and "\<forall>q \<in> set ps. DQ \<notin> set q"
    and "find_key k ps = Some ((CHR '':'' # v) # rs)" and "DQ \<notin> set u"
  shows "after_key (u @ DQ # join_quotes ps) k = Some (dropWhile (\<lambda>c. c = SPC) (join_quotes (v # rs)))"
proof -
  have "strstr (u @ DQ # join_quotes ps) (quoted k @ '':'') = strstr (DQ # join_quotes ps) (quoted k @ '':'')"
    using assms(5) by (intro strstr_skip) auto
  also have "\<dots> = Some (quoted k @ join_quotes ((CHR '':'' # v) # rs))"
    using assms by (intro strstr_join_quotes) (auto simp: plain_def)
  also have "join_quotes ((CHR '':'' # v) # rs) = '':'' @ join_quotes (v # rs)" by (cases rs) auto
  finally show ?thesis using assms(2) by (simp add: after_key_def key_pattern_short)
qed

lemma json_get_str_field:
  assumes "plain k" and "length k \<le> 124" and "\<forall>q \<in> set ps. DQ \<notin> set q"
    and "find_key k ps = Some ('': '' # v # r # rs)" and "DQ \<notin> set u"
  shows "json_get_str (u @ DQ # join_quotes ps) k sz = Some (take (size_pred sz) v)"
proof -
  have v: "DQ \<notin> set v" using assms(3,4)
    by (induction k ps rule: find_key.induct) (auto split: if_splits)
  have "after_key (u @ DQ # join_quotes ps) k = Some (DQ # v @ DQ # join_quotes (r # rs))"
    using after_key_pieces [OF assms(1-3) _ assms(5), of "'' ''" "v # r # rs"] assms(4) by simp
  with v show ?thesis by (simp add: json_get_str_def)
qed

lemma DQ_notin_show_int [simp]: "DQ \<notin> set (show_int v)"
  using isdigit_show_nat [of DQ] by (auto simp: show_int_def isdigit_def digit_val_def)

lemma header_pieces_plain: "header_ok h \<Longrightarrow> \<forall>q \<in> set (header_pieces h). DQ \<notin> set q"
  by (simp add: header_ok_def header_pieces_def plain_def)

lemmas header_field =
  json_get_str_field [OF _ _ header_pieces_plain, where u = "''{''", folded header_text_pieces]

text \<open>The fields of a header of plain values.\<close>

lemma header_fields:
  assumes "header_ok h"
  shows "json_get_str (header_text h) ''method'' sz = Some (take (size_pred sz) (mh_method h))"
    and "json_get_str (header_text h) ''path'' sz = Some (take (size_pred sz) (mh_path h))"
    and "json_get_str (header_text h) ''query_string'' sz = Some (take (size_pred sz) (mh_query h))"
    and "json_get_str (header_text h) ''req_id_str'' sz = Some (take (size_pred sz) (mh_req_id_str h))"
    and "json_get_str (header_text h) ''source_worker'' sz = Some (take (size_pred sz) (mh_source_worker h))"
    and "json_get_str (header_text h) ''dest_worker'' sz = Some (take (size_pred sz) (mh_dest_worker h))"
  by (rule header_field [OF _ _ assms]; simp add: plain_def header_pieces_def)+

lemma header_status:
  assumes "header_ok h"
  shows "json_get_int (header_text h) ''status_code'' = mh_status h"
proof -
  let ?rest = "[''req_id_str'', '': '', mh_req_id_str h, '', '', ''source_worker'', '': '', mh_source_worker h,
    '', '', ''dest_worker'', '': '', mh_dest_worker h, ''}'']"
  have "find_key ''status_code'' (header_pieces h)
      = Some ((CHR '':'' # '' '' @ show_int (mh_status h) @ '', '') # ?rest)"
    by (simp add: header_pieces_def)
  from after_key_pieces [OF _ _ header_pieces_plain [OF assms] this, of "''{''"]
  have "after_key (header_text h) ''status_code''
      = Some (dropWhile (\<lambda>c. c = SPC) ('' '' @ show_int (mh_status h) @ '', '' @ DQ # join_quotes ?rest))"
    by (simp add: header_text_pieces plain_def)
  moreover have "show_int v \<noteq> [] \<and> hd (show_int v @ t) \<noteq> SPC" for v t
    using isdigit_not_isspace [OF hd_show_nat, of "nat v"]
    by (auto simp: show_int_def isspace_def hd_append)
  then have "dropWhile (\<lambda>c. c = SPC) ('' '' @ show_int v @ t) = show_int v @ t" for v t
    by (simp add: dropWhile_eq_self_iff)
  ultimately show ?thesis
    using assms by (simp add: json_get_int_def atoi_show_int header_ok_def isdigit_def digit_val_def)
qed

section \<open>Combined texts\<close>

lemma strstr_join_quotes_None:
  assumes "DQ \<notin> set k" and "\<forall>q \<in> set ps. DQ \<notin> set q" and "find_key k ps = None"
  shows "strstr (DQ # join_quotes ps) (quoted k @ '':'') = None"
  using assms
proof (induction k ps rule: find_key.induct [case_names pair none single])
  case (pair k q r ps)
  have ne: "\<not> (q = k \<and> prefix '':'' r)" using pair.prems by (auto split: if_splits)
  have "\<not> prefix (quoted k @ '':'') (DQ # join_quotes (q # r # ps))"
    using pair.prems ne prefix_quote [of q k "join_quotes (r # ps)"] prefix_join_quotes [of k q "r # ps"]
    by simp
  then have "strstr (DQ # join_quotes (q # r # ps)) (quoted k @ '':'')
      = strstr (q @ DQ # join_quotes (r # ps)) (quoted k @ '':'')"
    by (subst strstr.simps) auto
  also have "\<dots> = strstr (DQ # join_quotes (r # ps)) (quoted k @ '':'')"
    using pair.prems by (intro strstr_skip) auto
  also have "\<dots> = None" using pair.prems ne by (intro pair.IH) (auto split: if_splits)
  finally show ?case .
next
  case (single k q)
  then have "strstr (q @ []) (quoted k @ '':'') = strstr [] (quoted k @ '':'')"
    by (intro strstr_skip) auto
  moreover have "\<not> prefix (quoted k @ '':'') (DQ # q)"
  proof
    assume "prefix (quoted k @ '':'') (DQ # q)"
    then have "DQ \<in> set q" by (auto simp: prefix_def)
    with single show False by simp
  qed
  ultimately show ?case by simp
qed simp

text \<open>A search passes a text that ends in a character the pattern lacks.\<close>

lemma strstr_over: "strstr s pat = None \<Longrightarrow> x \<notin> set pat \<Longrightarrow> strstr (s @ x # t) pat = strstr (x # t) pat"
proof (induction s)
  case (Cons c s)
  then have "\<not> prefix pat (c # s)" "strstr s pat = None" by (auto split: if_splits)
  with Cons prefix_before [of x pat "c # s" t] show ?case by (subst append_Cons, subst strstr.simps) simp
qed simp

lemma brace_span_braces: "braces s \<Longrightarrow> brace_span (Suc d) (s @ t) = length s + brace_span (Suc d) t"
proof (induction s arbitrary: d t rule: braces.induct)
  case (braces_block s t' d t)
  show ?case
    using braces_block.IH(1) [of "Suc d" "''}'' @ t' @ t"] braces_block.IH(2) [of d t] by simp
qed auto

lemma brace_span_close: "braces s \<Longrightarrow> brace_span (Suc 0) (s @ CHR ''}'' # t) = Suc (length s)"
  using brace_span_braces [of s 0 "CHR ''}'' # t"] by (cases t) simp_all

lemma copy_quoted_escaped:
  "BSL \<notin> set body \<Longrightarrow> i + length body < n \<Longrightarrow> prev \<noteq> BSL \<Longrightarrow>
     copy_quoted i n prev (escape_quotes body @ DQ # r) = body"
proof (induction body arbitrary: i prev)
  case (Cons c body)
  then show ?case by (cases "c = DQ") auto
qed simp

lemma case2_parts:
  assumes "braces s" and "Suc (Suc (length s)) < header_sz"
    and "strstr (''{'' @ s) (quoted ''body'' @ '':'') = None"
    and "BSL \<notin> set body" and "length body < body_sz"
  shows "parse_case2_body (case2_text (''{'' @ s @ ''}'') body) header_sz body_sz
    = (0, Some (''{'' @ s @ ''}''), Some body)"
proof -
  let ?rest = "'', '' @ quoted ''body'' @ '': '' @ quoted (escape_quotes body) @ ''}''"
  let ?c = "case2_text (''{'' @ s @ ''}'') body"
  have c: "?c = ''{'' @ quoted ''header'' @ '': {'' @ s @ CHR ''}'' # ?rest"
    by (simp add: case2_text_def)
  have hp: "strstr ?c (quoted ''header'' @ '':'') = Some (quoted ''header'' @ '': {'' @ s @ CHR ''}'' # ?rest)"
    unfolding c by simp
  have span: "brace_span (Suc 0) (s @ CHR ''}'' # t) = Suc (length s)" for t
    by (rule brace_span_close [OF assms(1)])
  have "strstr ?c (quoted ''body'' @ '':'')
      = strstr ((''{'' @ s) @ CHR ''}'' # ?rest) (quoted ''body'' @ '':'')"
    unfolding c by simp
  also have "\<dots> = strstr (CHR ''}'' # ?rest) (quoted ''body'' @ '':'')"
    by (rule strstr_over [OF assms(3)]) simp
  also have "\<dots> = Some (quoted ''body'' @ '': '' @ quoted (escape_quotes body) @ ''}'')" by simp
  finally have bp: "strstr ?c (quoted ''body'' @ '':'')
      = Some (quoted ''body'' @ '': '' @ quoted (escape_quotes body) @ ''}'')" .
  have "copy_quoted 0 body_sz DQ (escape_quotes body @ [DQ, CHR ''}'']) = body"
    using copy_quoted_escaped [of body 0 body_sz DQ "''}''"] assms(4,5) by simp
  with assms(2) show ?thesis
    unfolding parse_case2_body_def hp bp by (simp add: Let_def span)
qed

lemma braces_plain: "CHR ''{'' \<notin> set s \<Longrightarrow> CHR ''}'' \<notin> set s \<Longrightarrow> braces t \<Longrightarrow> braces (s @ t)"
  by (induction s) (auto intro: braces.intros)

definition no_braces :: "string \<Rightarrow> bool" where
  "no_braces s \<longleftrightarrow> CHR ''{'' \<notin> set s \<and> CHR ''}'' \<notin> set s"

definition header_no_braces :: "mesh_header \<Rightarrow> bool" where
  "header_no_braces h \<longleftrightarrow> no_braces (mh_method h) \<and> no_braces (mh_url h) \<and> no_braces (mh_path h)
     \<and> no_braces (mh_query h) \<and> no_braces (mh_req_id_str h) \<and> no_braces (mh_source_worker h)
     \<and> no_braces (mh_dest_worker h)"

lemma no_braces_show_int: "no_braces (show_int v)"
  using isdigit_show_nat [of "CHR ''{''"] isdigit_show_nat [of "CHR ''}''"]
  by (auto simp: no_braces_def show_int_def isdigit_def digit_val_def)

lemma braces_blank: "braces s \<Longrightarrow> braces (''{}'' @ s)"
  using braces_block [OF braces_Nil, of s] by simp

lemma header_text_braces:
  assumes "header_no_braces h"
  shows "\<exists>s. header_text h = ''{'' @ s @ ''}'' \<and> braces s"
proof -
  let ?u = "quoted ''method'' @ '': '' @ quoted (mh_method h)
     @ '', '' @ quoted ''url'' @ '': '' @ quoted (mh_url h)
     @ '', '' @ quoted ''path'' @ '': '' @ quoted (mh_path h)
     @ '', '' @ quoted ''headers'' @ '': ''"
  let ?v = "'', '' @ quoted ''query_string'' @ '': '' @ quoted (mh_query h)
     @ '', '' @ quoted ''remote_addr'' @ '': '' @ quoted []
     @ '', '' @ quoted ''status_code'' @ '': '' @ show_int (mh_status h)
     @ '', '' @ quoted ''req_id_str'' @ '': '' @ quoted (mh_req_id_str h)
     @ '', '' @ quoted ''source_worker'' @ '': '' @ quoted (mh_source_worker h)
     @ '', '' @ quoted ''dest_worker'' @ '': '' @ quoted (mh_dest_worker h)"
  have "no_braces ?u" "no_braces ?v"
    using assms no_braces_show_int [of "mh_status h"] by (simp_all add: header_no_braces_def no_braces_def)
  then have "braces (?u @ ''{}'' @ ?v @ [])"
    by (intro braces_plain braces_blank braces_Nil) (auto simp only: no_braces_def)
  moreover have "header_text h = ''{'' @ (?u @ ''{}'' @ ?v @ []) @ ''}''" by (simp add: header_text_def)
  ultimately show ?thesis by blast
qed

lemma header_text_no_body:
  assumes "header_ok h" and "header_text h = s @ t"
  shows "strstr s (quoted ''body'' @ '':'') = None"
proof -
  have "strstr (''{'' @ DQ # join_quotes (header_pieces h)) (quoted ''body'' @ '':'')
      = strstr (DQ # join_quotes (header_pieces h)) (quoted ''body'' @ '':'')"
    by (rule strstr_skip) auto
  also have "\<dots> = None"
    by (rule strstr_join_quotes_None [OF _ header_pieces_plain [OF assms(1)]])
      (simp_all add: header_pieces_def)
  finally have "strstr (header_text h) (quoted ''body'' @ '':'') = None"
    by (simp only: header_text_pieces)
  then have "\<not> sublist (quoted ''body'' @ '':'') (s @ t)"
    by (simp only: assms(2) strstr_None_iff not_False_eq_True)
  moreover have "sublist s (s @ t)" by simp
  ultimately show ?thesis unfolding strstr_None_iff using sublist_order.order_trans by blast
qed

lemma serialize_header_fields:
  "serialize_header bufsz (Some (mh_method h)) (Some (mh_url h)) (Some (mh_path h)) (Some (mh_query h))
      (mh_status h) (Some (mh_req_id_str h)) (Some (mh_source_worker h)) (Some (mh_dest_worker h))
    = snprintf bufsz (header_text h)"
  by (cases h) (simp add: serialize_header_def nullable_def)

section \<open>Properties\<close>

text \<open>C30. A header serialised from plain values that fits the buffer is read back field by field: every
  string field the readers ask for is the value, cut to the reader's buffer, and the status code is
  the number.\<close>

theorem header_roundtrip:
  assumes "header_ok h"
    and "serialize_header bufsz (Some (mh_method h)) (Some (mh_url h)) (Some (mh_path h)) (Some (mh_query h))
      (mh_status h) (Some (mh_req_id_str h)) (Some (mh_source_worker h)) (Some (mh_dest_worker h)) = (t, n)"
    and "n < bufsz"
  shows "json_get_str t ''method'' sz = Some (take (size_pred sz) (mh_method h))
    \<and> json_get_str t ''path'' sz = Some (take (size_pred sz) (mh_path h))
    \<and> json_get_str t ''query_string'' sz = Some (take (size_pred sz) (mh_query h))
    \<and> json_get_str t ''req_id_str'' sz = Some (take (size_pred sz) (mh_req_id_str h))
    \<and> json_get_str t ''source_worker'' sz = Some (take (size_pred sz) (mh_source_worker h))
    \<and> json_get_str t ''dest_worker'' sz = Some (take (size_pred sz) (mh_dest_worker h))
    \<and> json_get_int t ''status_code'' = mh_status h"
proof -
  have "t = header_text h"
    using snprintf_fits [OF assms(2) [unfolded serialize_header_fields] assms(3)] by simp
  with header_fields [OF assms(1), of sz] header_status [OF assms(1)] show ?thesis by simp
qed

definition demo_header :: mesh_header where
  "demo_header = \<lparr>mh_method = ''GET'', mh_url = ''http://id/lookup?name=a'', mh_path = ''/lookup'',
     mh_query = ''name=a'', mh_status = 0, mh_req_id_str = ''creq-1'', mh_source_worker = ''fe-worker-0'',
     mh_dest_worker = []\<rparr>"

lemma demo_header_ok: "header_ok demo_header" "header_no_braces demo_header"
  by (simp_all add: header_ok_def header_no_braces_def no_braces_def demo_header_def plain_def in_i32_def)

lemma demo_header_text_length: "length (header_text demo_header) < 4096"
  by (simp add: header_text_def demo_header_def show_int_def show_nat.simps)

theorem header_roundtrip_witness:
  "json_get_str (header_text demo_header) ''path'' 256 = Some ''/lookup''
     \<and> json_get_str (header_text demo_header) ''source_worker'' 128 = Some ''fe-worker-0''"
proof -
  let ?t = "header_text demo_header"
  have s: "serialize_header 4096 (Some (mh_method demo_header)) (Some (mh_url demo_header))
      (Some (mh_path demo_header)) (Some (mh_query demo_header)) (mh_status demo_header)
      (Some (mh_req_id_str demo_header)) (Some (mh_source_worker demo_header))
      (Some (mh_dest_worker demo_header)) = (?t, length ?t)"
    using demo_header_text_length by (simp add: serialize_header_fields snprintf_def)
  show ?thesis
    using header_roundtrip [OF demo_header_ok(1) s demo_header_text_length, of 256]
      header_roundtrip [OF demo_header_ok(1) s demo_header_text_length, of 128]
    by (simp add: demo_header_def)
qed

text \<open>C31. An ingress message, in the form \<open>json.dumps\<close> gives it, is taken apart into exactly the text of its
  header and its body when both fit their buffers, the header is an object whose braces match (also
  counting those inside strings) and that has no key \<open>body\<close>, and the body is printable ASCII without
  backslashes; quotes in the body are unescaped. Other bodies are not read back, as \<open>json.dumps\<close>
  escapes what \<open>parse_case2_body\<close> does not unescape.\<close>

theorem case2_roundtrip:
  assumes "braces s" and "length (''{'' @ s @ ''}'') < header_sz"
    and "strstr (''{'' @ s) (quoted ''body'' @ '':'') = None" and "printable body" and "length body < body_sz"
  shows "parse_case2_body (dumps_message (''{'' @ s @ ''}'') body) header_sz body_sz
    = (0, Some (''{'' @ s @ ''}''), Some body)"
proof -
  have "BSL \<notin> set body" using assms(4) by (auto simp: printable_def)
  with case2_parts [OF assms(1) _ assms(3) this assms(5)] assms(2) show ?thesis
    by (simp add: dumps_printable [OF assms(4)])
qed

theorem case2_roundtrip_witness:
  "parse_case2_body (dumps_message (header_text demo_header) (''say '' @ quoted ''hi'')) 4096 64
     = (0, Some (header_text demo_header), Some (''say '' @ quoted ''hi''))"
proof -
  obtain s where s: "header_text demo_header = ''{'' @ s @ ''}''" "braces s"
    using header_text_braces [OF demo_header_ok(2)] by blast
  have "strstr (''{'' @ s) (quoted ''body'' @ '':'') = None"
    by (rule header_text_no_body [OF demo_header_ok(1), of _ "''}''"]) (simp add: s)
  moreover have "printable (''say '' @ quoted ''hi'')" by (simp add: printable_def)
  ultimately show ?thesis
    using case2_roundtrip [OF s(2), of 4096] demo_header_text_length by (simp add: s(1))
qed

text \<open>The values of a header are not escaped: a double quote in the URL of a request, which carries
  client input, closes the value, and the text after it is read back as the header's own
  \<open>source_worker\<close> field.\<close>

theorem header_injection:
  assumes "header_ok h" and "plain u" and "plain v"
  shows "json_get_str (header_text (h\<lparr>mh_url := u @ [DQ] @ '', '' @ quoted ''source_worker'' @ '': '' @ [DQ] @ v\<rparr>))
    ''source_worker'' sz = Some (take (size_pred sz) v)"
proof -
  let ?ps = "[''method'', '': '', mh_method h, '', '', ''url'', '': '', u, '', '', ''source_worker'', '': '', v, '', '']
    @ drop 8 (header_pieces h)"
  have "header_text (h\<lparr>mh_url := u @ [DQ] @ '', '' @ quoted ''source_worker'' @ '': '' @ [DQ] @ v\<rparr>)
      = ''{'' @ DQ # join_quotes ?ps"
    by (simp add: header_text_def header_pieces_def)
  moreover have "\<forall>q \<in> set ?ps. DQ \<notin> set q"
    using assms by (simp add: header_ok_def header_pieces_def plain_def)
  then have "json_get_str (''{'' @ DQ # join_quotes ?ps) ''source_worker'' sz = Some (take (size_pred sz) v)"
    by (rule json_get_str_field [rotated 2]) (simp_all add: plain_def)
  ultimately show ?thesis by simp
qed

theorem header_injection_witness:
  "json_get_str (header_text (demo_header\<lparr>mh_url := ''x'' @ [DQ] @ '', '' @ quoted ''source_worker'' @ '': '' @ [DQ] @ ''evil''\<rparr>))
    ''source_worker'' 128 = Some ''evil''"
  using header_injection [OF demo_header_ok(1), of "''x''" "''evil''" 128] by (simp add: plain_def)

text \<open>A body that ends in a backslash is read wrongly: in the JSON text of the body \<open>a\<close> and a
  backslash the second of the two backslashes is taken with the closing quote as an escaped quote, and
  the copy runs on into the text after the body.\<close>

theorem case2_backslash_body:
  "parse_case2_body (dumps_message ''{}'' [CHR ''a'', BSL]) 64 64
     = (0, Some ''{}'', Some ([CHR ''a'', BSL, DQ] @ ''}''))"
  by (simp add: parse_case2_body_def Let_def dumps_message_def json_dumps_def json_char_def)

end
