(* ===== verification/Pod_Registry.thy ===== *)
theory Pod_Registry
  imports Interfaces Header_Json
begin

text \<open>
  The pod registry of \<open>common/dpumesh.c\<close>: the counter file the pod numbers come from and the JSON file
  the workers are listed in. Both operations hold the \<open>flock\<close> of their file and are atomic steps on
  the contents of the two files (\<open>None\<close> is a file that does not exist). Whether the calls of \<open>open\<close>
  and \<open>fopen\<close> succeed is an argument. The overflow of the \<open>int\<close> counter wraps.
\<close>

record pod_files =
  pf_counter :: "string option"
  pf_registry :: "string option"

record file_ops =
  fo_lock :: bool
  fo_read :: bool
  fo_write :: bool

definition registry_path :: "string option \<Rightarrow> string" where
  "registry_path env = fst (snprintf 256 (''/dev/shm/'' @ shm_prefix env @ ''_pod_registry''))"

definition registry_lock :: "string option \<Rightarrow> string" where
  "registry_lock env = fst (snprintf 256 (''/dev/shm/'' @ shm_prefix env @ ''_pod_registry.lock''))"

definition pod_counter_path :: "string option \<Rightarrow> string" where
  "pod_counter_path env = fst (snprintf 256 (''/dev/shm/'' @ shm_prefix env @ ''_pod_id_counter''))"

definition pod_counter_lock :: "string option \<Rightarrow> string" where
  "pod_counter_lock env = fst (snprintf 256 (''/dev/shm/'' @ shm_prefix env @ ''_pod_id_counter.lock''))"

section \<open>Pod numbers\<close>

text \<open>\<open>fscanf(f, "%d", &cur)\<close>: the number at the start of the text, if there is one.\<close>

definition scan_int :: "string \<Rightarrow> int option" where
  "scan_int t = (let (v, e) = strtol t in if e = t then None else Some (i32 v))"

definition pod_registry_alloc_id :: "file_ops \<Rightarrow> pod_files \<Rightarrow> int \<times> pod_files" where
  "pod_registry_alloc_id fo fs =
     (if \<not> fo_lock fo then (-1, fs)
      else
        let contents = (if fo_read fo then pf_counter fs else None);
            new_id = (case contents of
                        None \<Rightarrow> 1
                      | Some t \<Rightarrow> (case scan_int t of None \<Rightarrow> 1 | Some cur \<Rightarrow> i32 (cur + 1)))
        in (new_id, if fo_write fo then fs\<lparr>pf_counter := Some (show_int new_id)\<rparr> else fs))"

section \<open>Registration\<close>

definition REG_SIZE :: nat where "REG_SIZE = 8192"

text \<open>The text of one entry.\<close>

definition reg_entry :: "string \<Rightarrow> int \<Rightarrow> string \<Rightarrow> string" where
  "reg_entry worker_name pod_id service =
     quoted worker_name @ '': {'' @ quoted ''pod_id'' @ '': '' @ show_int pod_id @ '', ''
     @ quoted ''service'' @ '': '' @ quoted service @ ''}''"

definition pod_registry_register :: "file_ops \<Rightarrow> pod_files \<Rightarrow> string \<Rightarrow> int \<Rightarrow> string \<Rightarrow> int \<times> pod_files" where
  "pod_registry_register fo fs worker_name pod_id service =
     (if \<not> fo_lock fo then (-1, fs)
      else
        let buf = (case (if fo_read fo then pf_registry fs else None) of
                     None \<Rightarrow> ''{}''
                   | Some t \<Rightarrow> takeWhile (\<lambda>c. c \<noteq> NUL) (take (REG_SIZE - 1) t));
            buf' = (case before_last buf CHR ''}'' of None \<Rightarrow> buf | Some s \<Rightarrow> s);
            has_entries = (CHR '':'' \<in> set buf');
            newbuf = fst (snprintf REG_SIZE
              (buf' @ (if has_entries then '', '' else []) @ reg_entry worker_name pod_id service @ ''}''))
        in (0, if fo_write fo then fs\<lparr>pf_registry := Some newbuf\<rparr> else fs))"

section \<open>Reference definitions\<close>

text \<open>The registry as a list of workers with their pod and service.\<close>

type_synonym reg_list = "(string \<times> int \<times> string) list"

fun entries_text :: "reg_list \<Rightarrow> string" where
  "entries_text [] = []"
| "entries_text [(w, p, s)] = reg_entry w p s"
| "entries_text ((w, p, s) # e # es) = reg_entry w p s @ '', '' @ entries_text (e # es)"

definition registry_text :: "reg_list \<Rightarrow> string" where
  "registry_text es = ''{'' @ entries_text es @ ''}''"

text \<open>The registry file holds the list: a missing file is the empty registry.\<close>

definition registry_of :: "pod_files \<Rightarrow> reg_list \<Rightarrow> bool" where
  "registry_of fs es \<longleftrightarrow> (es = [] \<and> pf_registry fs = None) \<or> pf_registry fs = Some (registry_text es)"

definition entry_plain :: "string \<times> int \<times> string \<Rightarrow> bool" where
  "entry_plain e \<longleftrightarrow> plain (fst e) \<and> plain (snd (snd e))"

definition files_ok :: file_ops where
  "files_ok = \<lparr>fo_lock = True, fo_read = True, fo_write = True\<rparr>"

text \<open>Several workers in turn.\<close>

fun alloc_ids :: "nat \<Rightarrow> pod_files \<Rightarrow> int list \<times> pod_files" where
  "alloc_ids 0 fs = ([], fs)"
| "alloc_ids (Suc n) fs =
     (let (i, fs') = pod_registry_alloc_id files_ok fs; (is, fs'') = alloc_ids n fs' in (i # is, fs''))"

fun register_all :: "pod_files \<Rightarrow> reg_list \<Rightarrow> pod_files" where
  "register_all fs [] = fs"
| "register_all fs ((w, p, s) # es) = register_all (snd (pod_registry_register files_ok fs w p s)) es"

text \<open>The last number handed out.\<close>

definition counter_is :: "pod_files \<Rightarrow> int \<Rightarrow> bool" where
  "counter_is fs c \<longleftrightarrow> (case pf_counter fs of None \<Rightarrow> c = 0 | Some t \<Rightarrow> t = show_int c)"

section \<open>Lemmas\<close>

lemma scan_int_show: "in_i32 v \<Longrightarrow> scan_int (show_int v) = Some v"
  using strtol_show_int_i32 [of v "[]"] show_int_nonempty [of v, symmetric] by (simp add: scan_int_def)

lemma alloc_id_next:
  assumes "counter_is fs c" and "in_i32 c" and "in_i32 (c + 1)"
  shows "pod_registry_alloc_id files_ok fs = (c + 1, fs\<lparr>pf_counter := Some (show_int (c + 1))\<rparr>)"
  using assms by (cases "pf_counter fs")
    (simp_all add: pod_registry_alloc_id_def files_ok_def counter_is_def Let_def scan_int_show)

lemma in_i32_between: "0 \<le> c \<Longrightarrow> c + int n < 2 ^ 31 \<Longrightarrow> in_i32 c \<and> (0 < n \<longrightarrow> in_i32 (c + 1))"
  by (auto simp: in_i32_def)

lemma alloc_ids_upto:
  assumes "counter_is fs c" and "0 \<le> c" and "c + int n < 2 ^ 31" and "alloc_ids n fs = (is, fs')"
  shows "is = [c + 1 .. c + int n] \<and> counter_is fs' (c + int n)"
  using assms
proof (induction n arbitrary: fs c "is")
  case (Suc n)
  let ?fs = "fs\<lparr>pf_counter := Some (show_int (c + 1))\<rparr>"
  have a: "pod_registry_alloc_id files_ok fs = (c + 1, ?fs)"
    using Suc.prems in_i32_between [of c "Suc n"] by (intro alloc_id_next) auto
  obtain js where js: "alloc_ids n ?fs = (js, fs')" "is = (c + 1) # js"
    using Suc.prems(4) a by (auto split: prod.splits)
  have "js = [c + 1 + 1 .. c + 1 + int n] \<and> counter_is fs' (c + 1 + int n)"
    by (rule Suc.IH [OF _ _ _ js(1)]) (use Suc.prems in \<open>simp_all add: counter_is_def\<close>)
  then show ?case using js(2) upto_rec1 [of "c + 1" "c + 1 + int n"] by (simp add: algebra_simps)
qed simp

lemma colon_reg_entry: "CHR '':'' \<in> set (reg_entry w p s)"
  by (simp add: reg_entry_def)

lemma colon_entries: "CHR '':'' \<in> set (''{'' @ entries_text es) \<longleftrightarrow> es \<noteq> []"
  by (cases es rule: entries_text.cases) (auto simp: colon_reg_entry)

lemma NUL_entries: "\<forall>e \<in> set es. entry_plain e \<Longrightarrow> NUL \<notin> set (entries_text es)"
  by (induction es rule: entries_text.induct) (auto simp: entry_plain_def plain_def reg_entry_def)

lemma entries_text_append:
  "entries_text (es @ fs) = entries_text es @ (if es = [] \<or> fs = [] then [] else '', '') @ entries_text fs"
proof (induction es rule: entries_text.induct)
  case (2 w p s)
  then show ?case by (cases fs) auto
qed simp_all

lemma before_last_registry: "before_last (registry_text es) CHR ''}'' = Some (''{'' @ entries_text es)"
  using before_last_append [of "CHR ''}''" "[]" "''{'' @ entries_text es"] by (simp add: registry_text_def)

lemma registry_text_snoc:
  "registry_text (es @ [(w, p, s)])
    = (''{'' @ entries_text es) @ (if es = [] then [] else '', '') @ reg_entry w p s @ ''}''"
  by (simp add: registry_text_def entries_text_append)

lemma register_text:
  assumes "registry_of fs es" and "\<forall>e \<in> set es. entry_plain e" and "length (registry_text es) < REG_SIZE"
  shows "pod_registry_register files_ok fs w p s
    = (0, fs\<lparr>pf_registry := Some (take (REG_SIZE - 1) (registry_text (es @ [(w, p, s)])))\<rparr>)"
proof -
  let ?buf = "case pf_registry fs of None \<Rightarrow> ''{}'' | Some t \<Rightarrow> takeWhile (\<lambda>c. c \<noteq> NUL) (take (REG_SIZE - 1) t)"
  have "NUL \<notin> set (registry_text es)" using NUL_entries [OF assms(2)] by (simp add: registry_text_def)
  then have buf: "?buf = registry_text es"
    using assms(1,3) by (auto simp: registry_of_def registry_text_def split: if_splits)
  show ?thesis
    using colon_entries [of es] unfolding pod_registry_register_def
    by (simp add: files_ok_def Let_def buf before_last_registry snprintf_def registry_text_snoc
        del: take_append)
qed

section \<open>Properties\<close>

text \<open>Workers that start one after the other get consecutive pod numbers, so no two get the same
  one, as long as the counter stays below 2^31.\<close>

theorem alloc_ids_consecutive:
  assumes "counter_is fs c" and "0 \<le> c" and "c + int n < 2 ^ 31" and "alloc_ids n fs = (is, fs')"
  shows "is = [c + 1 .. c + int n] \<and> distinct is \<and> length is = n \<and> counter_is fs' (c + int n)"
  using alloc_ids_upto [OF assms] by simp

theorem alloc_ids_consecutive_witness:
  "fst (alloc_ids 3 \<lparr>pf_counter = None, pf_registry = None\<rparr>) = [1, 2, 3]"
proof -
  let ?fs = "\<lparr>pf_counter = None, pf_registry = None\<rparr>"
  obtain "is" fs' where a: "alloc_ids 3 ?fs = (is, fs')" by (rule prod.exhaust)
  have "is = [0 + 1 .. 0 + int 3]"
    using alloc_ids_consecutive [OF _ _ _ a, of 0] by (simp add: counter_is_def)
  with a show ?thesis by (simp add: upto.simps)
qed

lemma registry_text_mono: "length (registry_text es) \<le> length (registry_text (es @ fs))"
  by (simp add: registry_text_def entries_text_append)

lemma register_all_append:
  "registry_of fs ps \<Longrightarrow> \<forall>e \<in> set (ps @ qs). entry_plain e \<Longrightarrow> length (registry_text (ps @ qs)) < REG_SIZE
    \<Longrightarrow> registry_of (register_all fs qs) (ps @ qs)"
proof (induction fs qs arbitrary: ps rule: register_all.induct)
  case (2 fs w p s qs)
  let ?e = "(w, p, s)"
  have "length (registry_text ps) < REG_SIZE" "length (registry_text (ps @ [?e])) < REG_SIZE"
    using "2.prems"(3) registry_text_mono [of ps "?e # qs"] registry_text_mono [of "ps @ [?e]" qs] by simp_all
  then have "registry_of (snd (pod_registry_register files_ok fs w p s)) (ps @ [?e])"
    using register_text [OF "2.prems"(1), of w p s] "2.prems"(2) by (simp add: registry_of_def)
  from "2.IH" [OF this] "2.prems" show ?case by simp
qed simp

text \<open>Registering workers one after the other lists them in the registry file in that order, with
  every earlier entry kept, as long as the text stays below 8192 bytes.\<close>

theorem register_all_lists:
  assumes "registry_of fs []" and "\<forall>e \<in> set es. entry_plain e" and "length (registry_text es) < REG_SIZE"
  shows "registry_of (register_all fs es) es"
  using register_all_append [of fs "[]" es] assms by simp

theorem register_all_lists_witness:
  "registry_of (register_all \<lparr>pf_counter = None, pf_registry = None\<rparr>
       [(''fe-worker-0'', 1, ''fe''), (''id-worker-0'', 2, ''id'')])
     [(''fe-worker-0'', 1, ''fe''), (''id-worker-0'', 2, ''id'')]"
  by (rule register_all_lists)
    (simp_all add: registry_of_def entry_plain_def plain_def registry_text_def reg_entry_def REG_SIZE_def
      show_int_def show_nat.simps)

text \<open>A registration that would make the text 8192 bytes or longer is reported as done although the
  file it writes is cut at 8191 bytes and no longer lists the workers.\<close>

theorem register_truncates:
  assumes "registry_of fs es" and "\<forall>e \<in> set es. entry_plain e" and "length (registry_text es) < REG_SIZE"
    and "REG_SIZE \<le> length (registry_text (es @ [(w, p, s)]))"
  shows "\<exists>fs'. pod_registry_register files_ok fs w p s = (0, fs') \<and> \<not> registry_of fs' (es @ [(w, p, s)])
    \<and> map_option length (pf_registry fs') = Some (REG_SIZE - 1)"
proof -
  let ?t = "registry_text (es @ [(w, p, s)])"
  have "length (take (REG_SIZE - 1) ?t) = REG_SIZE - 1" using assms(4) by simp
  moreover from this have "take (REG_SIZE - 1) ?t \<noteq> ?t" using assms(4) by (auto simp: REG_SIZE_def)
  ultimately show ?thesis
    using register_text [OF assms(1-3), of w p s] by (simp add: registry_of_def)
qed

theorem register_truncates_witness:
  "\<exists>fs'. pod_registry_register files_ok \<lparr>pf_counter = None, pf_registry = None\<rparr> ''w'' 1 (replicate 8192 CHR ''s'')
      = (0, fs') \<and> \<not> registry_of fs' [(''w'', 1, replicate 8192 CHR ''s'')]"
  using register_truncates [of "\<lparr>pf_counter = None, pf_registry = None\<rparr>" "[]" "''w''" 1 "replicate 8192 CHR ''s''"]
  by (auto simp: registry_of_def registry_text_def reg_entry_def REG_SIZE_def)

end
