(* ===== verification/Locking.thy ===== *)
theory Locking
  imports C_Base
begin

text \<open>
  The operations on the shared objects of \<open>common/dpumesh.c\<close> run under \<open>flock\<close> in several processes and
  threads at once. Here they are taken apart into their single accesses to the shared memory or the
  file, and interleaved at will. As long as the lock file can be opened, every interleaving has the
  results of the whole operations in some order. The objects themselves are in \<open>Shared_Objects\<close>.
\<close>

section \<open>Processes and the lock\<close>

text \<open>One access inside the critical section: it goes on, ends with a result, or leaves the object.\<close>

datatype ('pc, 'm, 'r) access = Fault | Go 'pc 'm | Exit 'r 'm

text \<open>A process outside an operation, in \<open>flock\<close>, at an access (holding the lock or not), or before the
  unlock.\<close>

datatype ('op, 'pc, 'r) proc = Ready | Waiting 'op | Inside bool 'op 'pc | Leaving bool 'op 'r

record ('op, 'pc, 'm, 'r) shared =
  sh_mem :: 'm
  sh_holder :: "nat option"
  sh_proc :: "nat \<Rightarrow> ('op, 'pc, 'r) proc"
  sh_log :: "('op \<times> 'r) list"

text \<open>The scheduler's choices: a process calls an operation, takes its next step, or fails to open the
  lock file. The log lists the operations in the order they ended, with their results.\<close>

datatype 'op event = Call nat 'op | Tick nat | Open_Fails nat

definition set_proc :: "nat \<Rightarrow> ('op, 'pc, 'r) proc \<Rightarrow> ('op, 'pc, 'm, 'r) shared \<Rightarrow> ('op, 'pc, 'm, 'r) shared" where
  "set_proc p x sh = sh\<lparr>sh_proc := (sh_proc sh)(p := x)\<rparr>"

fun lock_step :: "('op \<Rightarrow> 'pc) \<Rightarrow> ('pc \<Rightarrow> 'm \<Rightarrow> ('pc, 'm, 'r) access) \<Rightarrow> 'op event \<Rightarrow> ('op, 'pc, 'm, 'r) shared
    \<Rightarrow> ('op, 'pc, 'm, 'r) shared option" where
  "lock_step start act (Call p op) sh =
     (case sh_proc sh p of Ready \<Rightarrow> Some (set_proc p (Waiting op) sh) | _ \<Rightarrow> None)"
| "lock_step start act (Open_Fails p) sh =
     (case sh_proc sh p of Waiting op \<Rightarrow> Some (set_proc p (Inside False op (start op)) sh) | _ \<Rightarrow> None)"
| "lock_step start act (Tick p) sh =
     (case sh_proc sh p of
        Ready \<Rightarrow> None
      | Waiting op \<Rightarrow>
          if sh_holder sh = None then Some ((set_proc p (Inside True op (start op)) sh)\<lparr>sh_holder := Some p\<rparr>) else None
      | Inside locked op pc \<Rightarrow>
          (case act pc (sh_mem sh) of
             Fault \<Rightarrow> None
           | Go pc' m \<Rightarrow> Some ((set_proc p (Inside locked op pc') sh)\<lparr>sh_mem := m\<rparr>)
           | Exit r m \<Rightarrow> Some ((set_proc p (Leaving locked op r) sh)\<lparr>sh_mem := m, sh_log := sh_log sh @ [(op, r)]\<rparr>))
      | Leaving locked op r \<Rightarrow>
          Some ((set_proc p Ready sh)\<lparr>sh_holder := (if locked then None else sh_holder sh)\<rparr>))"

fun lock_run :: "('op \<Rightarrow> 'pc) \<Rightarrow> ('pc \<Rightarrow> 'm \<Rightarrow> ('pc, 'm, 'r) access) \<Rightarrow> 'op event list \<Rightarrow> ('op, 'pc, 'm, 'r) shared
    \<Rightarrow> ('op, 'pc, 'm, 'r) shared option" where
  "lock_run start act [] sh = Some sh"
| "lock_run start act (e # es) sh = do { sh' \<leftarrow> lock_step start act e sh; lock_run start act es sh' }"

definition fresh_shared :: "'m \<Rightarrow> ('op, 'pc, 'm, 'r) shared" where
  "fresh_shared m = \<lparr>sh_mem = m, sh_holder = None, sh_proc = (\<lambda>_. Ready), sh_log = []\<rparr>"

text \<open>The accesses of one process alone, and whole operations one after the other.\<close>

fun alone :: "('pc \<Rightarrow> 'm \<Rightarrow> ('pc, 'm, 'r) access) \<Rightarrow> nat \<Rightarrow> 'pc \<Rightarrow> 'm \<Rightarrow> ('r \<times> 'm) option" where
  "alone act 0 pc m = None"
| "alone act (Suc n) pc m = (case act pc m of Fault \<Rightarrow> None | Go pc' m' \<Rightarrow> alone act n pc' m' | Exit r m' \<Rightarrow> Some (r, m'))"

fun serial :: "('op \<Rightarrow> 'm \<Rightarrow> ('r \<times> 'm) option) \<Rightarrow> 'm \<Rightarrow> 'op list \<Rightarrow> ('r list \<times> 'm) option" where
  "serial atomic m [] = Some ([], m)"
| "serial atomic m (op # ops) = do {
     (r, m1) \<leftarrow> atomic op m;
     (rs, m2) \<leftarrow> serial atomic m1 ops;
     Some (r # rs, m2)
   }"

lemma serial_snoc:
  "serial atomic m (ops @ [op]) = do {
     (rs, m1) \<leftarrow> serial atomic m ops; (r, m2) \<leftarrow> atomic op m1; Some (rs @ [r], m2) }"
  by (induction ops arbitrary: m) (simp_all add: split_beta split: Option.bind_split)

text \<open>The lock file can always be opened, and only operations of the object are called.\<close>

fun event_ok :: "('op \<Rightarrow> bool) \<Rightarrow> 'op event \<Rightarrow> bool" where
  "event_ok allowed (Call p op) = allowed op"
| "event_ok allowed (Tick p) = True"
| "event_ok allowed (Open_Fails p) = False"

definition busy :: "('op, 'pc, 'm, 'r) shared \<Rightarrow> nat \<Rightarrow> bool" where
  "busy sh p \<longleftrightarrow> (case sh_proc sh p of Inside _ _ _ \<Rightarrow> True | Leaving _ _ _ \<Rightarrow> True | _ \<Rightarrow> False)"

text \<open>What the log and the memory of an interleaving are compared with.\<close>

definition serialised :: "('op \<Rightarrow> 'm \<Rightarrow> ('r \<times> 'm) option) \<Rightarrow> 'm \<Rightarrow> ('op, 'pc, 'm, 'r) shared \<Rightarrow> bool" where
  "serialised atomic m0 sh \<longleftrightarrow>
     (\<exists>m. serial atomic m0 (map fst (sh_log sh)) = Some (map snd (sh_log sh), m) \<and> ((\<forall>p. \<not> busy sh p) \<longrightarrow> sh_mem sh = m))
     \<and> (\<forall>p op r l. sh_proc sh p = Leaving l op r \<longrightarrow> sh_log sh \<noteq> [] \<and> last (sh_log sh) = (op, r))
     \<and> (\<forall>p q. busy sh p \<longrightarrow> busy sh q \<longrightarrow> p = q)"

text \<open>Every operation in progress can be completed, after steps of at most one other process.\<close>

definition completable :: "('op \<Rightarrow> 'pc) \<Rightarrow> ('pc \<Rightarrow> 'm \<Rightarrow> ('pc, 'm, 'r) access) \<Rightarrow> ('op, 'pc, 'm, 'r) shared \<Rightarrow> bool" where
  "completable start act sh \<longleftrightarrow> (\<forall>p. sh_proc sh p \<noteq> Ready \<longrightarrow>
     (\<exists>q k j sh'. lock_run start act (replicate k (Tick q) @ replicate j (Tick p)) sh = Some sh' \<and> sh_proc sh' p = Ready))"

section \<open>Locked objects\<close>

text \<open>The law of an object's operations: run alone, the accesses of an operation end after finitely many
  steps with the result and the memory of the whole operation, which keeps the object's invariant.\<close>

locale locked_object =
  fixes start :: "'op \<Rightarrow> 'pc"
    and act :: "'pc \<Rightarrow> 'm \<Rightarrow> ('pc, 'm, 'r) access"
    and atomic :: "'op \<Rightarrow> 'm \<Rightarrow> ('r \<times> 'm) option"
    and allowed :: "'op \<Rightarrow> bool"
    and ok :: "'m \<Rightarrow> bool"
  assumes critical: "ok m \<Longrightarrow> allowed op \<Longrightarrow> \<exists>n r m'. alone act n (start op) m = Some (r, m') \<and> atomic op m = Some (r, m') \<and> ok m'"
begin

text \<open>The invariant: \<open>m\<close> is the memory after the logged operations; a process inside holds the lock, and
  what is left of its accesses ends like the whole operation on \<open>m\<close>.\<close>

definition proc_ok :: "'m \<Rightarrow> ('op, 'pc, 'm, 'r) shared \<Rightarrow> nat \<Rightarrow> bool" where
  "proc_ok m sh p \<longleftrightarrow> (case sh_proc sh p of
     Ready \<Rightarrow> True
   | Waiting op \<Rightarrow> allowed op
   | Inside l op pc \<Rightarrow> l \<and> sh_holder sh = Some p \<and> allowed op
       \<and> (\<exists>n r m'. alone act n pc (sh_mem sh) = Some (r, m') \<and> atomic op m = Some (r, m') \<and> ok m')
   | Leaving l op r \<Rightarrow> l \<and> sh_holder sh = Some p \<and> sh_mem sh = m \<and> sh_log sh \<noteq> [] \<and> last (sh_log sh) = (op, r))"

definition lin :: "'m \<Rightarrow> 'm \<Rightarrow> ('op, 'pc, 'm, 'r) shared \<Rightarrow> bool" where
  "lin m0 m sh \<longleftrightarrow> serial atomic m0 (map fst (sh_log sh)) = Some (map snd (sh_log sh), m) \<and> ok m
     \<and> (\<forall>x \<in> set (sh_log sh). allowed (fst x))
     \<and> (\<forall>p. proc_ok m sh p) \<and> (\<forall>p. sh_holder sh = Some p \<longrightarrow> busy sh p) \<and> ((\<forall>p. \<not> busy sh p) \<longrightarrow> sh_mem sh = m)"

lemma busy_holder: "proc_ok m sh p \<Longrightarrow> busy sh p \<Longrightarrow> sh_holder sh = Some p"
  by (auto simp: proc_ok_def busy_def split: proc.splits)

lemma proc_ok_idle: "proc_ok m sh p \<Longrightarrow> \<not> busy sh p \<Longrightarrow> sh_proc sh' p = sh_proc sh p \<Longrightarrow> proc_ok m' sh' p"
  by (auto simp: proc_ok_def busy_def split: proc.splits)

lemma lin_others: "lin m0 m sh \<Longrightarrow> sh_holder sh = Some p \<Longrightarrow> q \<noteq> p \<Longrightarrow> \<not> busy sh q"
  using busy_holder [of m sh q] by (auto simp: lin_def)

lemma lin_busyI:
  assumes "serial atomic m0 (map fst (sh_log sh)) = Some (map snd (sh_log sh), m)" and "ok m"
    and "\<forall>x \<in> set (sh_log sh). allowed (fst x)" and "proc_ok m sh p"
    and "\<And>q. q \<noteq> p \<Longrightarrow> proc_ok m sh q" and "busy sh p" and "sh_holder sh = Some p"
  shows "lin m0 m sh"
proof -
  have "proc_ok m sh q" for q using assms(4,5) by (cases "q = p") auto
  with assms show ?thesis by (auto simp: lin_def)
qed

lemma lin_call:
  assumes "lin m0 m sh" and "allowed op" and "sh_proc sh p = Ready"
  shows "lin m0 m (set_proc p (Waiting op) sh)"
proof -
  have b: "busy (set_proc p (Waiting op) sh) q = busy sh q" for q using assms(3) by (simp add: busy_def set_proc_def)
  have "proc_ok m (set_proc p (Waiting op) sh) q" for q
  proof (cases "q = p")
    case False
    then have "proc_ok m (set_proc p (Waiting op) sh) q = proc_ok m sh q"
      by (cases "sh_proc sh q") (simp_all add: proc_ok_def set_proc_def)
    with assms(1) show ?thesis by (simp add: lin_def)
  qed (use assms(2) in \<open>simp add: proc_ok_def set_proc_def\<close>)
  with assms(1) show ?thesis by (simp add: lin_def b) (simp add: set_proc_def)
qed

lemma lin_enter:
  assumes "lin m0 m sh" and "sh_proc sh p = Waiting op" and "sh_holder sh = None"
  shows "lin m0 m ((set_proc p (Inside True op (start op)) sh)\<lparr>sh_holder := Some p\<rparr>)"
proof -
  let ?sh = "(set_proc p (Inside True op (start op)) sh)\<lparr>sh_holder := Some p\<rparr>"
  have idle: "\<not> busy sh q" for q using busy_holder [of m sh q] assms(1,3) by (auto simp: lin_def)
  have "proc_ok m sh p" using assms(1) by (simp add: lin_def)
  then have "allowed op" using assms(2) by (simp add: proc_ok_def)
  moreover have "sh_mem sh = m" "ok m" using assms(1) idle by (simp_all add: lin_def)
  ultimately have "proc_ok m ?sh p" using critical [of m op] by (simp add: proc_ok_def set_proc_def)
  moreover have "proc_ok m ?sh q" if "q \<noteq> p" for q
    by (rule proc_ok_idle [OF _ idle]) (use assms(1) that in \<open>auto simp: lin_def set_proc_def\<close>)
  moreover have "busy ?sh p" by (simp add: busy_def set_proc_def)
  ultimately show ?thesis using assms(1) by (intro lin_busyI [where p = p]) (simp_all add: lin_def set_proc_def)
qed

lemma lin_work:
  assumes "lin m0 m sh" and "sh_proc sh p = Inside l op pc" and "act pc (sh_mem sh) = Go pc' m1"
  shows "lin m0 m ((set_proc p (Inside l op pc') sh)\<lparr>sh_mem := m1\<rparr>)"
proof -
  let ?sh = "(set_proc p (Inside l op pc') sh)\<lparr>sh_mem := m1\<rparr>"
  have "proc_ok m sh p" using assms(1) by (simp add: lin_def)
  then obtain n r m' where i: "l" "sh_holder sh = Some p" "allowed op" "alone act n pc (sh_mem sh) = Some (r, m')"
      "atomic op m = Some (r, m')" "ok m'"
    using assms(2) by (auto simp: proc_ok_def)
  then obtain k where "alone act k pc' m1 = Some (r, m')" using assms(3) by (cases n) auto
  with i have "proc_ok m ?sh p" by (auto simp: proc_ok_def set_proc_def)
  moreover have "proc_ok m ?sh q" if "q \<noteq> p" for q
    by (rule proc_ok_idle [OF _ lin_others [OF assms(1) i(2) that]]) (use assms(1) that in \<open>auto simp: lin_def set_proc_def\<close>)
  moreover have "busy ?sh p" by (simp add: busy_def set_proc_def)
  ultimately show ?thesis using assms(1) i(2) by (intro lin_busyI [where p = p]) (simp_all add: lin_def set_proc_def)
qed

lemma lin_exit:
  assumes "lin m0 m sh" and "sh_proc sh p = Inside l op pc" and "act pc (sh_mem sh) = Exit r m1"
  shows "lin m0 m1 ((set_proc p (Leaving l op r) sh)\<lparr>sh_mem := m1, sh_log := sh_log sh @ [(op, r)]\<rparr>)"
proof -
  let ?sh = "(set_proc p (Leaving l op r) sh)\<lparr>sh_mem := m1, sh_log := sh_log sh @ [(op, r)]\<rparr>"
  have "proc_ok m sh p" using assms(1) by (simp add: lin_def)
  then obtain n r' m' where i: "l" "sh_holder sh = Some p" "allowed op" "alone act n pc (sh_mem sh) = Some (r', m')"
      "atomic op m = Some (r', m')" "ok m'"
    using assms(2) by (auto simp: proc_ok_def)
  then have e: "r' = r" "m' = m1" using assms(3) by (cases n; simp)+
  with i have "proc_ok m1 ?sh p" by (simp add: proc_ok_def set_proc_def)
  moreover have "proc_ok m1 ?sh q" if "q \<noteq> p" for q
    by (rule proc_ok_idle [OF _ lin_others [OF assms(1) i(2) that]]) (use assms(1) that in \<open>auto simp: lin_def set_proc_def\<close>)
  moreover have "busy ?sh p" by (simp add: busy_def set_proc_def)
  ultimately show ?thesis
    using assms(1) i(2,3,5,6) e by (intro lin_busyI [where p = p]) (simp_all add: lin_def set_proc_def serial_snoc)
qed

lemma lin_leave:
  assumes "lin m0 m sh" and "sh_proc sh p = Leaving l op r"
  shows "lin m0 m ((set_proc p Ready sh)\<lparr>sh_holder := (if l then None else sh_holder sh)\<rparr>)"
proof -
  let ?sh = "(set_proc p Ready sh)\<lparr>sh_holder := (if l then None else sh_holder sh)\<rparr>"
  have "proc_ok m sh p" using assms(1) by (simp add: lin_def)
  then have i: "l" "sh_holder sh = Some p" "sh_mem sh = m" using assms(2) by (auto simp: proc_ok_def)
  have "proc_ok m ?sh q" for q
  proof (cases "q = p")
    case False
    show ?thesis
      by (rule proc_ok_idle [OF _ lin_others [OF assms(1) i(2) False]]) (use assms(1) False in \<open>auto simp: lin_def set_proc_def\<close>)
  qed (simp add: proc_ok_def set_proc_def)
  then show ?thesis using assms(1) i unfolding lin_def by (auto simp: set_proc_def)
qed

lemma lin_step:
  assumes "lin m0 m sh" and "event_ok allowed e" and "lock_step start act e sh = Some sh'"
  shows "\<exists>m'. lin m0 m' sh'"
proof (cases e)
  case (Call p op)
  then show ?thesis using assms lin_call [OF assms(1)] by (auto split: proc.splits)
next
  case (Tick p)
  show ?thesis
  proof (cases "sh_proc sh p")
    case (Waiting op)
    then show ?thesis using assms(3) Tick lin_enter [OF assms(1) Waiting] by (auto split: if_splits)
  next
    case (Inside l op pc)
    then show ?thesis
      using assms(3) Tick lin_work [OF assms(1) Inside] lin_exit [OF assms(1) Inside] by (auto split: access.splits)
  next
    case (Leaving l op r)
    then show ?thesis using assms(3) Tick lin_leave [OF assms(1) Leaving] by auto
  qed (use assms(3) Tick in simp)
qed (use assms in simp)

lemma lin_run:
  "lin m0 m sh \<Longrightarrow> list_all (event_ok allowed) es \<Longrightarrow> lock_run start act es sh = Some sh' \<Longrightarrow> \<exists>m'. lin m0 m' sh'"
  by (induction es arbitrary: m sh) (auto simp: bind_eq_Some_conv dest: lin_step)

lemma lin_fresh: "ok m0 \<Longrightarrow> lin m0 m0 (fresh_shared m0)"
  by (simp add: lin_def fresh_shared_def proc_ok_def busy_def)

lemma lin_serialised: "lin m0 m sh \<Longrightarrow> serialised atomic m0 sh"
proof -
  assume l: "lin m0 m sh"
  then have p: "proc_ok m sh q" for q by (simp add: lin_def)
  have "sh_log sh \<noteq> [] \<and> last (sh_log sh) = (op, r)" if "sh_proc sh q = Leaving l op r" for q op r l
    using p [of q] that by (simp add: proc_ok_def)
  moreover have "q = q'" if "busy sh q" "busy sh q'" for q q'
    using busy_holder [OF p that(1)] busy_holder [OF p that(2)] by simp
  ultimately show ?thesis using l unfolding serialised_def lin_def by blast
qed

text \<open>No deadlock: the holder of the lock finishes by steps of its own, and any waiting operation can then
  be completed.\<close>

lemma alone_ticks:
  assumes "sh_proc sh p = Inside l op pc" and "alone act n pc (sh_mem sh) = Some (r, m')"
  shows "\<exists>k sh'. lock_run start act (replicate k (Tick p)) sh = Some sh' \<and> sh_proc sh' p = Ready
    \<and> (\<forall>q. q \<noteq> p \<longrightarrow> sh_proc sh' q = sh_proc sh q) \<and> (l \<longrightarrow> sh_holder sh' = None)"
  using assms
proof (induction n arbitrary: sh pc)
  case (Suc n)
  show ?case
  proof (cases "act pc (sh_mem sh)")
    case (Go pc' m1)
    let ?sh = "(set_proc p (Inside l op pc') sh)\<lparr>sh_mem := m1\<rparr>"
    obtain k sh' where "lock_run start act (replicate k (Tick p)) ?sh = Some sh'" "sh_proc sh' p = Ready"
        "\<forall>q. q \<noteq> p \<longrightarrow> sh_proc sh' q = sh_proc ?sh q" "l \<longrightarrow> sh_holder sh' = None"
      using Suc.IH [of ?sh pc'] Suc.prems(2) Go by (auto simp: set_proc_def)
    then show ?thesis using Suc.prems(1) Go by (intro exI [of _ "Suc k"] exI [of _ sh']) (simp add: set_proc_def)
  next
    case (Exit r1 m1)
    then show ?thesis
      using Suc.prems by (intro exI [of _ 2]) (simp add: set_proc_def numeral_2_eq_2)
  qed (use Suc.prems in simp)
qed simp

lemma busy_finishes:
  assumes "lin m0 m sh" and "busy sh p"
  shows "\<exists>k sh'. lock_run start act (replicate k (Tick p)) sh = Some sh' \<and> sh_proc sh' p = Ready
    \<and> (\<forall>q. q \<noteq> p \<longrightarrow> sh_proc sh' q = sh_proc sh q) \<and> sh_holder sh' = None"
proof -
  have p: "proc_ok m sh p" using assms(1) by (simp add: lin_def)
  show ?thesis
  proof (cases "sh_proc sh p")
    case (Inside l op pc)
    then show ?thesis using p alone_ticks [OF Inside] by (auto simp: proc_ok_def)
  next
    case (Leaving l op r)
    then show ?thesis using p by (intro exI [of _ 1]) (simp add: proc_ok_def set_proc_def)
  qed (use assms(2) in \<open>simp_all add: busy_def\<close>)
qed

lemma waiting_finishes:
  assumes "lin m0 m sh" and "sh_proc sh p = Waiting op" and "sh_holder sh = None"
  shows "\<exists>k sh'. lock_run start act (replicate k (Tick p)) sh = Some sh' \<and> sh_proc sh' p = Ready"
proof -
  let ?sh = "(set_proc p (Inside True op (start op)) sh)\<lparr>sh_holder := Some p\<rparr>"
  have "busy ?sh p" by (simp add: busy_def set_proc_def)
  from busy_finishes [OF lin_enter [OF assms] this] obtain k sh' where
      "lock_run start act (replicate k (Tick p)) ?sh = Some sh'" "sh_proc sh' p = Ready" by blast
  with assms(2,3) show ?thesis by (intro exI [of _ "Suc k"] exI [of _ sh']) simp
qed

lemma lock_run_append: "lock_run start act (es @ es') sh = do { sh1 \<leftarrow> lock_run start act es sh; lock_run start act es' sh1 }"
  by (induction es arbitrary: sh) (simp_all split: Option.bind_split)

lemma can_finish:
  assumes "lin m0 m sh" and "sh_proc sh p \<noteq> Ready"
  shows "\<exists>q k j sh'. lock_run start act (replicate k (Tick q) @ replicate j (Tick p)) sh = Some sh' \<and> sh_proc sh' p = Ready"
proof (cases "busy sh p")
  case True
  obtain k sh' where k: "lock_run start act (replicate k (Tick p)) sh = Some sh'" "sh_proc sh' p = Ready"
    using busy_finishes [OF assms(1) True] by blast
  then have "lock_run start act (replicate k (Tick p) @ replicate 0 (Tick p)) sh = Some sh'" by simp
  with k(2) show ?thesis by blast
next
  case False
  then obtain op where w: "sh_proc sh p = Waiting op" using assms(2) by (cases "sh_proc sh p") (auto simp: busy_def)
  show ?thesis
  proof (cases "sh_holder sh")
    case None
    from waiting_finishes [OF assms(1) w None] obtain k sh' where
        k: "lock_run start act (replicate k (Tick p)) sh = Some sh'" "sh_proc sh' p = Ready" by blast
    then have "lock_run start act (replicate 0 (Tick p) @ replicate k (Tick p)) sh = Some sh'" by simp
    with k(2) show ?thesis by blast
  next
    case (Some q)
    then have b: "busy sh q" using assms(1) by (simp add: lin_def)
    with False have "q \<noteq> p" by auto
    with busy_finishes [OF assms(1) b] w obtain k sh1 where
        s: "lock_run start act (replicate k (Tick q)) sh = Some sh1" "sh_proc sh1 p = Waiting op" "sh_holder sh1 = None"
      by metis
    have "list_all (event_ok allowed) (replicate k (Tick q))" by (simp add: list_all_iff)
    from lin_run [OF assms(1) this s(1)] obtain m1 where "lin m0 m1 sh1" by blast
    from waiting_finishes [OF this s(2,3)] obtain j sh' where
        j: "lock_run start act (replicate j (Tick p)) sh1 = Some sh'" "sh_proc sh' p = Ready" by blast
    then have "lock_run start act (replicate k (Tick q) @ replicate j (Tick p)) sh = Some sh'"
      using s(1) by (simp add: lock_run_append)
    with j(2) show ?thesis by blast
  qed
qed

text \<open>Every interleaving has the results of the whole operations in the order of the log.\<close>

lemma interleaving_serialised:
  assumes "ok m0" and "list_all (event_ok allowed) es" and "lock_run start act es (fresh_shared m0) = Some sh"
  shows "serialised atomic m0 sh \<and> completable start act sh \<and> (\<forall>x \<in> set (sh_log sh). allowed (fst x))"
proof -
  obtain m where l: "lin m0 m sh" using lin_run [OF lin_fresh [OF assms(1)] assms(2,3)] by blast
  then have "\<forall>x \<in> set (sh_log sh). allowed (fst x)" by (simp add: lin_def)
  then show ?thesis using lin_serialised [OF l] can_finish [OF l] unfolding completable_def by blast
qed

end

end
