(* ===== verification/Shared_Objects.thy ===== *)
theory Shared_Objects
  imports Locking Buffer_Pool Desc_Ring Pod_Registry
begin

text \<open>
  The accesses to the shared memory and to the files that the operations of the buffer pools, the
  descriptor rings and the pod registry consist of, and what follows from running them under their
  locks: concurrent operations have the results of \<open>Buffer_Pool\<close>, \<open>Desc_Ring\<close> and \<open>Pod_Registry\<close> in some
  order. \<open>bp_flock\<close> and \<open>dr_flock\<close> let an operation run without the lock when the lock file cannot be
  opened; two interleavings show what then goes wrong.
\<close>

section \<open>Buffer pools\<close>

text \<open>\<open>bp_alloc\<close> reads the bitmap slot by slot and marks the first free one; \<open>bp_free\<close> clears one byte, and
  takes the lock only for a slot of the pool.\<close>

datatype pool_op = Alloc_Slot | Free_Slot int

datatype pool_pc = Scan_Slot nat | Mark_Slot nat | Clear_Slot nat

fun pool_start :: "pool_op \<Rightarrow> pool_pc" where
  "pool_start Alloc_Slot = Scan_Slot 0"
| "pool_start (Free_Slot s) = Clear_Slot (nat s)"

fun pool_act :: "pool_pc \<Rightarrow> buffer_pool \<Rightarrow> (pool_pc, buffer_pool, int) access" where
  "pool_act (Scan_Slot i) bp =
     (if i < bp_num_slots bp then
        if length (bp_bitmap bp) \<le> i then Fault
        else if bp_bitmap bp ! i = 0 then Go (Mark_Slot i) bp else Go (Scan_Slot (Suc i)) bp
      else Exit (-1) bp)"
| "pool_act (Mark_Slot i) bp =
     (if length (bp_bitmap bp) \<le> i then Fault else Exit (int i) (bp\<lparr>bp_bitmap := (bp_bitmap bp)[i := 1]\<rparr>))"
| "pool_act (Clear_Slot i) bp =
     (if length (bp_bitmap bp) \<le> i then Fault else Exit 0 (bp\<lparr>bp_bitmap := (bp_bitmap bp)[i := 0]\<rparr>))"

fun pool_atomic :: "pool_op \<Rightarrow> buffer_pool \<Rightarrow> (int \<times> buffer_pool) option" where
  "pool_atomic Alloc_Slot bp = Some (bp_alloc bp)"
| "pool_atomic (Free_Slot s) bp = Some (0, bp_free bp s)"

fun pool_allowed :: "pool_op \<Rightarrow> bool" where
  "pool_allowed Alloc_Slot = True"
| "pool_allowed (Free_Slot s) \<longleftrightarrow> 0 \<le> s \<and> s < int DPUMESH_NUM_SLOTS"

definition pool_shared :: "buffer_pool \<Rightarrow> bool" where
  "pool_shared bp \<longleftrightarrow> bp_inv bp \<and> bp_num_slots bp = DPUMESH_NUM_SLOTS"

lemma scan_alone:
  assumes "length (bp_bitmap bp) = bp_num_slots bp" and "i + k = bp_num_slots bp"
  shows "\<exists>n. alone pool_act n (Scan_Slot i) bp =
    Some (case first_zero (drop i (bp_bitmap bp)) of
      None \<Rightarrow> (-1, bp) | Some j \<Rightarrow> (int (i + j), bp\<lparr>bp_bitmap := (bp_bitmap bp)[i + j := 1]\<rparr>))"
  using assms(2)
proof (induction k arbitrary: i)
  case 0
  then show ?case using assms(1) by (intro exI [of _ 1]) simp
next
  case (Suc k)
  have d: "drop i (bp_bitmap bp) = bp_bitmap bp ! i # drop (Suc i) (bp_bitmap bp)"
    using Suc.prems assms(1) by (simp add: Cons_nth_drop_Suc)
  show ?case
  proof (cases "bp_bitmap bp ! i = 0")
    case True
    then show ?thesis using Suc.prems assms(1) by (intro exI [of _ "Suc (Suc 0)"]) (simp add: d)
  next
    case False
    obtain n where "alone pool_act n (Scan_Slot (Suc i)) bp = Some (case first_zero (drop (Suc i) (bp_bitmap bp)) of
        None \<Rightarrow> (-1, bp) | Some j \<Rightarrow> (int (Suc i + j), bp\<lparr>bp_bitmap := (bp_bitmap bp)[Suc i + j := 1]\<rparr>))"
      using Suc.IH [of "Suc i"] Suc.prems by auto
    with False show ?thesis
      using Suc.prems assms(1) by (intro exI [of _ "Suc n"]) (auto simp: d split: option.splits)
  qed
qed

interpretation locked_pool: locked_object pool_start pool_act pool_atomic pool_allowed pool_shared
proof
  fix bp op
  assume a: "pool_shared bp" "pool_allowed op"
  have l: "length (bp_bitmap bp) = bp_num_slots bp" using a(1) by (simp add: pool_shared_def bp_inv_def)
  show "\<exists>n r m'. alone pool_act n (pool_start op) bp = Some (r, m') \<and> pool_atomic op bp = Some (r, m') \<and> pool_shared m'"
  proof (cases op)
    case Alloc_Slot
    obtain r bp' where r: "bp_alloc bp = (r, bp')" by (rule prod.exhaust)
    have "pool_shared bp'"
      using a(1) pool.alloc_inv [of bp r bp'] r by (auto simp: pool_shared_def bp_alloc_def split: option.splits)
    with scan_alone [OF l, of 0] l r Alloc_Slot show ?thesis by (auto simp: bp_alloc_def split: option.splits)
  next
    case (Free_Slot s)
    have "pool_shared (bp_free bp s)" using a(1) pool.release_inv [of bp s] by (simp add: pool_shared_def bp_free_def)
    with l a Free_Slot show ?thesis
      by (intro exI [of _ 1] exI [of _ 0] exI [of _ "bp_free bp s"]) (auto simp: bp_free_def pool_shared_def)
  qed
qed

section \<open>Descriptor rings\<close>

text \<open>Both operations first load the three header words and store all three back at the end. The result is
  the code of \<open>dr_put\<close> or the descriptor \<open>dr_get\<close> copied out.\<close>

datatype ring_res = Put_Code int | Get_Desc "sw_descriptor option"

datatype ring_pc =
    Load_Head "sw_descriptor queue_op"
  | Load_Tail "sw_descriptor queue_op" "32 word"
  | Load_Count "sw_descriptor queue_op" "32 word" "32 word"
  | Copy_In sw_descriptor "32 word" "32 word" "32 word"
  | Copy_Out "32 word" "32 word" "32 word"
  | Store_Head "32 word" "32 word" "32 word" ring_res
  | Store_Tail "32 word" "32 word" ring_res
  | Store_Count "32 word" ring_res

fun ring_act :: "ring_pc \<Rightarrow> desc_ring \<Rightarrow> (ring_pc, desc_ring, ring_res) access" where
  "ring_act (Load_Head op) dr = Go (Load_Tail op (dr_head dr)) dr"
| "ring_act (Load_Tail op h) dr = Go (Load_Count op h (dr_tail dr)) dr"
| "ring_act (Load_Count (Put d) h t) dr =
     (if dr_count dr \<ge> of_nat (dr_max_descs dr) then Exit (Put_Code (-1)) dr else Go (Copy_In d h t (dr_count dr)) dr)"
| "ring_act (Load_Count Get h t) dr =
     (if dr_count dr = 0 then Exit (Get_Desc None) dr else Go (Copy_Out h t (dr_count dr)) dr)"
| "ring_act (Copy_In d h t c) dr =
     (if length (dr_descs dr) \<le> cell_of t then Fault
      else Go (Store_Head h ((t + 1) mod of_nat (dr_max_descs dr)) (c + 1) (Put_Code 0))
             (dr\<lparr>dr_descs := (dr_descs dr)[cell_of t := d]\<rparr>))"
| "ring_act (Copy_Out h t c) dr =
     (if length (dr_descs dr) \<le> cell_of h then Fault
      else Go (Store_Head ((h + 1) mod of_nat (dr_max_descs dr)) t (c - 1) (Get_Desc (Some (dr_descs dr ! cell_of h)))) dr)"
| "ring_act (Store_Head h t c r) dr = Go (Store_Tail t c r) (dr\<lparr>dr_head := h\<rparr>)"
| "ring_act (Store_Tail t c r) dr = Go (Store_Count c r) (dr\<lparr>dr_tail := t\<rparr>)"
| "ring_act (Store_Count c r) dr = Exit r (dr\<lparr>dr_count := c\<rparr>)"

fun ring_atomic :: "sw_descriptor queue_op \<Rightarrow> desc_ring \<Rightarrow> (ring_res \<times> desc_ring) option" where
  "ring_atomic (Put d) dr = map_option (\<lambda>(rc, dr'). (Put_Code rc, dr')) (dr_put dr d)"
| "ring_atomic Get dr = map_option (\<lambda>(x, dr'). (Get_Desc x, dr')) (dr_get dr)"

lemma put_alone:
  assumes "dr_put dr d = Some (rc, dr')"
  shows "\<exists>n. alone ring_act n (Load_Head (Put d)) dr = Some (Put_Code rc, dr')"
proof (cases "dr_count dr \<ge> of_nat (dr_max_descs dr)")
  case True
  then show ?thesis using assms by (intro exI [of _ 3]) (simp add: dr_put_def numeral_eq_Suc)
next
  case False
  then show ?thesis using assms by (intro exI [of _ 7]) (simp add: dr_put_def numeral_eq_Suc split: if_splits)
qed

lemma get_alone:
  assumes "dr_get dr = Some (x, dr')"
  shows "\<exists>n. alone ring_act n (Load_Head Get) dr = Some (Get_Desc x, dr')"
proof (cases "dr_count dr = 0")
  case True
  then show ?thesis using assms by (intro exI [of _ 3]) (simp add: dr_get_def numeral_eq_Suc)
next
  case False
  then show ?thesis using assms by (intro exI [of _ 7]) (simp add: dr_get_def numeral_eq_Suc split: if_splits)
qed

interpretation locked_ring: locked_object Load_Head ring_act ring_atomic "\<lambda>_. True" dr_inv
proof
  fix dr and op :: "sw_descriptor queue_op"
  assume i: "dr_inv dr"
  show "\<exists>n r m'. alone ring_act n (Load_Head op) dr = Some (r, m') \<and> ring_atomic op dr = Some (r, m') \<and> dr_inv m'"
  proof (cases op)
    case (Put d)
    obtain rc dr' where p: "dr_put dr d = Some (rc, dr')" "dr_inv dr'" using ring_total [OF i, of d] by blast
    then show ?thesis using put_alone [OF p(1)] Put by simp
  next
    case Get
    obtain x dr' where p: "dr_get dr = Some (x, dr')" "dr_inv dr'" using ring_total [OF i] by blast
    then show ?thesis using get_alone [OF p(1)] Get by simp
  qed
qed

section \<open>The pod registry\<close>

text \<open>The counter and the registry file are read and then rewritten, each under a lock of its own that
  the operation cannot do without.\<close>

datatype counter_pc = Read_Counter file_ops | Write_Counter file_ops int

fun counter_act :: "counter_pc \<Rightarrow> pod_files \<Rightarrow> (counter_pc, pod_files, int) access" where
  "counter_act (Read_Counter fo) fs =
     Go (Write_Counter fo (case (if fo_read fo then pf_counter fs else None) of
           None \<Rightarrow> 1
         | Some t \<Rightarrow> (case scan_int t of None \<Rightarrow> 1 | Some cur \<Rightarrow> i32 (cur + 1)))) fs"
| "counter_act (Write_Counter fo new_id) fs =
     Exit new_id (if fo_write fo then fs\<lparr>pf_counter := Some (show_int new_id)\<rparr> else fs)"

definition counter_atomic :: "file_ops \<Rightarrow> pod_files \<Rightarrow> (int \<times> pod_files) option" where
  "counter_atomic fo fs = Some (pod_registry_alloc_id fo fs)"

datatype registry_op = Register_Pod file_ops string int string

datatype registry_pc = Read_Registry registry_op | Write_Registry file_ops string

fun registry_act :: "registry_pc \<Rightarrow> pod_files \<Rightarrow> (registry_pc, pod_files, int) access" where
  "registry_act (Read_Registry (Register_Pod fo worker_name pod_id service)) fs =
     (let buf = (case (if fo_read fo then pf_registry fs else None) of
                   None \<Rightarrow> ''{}''
                 | Some t \<Rightarrow> takeWhile (\<lambda>c. c \<noteq> NUL) (take (REG_SIZE - 1) t));
          buf' = (case before_last buf CHR ''}'' of None \<Rightarrow> buf | Some s \<Rightarrow> s);
          has_entries = (CHR '':'' \<in> set buf')
      in Go (Write_Registry fo (fst (snprintf REG_SIZE
           (buf' @ (if has_entries then '', '' else []) @ reg_entry worker_name pod_id service @ ''}'')))) fs)"
| "registry_act (Write_Registry fo newbuf) fs =
     Exit 0 (if fo_write fo then fs\<lparr>pf_registry := Some newbuf\<rparr> else fs)"

fun registry_atomic :: "registry_op \<Rightarrow> pod_files \<Rightarrow> (int \<times> pod_files) option" where
  "registry_atomic (Register_Pod fo w p s) fs = Some (pod_registry_register fo fs w p s)"

text \<open>The files can be opened.\<close>

fun registry_files_ok :: "registry_op \<Rightarrow> bool" where
  "registry_files_ok (Register_Pod fo w p s) \<longleftrightarrow> fo = files_ok"

lemma counter_alone: "fo_lock fo \<Longrightarrow> \<exists>n r m'. alone counter_act n (Read_Counter fo) fs = Some (r, m') \<and> counter_atomic fo fs = Some (r, m')"
  by (intro exI [of _ "2 :: nat"]) (simp add: numeral_2_eq_2 counter_atomic_def pod_registry_alloc_id_def Let_def)

interpretation locked_counter: locked_object Read_Counter counter_act counter_atomic "\<lambda>fo. fo = files_ok" "\<lambda>_. True"
proof
  fix fs and fo :: file_ops
  assume "fo = files_ok"
  then show "\<exists>n r m'. alone counter_act n (Read_Counter fo) fs = Some (r, m') \<and> counter_atomic fo fs = Some (r, m') \<and> True"
    using counter_alone [of fo fs] by (simp add: files_ok_def)
qed

interpretation locked_registry: locked_object Read_Registry registry_act registry_atomic registry_files_ok "\<lambda>_. True"
proof
  fix fs op
  assume "registry_files_ok op"
  then show "\<exists>n r m'. alone registry_act n (Read_Registry op) fs = Some (r, m') \<and> registry_atomic op fs = Some (r, m') \<and> True"
    by (intro exI [of _ "2 :: nat"]; cases op) (simp add: numeral_2_eq_2 pod_registry_register_def files_ok_def Let_def)
qed

section \<open>Concurrent operations\<close>

lemma pool_atomic_keeps: "pool_atomic op bp = Some (r, bp') \<Longrightarrow> bp_inv bp \<Longrightarrow> bp_inv bp'"
  using pool.alloc_inv [of bp r bp'] pool.release_inv by (cases op) auto

lemma used_nonneg: "s \<in> bp_used bp \<Longrightarrow> 0 \<le> s"
  by (auto simp: bp_used_def)

text \<open>A used slot is handed out again only after it was freed.\<close>

lemma serial_slot_owned:
  assumes "serial pool_atomic bp ops = Some (rs, bp')" and "bp_inv bp" and "s \<in> bp_used bp"
    and "j < length ops" and "ops ! j = Alloc_Slot" and "rs ! j = s"
  shows "\<exists>k < j. ops ! k = Free_Slot s"
  using assms
proof (induction ops arbitrary: bp rs j)
  case (Cons op ops)
  obtain r bp1 rs1 where a: "pool_atomic op bp = Some (r, bp1)" "serial pool_atomic bp1 ops = Some (rs1, bp')" "rs = r # rs1"
    using Cons.prems(1) by (auto simp: bind_eq_Some_conv)
  have i: "bp_inv bp1" by (rule pool_atomic_keeps [OF a(1) Cons.prems(2)])
  have "j \<noteq> 0"
  proof
    assume "j = 0"
    then have "bp_alloc bp = (s, bp1)" using Cons.prems a by simp
    from pool.alloc_cases [OF Cons.prems(2) this] Cons.prems(3) used_nonneg [OF Cons.prems(3)] show False by auto
  qed
  then obtain j' where j: "j = Suc j'" by (cases j) auto
  show ?case
  proof (cases "op = Free_Slot s")
    case False
    have "s \<in> bp_used bp1"
    proof (cases op)
      case Alloc_Slot
      then show ?thesis using pool.alloc_cases [OF Cons.prems(2), of r bp1] a(1) Cons.prems(3) by auto
    next
      case (Free_Slot t)
      then show ?thesis using pool.release_used [OF Cons.prems(2), of t] a(1) Cons.prems(3) False by auto
    qed
    from Cons.IH [OF a(2) i this] Cons.prems(4-6) a(3) j obtain k where "k < j'" "ops ! k = Free_Slot s" by auto
    then show ?thesis using j by (intro exI [of _ "Suc k"]) simp
  qed (use \<open>j \<noteq> 0\<close> in auto)
qed simp

lemma serial_alloc_free_alloc:
  assumes "serial pool_atomic bp ops = Some (rs, bp')" and "bp_inv bp" and "i < j" and "j < length ops"
    and "ops ! i = Alloc_Slot" and "rs ! i = s" and "0 \<le> s" and "ops ! j = Alloc_Slot" and "rs ! j = s"
  shows "\<exists>k. i < k \<and> k < j \<and> ops ! k = Free_Slot s"
  using assms
proof (induction ops arbitrary: bp rs i j)
  case (Cons op ops)
  obtain r bp1 rs1 where a: "pool_atomic op bp = Some (r, bp1)" "serial pool_atomic bp1 ops = Some (rs1, bp')" "rs = r # rs1"
    using Cons.prems(1) by (auto simp: bind_eq_Some_conv)
  have inv: "bp_inv bp1" by (rule pool_atomic_keeps [OF a(1) Cons.prems(2)])
  obtain j' where j: "j = Suc j'" using Cons.prems(3) by (cases j) auto
  show ?case
  proof (cases i)
    case 0
    then have "bp_alloc bp = (s, bp1)" using Cons.prems a by simp
    then have "s \<in> bp_used bp1" using pool.alloc_cases [OF Cons.prems(2), of s bp1] Cons.prems(7) by auto
    from serial_slot_owned [OF a(2) inv this] Cons.prems j a(3) obtain k where "k < j'" "ops ! k = Free_Slot s" by auto
    then show ?thesis using j 0 by (intro exI [of _ "Suc k"]) simp
  next
    case (Suc i')
    from Cons.IH [OF a(2) inv, of i' j'] Cons.prems Suc j a(3) obtain k where "i' < k" "k < j'" "ops ! k = Free_Slot s" by auto
    then show ?thesis using j Suc by (intro exI [of _ "Suc k"]) simp
  qed
qed simp

text \<open>The outcomes of the ring operations as those of a queue.\<close>

fun ring_out :: "ring_res \<Rightarrow> sw_descriptor queue_out" where
  "ring_out (Put_Code rc) = (if rc < 0 then PutRefused else PutDone)"
| "ring_out (Get_Desc None) = Empty"
| "ring_out (Get_Desc (Some d)) = Got d"

lemma serial_ring_run:
  "serial ring_atomic dr ops = Some (rs, dr') \<Longrightarrow> dr_inv dr \<Longrightarrow>
    run_queue ring_put ring_get dr ops = (map ring_out rs, dr')"
proof (induction ops arbitrary: dr rs)
  case (Cons op ops)
  obtain r dr1 rs1 where a: "ring_atomic op dr = Some (r, dr1)" "serial ring_atomic dr1 ops = Some (rs1, dr')" "rs = r # rs1"
    using Cons.prems(1) by (auto simp: bind_eq_Some_conv)
  show ?case
  proof (cases op)
    case (Put d)
    obtain rc where p: "dr_put dr d = Some (rc, dr1)" "r = Put_Code rc" using a(1) Put by auto
    have "dr_inv dr1" "rc < 0 \<longrightarrow> dr1 = dr" using ring_total [OF Cons.prems(2), of d] p(1) by auto
    moreover have "ring_put dr d = (if rc < 0 then None else Some dr1)" using p(1) by (simp add: ring_put_def)
    ultimately show ?thesis using Cons.IH [OF a(2)] p(2) a(3) Put by (cases "rc < 0") simp_all
  next
    case Get
    obtain x where g: "dr_get dr = Some (x, dr1)" "r = Get_Desc x" using a(1) Get by auto
    have "dr_inv dr1" "x = None \<longrightarrow> dr1 = dr" using ring_total [OF Cons.prems(2)] g(1) by auto
    moreover have "ring_get dr = map_option (\<lambda>d. (d, dr1)) x" using g(1) by (simp add: ring_get_def split: option.split)
    ultimately show ?thesis using Cons.IH [OF a(2)] g(2) a(3) Get by (cases x) simp_all
  qed
qed simp

lemma serial_counter:
  "serial counter_atomic fs ops = Some (is, fs') \<Longrightarrow> \<forall>fo \<in> set ops. fo = files_ok \<Longrightarrow> alloc_ids (length ops) fs = (is, fs')"
  by (induction ops arbitrary: fs "is") (auto simp: bind_eq_Some_conv counter_atomic_def split: prod.splits)

fun registration :: "registry_op \<Rightarrow> string \<times> int \<times> string" where
  "registration (Register_Pod fo w p s) = (w, p, s)"

lemma serial_registry:
  "serial registry_atomic fs ops = Some (rs, fs') \<Longrightarrow> \<forall>op \<in> set ops. registry_files_ok op \<Longrightarrow>
    register_all fs (map registration ops) = fs'"
proof (induction ops arbitrary: fs rs)
  case (Cons op ops)
  then show ?case by (cases op) (auto simp: bind_eq_Some_conv split: prod.splits)
qed simp

section \<open>Properties\<close>

text \<open>C19. Workers that allocate and free slots of a pool at the same time, access by access and in any
  interleaving, get the results of whole operations in some order: never two of them hold the same slot,
  because a slot is handed out a second time only after it was freed. No operation can be stuck.\<close>

theorem concurrent_pool:
  assumes "pool_shared bp" and "list_all (event_ok pool_allowed) es"
    and "lock_run pool_start pool_act es (fresh_shared bp) = Some sh"
  shows "serialised pool_atomic bp sh \<and> completable pool_start pool_act sh
    \<and> (\<forall>i j s. i < j \<and> j < length (sh_log sh) \<and> sh_log sh ! i = (Alloc_Slot, s) \<and> sh_log sh ! j = (Alloc_Slot, s) \<and> 0 \<le> s
        \<longrightarrow> (\<exists>k. i < k \<and> k < j \<and> fst (sh_log sh ! k) = Free_Slot s))"
proof (intro conjI allI impI)
  note l = locked_pool.interleaving_serialised [OF assms]
  show "serialised pool_atomic bp sh" and "completable pool_start pool_act sh" using l by blast+
  fix i j s
  assume a: "i < j \<and> j < length (sh_log sh) \<and> sh_log sh ! i = (Alloc_Slot, s) \<and> sh_log sh ! j = (Alloc_Slot, s) \<and> 0 \<le> s"
  from l obtain m where "serial pool_atomic bp (map fst (sh_log sh)) = Some (map snd (sh_log sh), m)"
    by (auto simp: serialised_def)
  moreover have "bp_inv bp" using assms(1) by (simp add: pool_shared_def)
  ultimately have "\<exists>k. i < k \<and> k < j \<and> map fst (sh_log sh) ! k = Free_Slot s"
    by (rule serial_alloc_free_alloc) (use a in auto)
  then show "\<exists>k. i < k \<and> k < j \<and> fst (sh_log sh ! k) = Free_Slot s" using a by auto
qed

definition shared_demo_pool :: buffer_pool where
  "shared_demo_pool = (bp_handle ''dpumesh'' ''p'')\<lparr>bp_mapped := True, bp_bitmap := replicate 64 0,
     bp_data := replicate (64 * DPUMESH_SLOT_SIZE) NUL\<rparr>"

lemma shared_demo_pool: "pool_shared shared_demo_pool"
  by (simp add: pool_shared_def shared_demo_pool_def bp_inv_def bp_handle_def Let_def DPUMESH_NUM_SLOTS_def DPUMESH_SLOT_SIZE_def
      del: replicate.simps)

theorem concurrent_pool_witness:
  "\<exists>sh. lock_run pool_start pool_act [Call 0 Alloc_Slot, Call 1 Alloc_Slot, Tick 1, Tick 1, Tick 1, Tick 1, Tick 0, Tick 0]
     (fresh_shared shared_demo_pool) = Some sh \<and> sh_log sh = [(Alloc_Slot, 0)] \<and> serialised pool_atomic shared_demo_pool sh"
proof -
  have b: "bp_num_slots shared_demo_pool = 64" "bp_bitmap shared_demo_pool = replicate 64 0"
    by (simp_all add: shared_demo_pool_def bp_handle_def Let_def DPUMESH_NUM_SLOTS_def del: replicate.simps)
  let ?es = "[Call 0 Alloc_Slot, Call 1 Alloc_Slot, Tick 1, Tick 1, Tick 1, Tick 1, Tick 0, Tick 0]"
  obtain sh where sh: "lock_run pool_start pool_act ?es (fresh_shared shared_demo_pool) = Some sh" "sh_log sh = [(Alloc_Slot, 0)]"
    by (simp add: fresh_shared_def set_proc_def b del: replicate.simps)
  have "list_all (event_ok pool_allowed) ?es" by simp
  from concurrent_pool [OF shared_demo_pool this sh(1)] sh show ?thesis by blast
qed

text \<open>C20. Puts and gets of several processes on a ring, access by access and in any interleaving, have the
  outcomes of a first-in first-out queue of 512 descriptors in some order: what was delivered and what is
  left is what was queued and what was accepted, in order. No operation can be stuck.\<close>

theorem concurrent_ring:
  assumes "dr_inv dr" and "list_all (event_ok (\<lambda>_. True)) es"
    and "lock_run Load_Head ring_act es (fresh_shared dr) = Some sh"
  shows "\<exists>ys. run_queue (fifo_put 512) fifo_get (dr_list dr) (map fst (sh_log sh)) = (map (ring_out \<circ> snd) (sh_log sh), ys)
    \<and> delivered (map (ring_out \<circ> snd) (sh_log sh)) @ ys
        = dr_list dr @ accepted (map fst (sh_log sh)) (map (ring_out \<circ> snd) (sh_log sh))
    \<and> ((\<forall>p. \<not> busy sh p) \<longrightarrow> dr_list (sh_mem sh) = ys)
    \<and> serialised ring_atomic dr sh \<and> completable Load_Head ring_act sh"
proof -
  note l = locked_ring.interleaving_serialised [OF assms]
  then obtain m where m: "serial ring_atomic dr (map fst (sh_log sh)) = Some (map snd (sh_log sh), m)"
      "(\<forall>p. \<not> busy sh p) \<longrightarrow> sh_mem sh = m"
    by (auto simp: serialised_def)
  from ring.run_refines [OF assms(1) serial_ring_run [OF m(1) assms(1)]]
  have r: "run_queue (fifo_put 512) fifo_get (dr_list dr) (map fst (sh_log sh)) = (map (ring_out \<circ> snd) (sh_log sh), dr_list m)"
    by simp
  have "(\<forall>p. \<not> busy sh p) \<longrightarrow> dr_list (sh_mem sh) = dr_list m" using m(2) by simp
  with r fifo_conservation [OF r] l show ?thesis by (intro exI [of _ "dr_list m"] conjI) simp_all
qed

definition demo_ring :: desc_ring where
  "demo_ring = dr_reset (replicate 512 zero_descriptor)"

lemma demo_ring: "dr_inv demo_ring" "dr_list demo_ring = []"
  by (simp_all add: demo_ring_def dr_inv_def dr_list_def dr_reset_def DPUMESH_MAX_DESCRIPTORS_def)

theorem concurrent_ring_witness:
  "\<exists>sh. lock_run Load_Head ring_act [Call 0 Get, Call 1 (Put zero_descriptor), Tick 0, Tick 0, Tick 0, Tick 0]
     (fresh_shared demo_ring) = Some sh \<and> delivered (map (ring_out \<circ> snd) (sh_log sh)) = [] \<and> sh_log sh = [(Get, Get_Desc None)]"
proof -
  let ?es = "[Call 0 Get, Call 1 (Put zero_descriptor), Tick 0, Tick 0, Tick 0, Tick 0]"
  obtain sh where sh: "lock_run Load_Head ring_act ?es (fresh_shared demo_ring) = Some sh" "sh_log sh = [(Get, Get_Desc None)]"
    by (simp add: fresh_shared_def set_proc_def demo_ring_def dr_reset_def del: replicate.simps)
  have "list_all (event_ok (\<lambda>_. True)) ?es" by simp
  from concurrent_ring [OF demo_ring(1) this sh(1)] sh demo_ring(2) show ?thesis by auto
qed

text \<open>C21. Workers that start at the same time get consecutive, hence different, pod numbers, in whatever
  order their reads and writes of the counter file interleave, as long as the lock and the file can be opened and the
  counter stays below 2^31.\<close>

theorem concurrent_counter:
  assumes "counter_is fs c" and "0 \<le> c" and "list_all (event_ok (\<lambda>fo. fo = files_ok)) es"
    and "lock_run Read_Counter counter_act es (fresh_shared fs) = Some sh" and "c + int (length (sh_log sh)) < 2 ^ 31"
  shows "map snd (sh_log sh) = [c + 1 .. c + int (length (sh_log sh))] \<and> distinct (map snd (sh_log sh))
    \<and> serialised counter_atomic fs sh \<and> completable Read_Counter counter_act sh"
proof -
  note l = locked_counter.interleaving_serialised [OF TrueI assms(3,4)]
  then obtain m where m: "serial counter_atomic fs (map fst (sh_log sh)) = Some (map snd (sh_log sh), m)"
    by (auto simp: serialised_def)
  have "\<forall>fo \<in> set (map fst (sh_log sh)). fo = files_ok" using l by auto
  from serial_counter [OF m this] have "alloc_ids (length (sh_log sh)) fs = (map snd (sh_log sh), m)" by simp
  from alloc_ids_upto [OF assms(1,2,5) this] l show ?thesis by simp
qed

theorem concurrent_counter_witness:
  "\<exists>sh. lock_run Read_Counter counter_act [Call 0 files_ok, Call 1 files_ok, Tick 1, Tick 1, Tick 1, Tick 1, Tick 0, Tick 0, Tick 0]
      (fresh_shared \<lparr>pf_counter = None, pf_registry = None\<rparr>) = Some sh \<and> map snd (sh_log sh) = [1, 2]"
proof -
  let ?es = "[Call 0 files_ok, Call 1 files_ok, Tick 1, Tick 1, Tick 1, Tick 1, Tick 0, Tick 0, Tick 0]"
  let ?fs = "\<lparr>pf_counter = None, pf_registry = None\<rparr>"
  obtain sh where sh: "lock_run Read_Counter counter_act ?es (fresh_shared ?fs) = Some sh" "length (sh_log sh) = 2"
    by (simp add: fresh_shared_def set_proc_def files_ok_def split: option.splits)
  have "list_all (event_ok (\<lambda>fo. fo = files_ok)) ?es" by simp
  from concurrent_counter [OF _ _ this sh(1)] sh show ?thesis by (auto simp: counter_is_def upto.simps)
qed

text \<open>C22. Workers that register at the same time are all listed in the registry file, in the order their
  registrations ended, however the reads and writes of the file interleave, as long as the lock and the
  file can be opened and the text stays below 8192 bytes.\<close>

theorem concurrent_registry:
  assumes "registry_of fs []" and "list_all (event_ok registry_files_ok) es"
    and "lock_run Read_Registry registry_act es (fresh_shared fs) = Some sh" and "\<forall>p. \<not> busy sh p"
    and "\<forall>x \<in> set (sh_log sh). entry_plain (registration (fst x))"
    and "length (registry_text (map (registration \<circ> fst) (sh_log sh))) < REG_SIZE"
  shows "registry_of (sh_mem sh) (map (registration \<circ> fst) (sh_log sh))
    \<and> serialised registry_atomic fs sh \<and> completable Read_Registry registry_act sh"
proof -
  note l = locked_registry.interleaving_serialised [OF TrueI assms(2,3)]
  then have "serial registry_atomic fs (map fst (sh_log sh)) = Some (map snd (sh_log sh), sh_mem sh)"
    using assms(4) by (auto simp: serialised_def)
  moreover have "\<forall>op \<in> set (map fst (sh_log sh)). registry_files_ok op" using l by auto
  ultimately have "register_all fs (map (registration \<circ> fst) (sh_log sh)) = sh_mem sh"
    using serial_registry by fastforce
  moreover have "registry_of (register_all fs (map (registration \<circ> fst) (sh_log sh))) ([] @ map (registration \<circ> fst) (sh_log sh))"
    using assms(1,5,6) by (intro register_all_append) auto
  ultimately show ?thesis using l by simp
qed

theorem concurrent_registry_witness:
  "\<exists>sh. lock_run Read_Registry registry_act [Call 0 (Register_Pod files_ok ''a'' 1 ''fe''), Call 1 (Register_Pod files_ok ''b'' 2 ''id''),
        Tick 1, Tick 1, Tick 1, Tick 1, Tick 0, Tick 0, Tick 0, Tick 0] (fresh_shared \<lparr>pf_counter = None, pf_registry = None\<rparr>) = Some sh
     \<and> registry_of (sh_mem sh) [(''b'', 2, ''id''), (''a'', 1, ''fe'')]"
proof -
  let ?es = "[Call 0 (Register_Pod files_ok ''a'' 1 ''fe''), Call 1 (Register_Pod files_ok ''b'' 2 ''id''),
        Tick 1, Tick 1, Tick 1, Tick 1, Tick 0, Tick 0, Tick 0, Tick 0]"
  let ?fs = "\<lparr>pf_counter = None, pf_registry = None\<rparr>"
  let ?log = "[(Register_Pod files_ok ''b'' 2 ''id'', 0), (Register_Pod files_ok ''a'' 1 ''fe'', 0)]"
  obtain sh where sh: "lock_run Read_Registry registry_act ?es (fresh_shared ?fs) = Some sh" "sh_log sh = ?log" "\<forall>p. \<not> busy sh p"
    by (simp add: fresh_shared_def set_proc_def busy_def Let_def)
  have "list_all (event_ok registry_files_ok) ?es" by simp
  from concurrent_registry [OF _ this sh(1,3)] sh show ?thesis
    by (auto simp: registry_of_def entry_plain_def plain_def registry_text_def reg_entry_def REG_SIZE_def show_int_def show_nat.simps)
qed

text \<open>C38. When the lock file cannot be opened, \<open>bp_flock\<close> returns -1 and the allocation goes on without the
  lock: two workers then get the same slot, although the other one holds the lock.\<close>

theorem unlocked_alloc_twice:
  assumes "pool_shared bp" and "bp_bitmap bp ! 0 = 0"
  shows "\<exists>sh. lock_run pool_start pool_act
      [Call 0 Alloc_Slot, Call 1 Alloc_Slot, Open_Fails 0, Tick 1, Tick 0, Tick 1, Tick 0, Tick 1] (fresh_shared bp) = Some sh
    \<and> sh_log sh = [(Alloc_Slot, 0), (Alloc_Slot, 0)]"
proof -
  have "0 < bp_num_slots bp" "length (bp_bitmap bp) = bp_num_slots bp"
    using assms(1) by (simp_all add: pool_shared_def bp_inv_def DPUMESH_NUM_SLOTS_def)
  with assms(2) show ?thesis by (simp add: fresh_shared_def set_proc_def)
qed

theorem unlocked_alloc_twice_witness:
  "\<exists>sh. lock_run pool_start pool_act
      [Call 0 Alloc_Slot, Call 1 Alloc_Slot, Open_Fails 0, Tick 1, Tick 0, Tick 1, Tick 0, Tick 1] (fresh_shared shared_demo_pool) = Some sh
    \<and> map snd (sh_log sh) = [0, 0]"
proof -
  have "bp_bitmap shared_demo_pool ! 0 = 0" by (simp add: shared_demo_pool_def)
  from unlocked_alloc_twice [OF shared_demo_pool this] show ?thesis by auto
qed

text \<open>A put that runs without the lock, because the lock file cannot be opened, stores back the head it
  loaded: a descriptor that was taken out meanwhile is delivered a second time.\<close>

theorem unlocked_put_redelivers:
  assumes "dr_inv dr" and "dr_count dr \<noteq> 0" and "dr_count dr < 512"
  shows "\<exists>sh d. lock_run Load_Head ring_act
      (Call 0 (Put x) # Open_Fails 0 # replicate 3 (Tick 0) @ Call 1 Get # replicate 9 (Tick 1)
        @ replicate 4 (Tick 0) @ Call 1 Get # replicate 8 (Tick 1)) (fresh_shared dr) = Some sh
    \<and> sh_log sh = [(Get, Get_Desc (Some d)), (Put x, Put_Code 0), (Get, Get_Desc (Some d))]"
proof -
  have b: "unat (dr_head dr) < 512" "unat (dr_tail dr) < 512" "unat (dr_count dr) < 512" "length (dr_descs dr) = 512" "dr_max_descs dr = 512"
    using assms by (simp_all add: dr_inv_def DPUMESH_MAX_DESCRIPTORS_def word_less_nat_alt)
  have c: "cell_of (dr_head dr) = unat (dr_head dr)" "cell_of (dr_tail dr) = unat (dr_tail dr)" using b by (simp_all add: cell_of_small)
  have "0 < unat (dr_count dr)" using assms(2) by (simp add: unat_gt_0)
  then have "unat (dr_tail dr) \<noteq> unat (dr_head dr)"
    using mod_512_neq [of 0 "unat (dr_count dr)" "unat (dr_head dr)"] assms(1) b by (simp add: dr_inv_def DPUMESH_MAX_DESCRIPTORS_def)
  moreover have "dr_count dr + 1 \<noteq> 0" using b(3) by (auto simp: unat_eq_zero [symmetric] unat_word_ariths)
  moreover have "\<not> 512 \<le> dr_count dr" using assms(3) by simp
  moreover have "replicate 3 e = [e, e, e]" "replicate 4 e = [e, e, e, e]" "replicate 8 e = [e, e, e, e, e, e, e, e]"
      "replicate 9 e = [e, e, e, e, e, e, e, e, e]" for e :: "sw_descriptor queue_op event"
    by (simp_all add: numeral_eq_Suc)
  ultimately show ?thesis using b c assms(2) by (simp add: fresh_shared_def set_proc_def)
qed

lemma one_queued: "dr_inv (demo_ring\<lparr>dr_tail := 1, dr_count := 1\<rparr>)"
  by (simp add: demo_ring_def dr_inv_def dr_reset_def DPUMESH_MAX_DESCRIPTORS_def)

theorem unlocked_put_redelivers_witness:
  "\<exists>sh d. lock_run Load_Head ring_act
      (Call 0 (Put zero_descriptor) # Open_Fails 0 # replicate 3 (Tick 0) @ Call 1 Get # replicate 9 (Tick 1)
        @ replicate 4 (Tick 0) @ Call 1 Get # replicate 8 (Tick 1)) (fresh_shared (demo_ring\<lparr>dr_tail := 1, dr_count := 1\<rparr>)) = Some sh
    \<and> map snd (sh_log sh) = [Get_Desc (Some d), Put_Code 0, Get_Desc (Some d)]"
proof -
  from unlocked_put_redelivers [OF one_queued, of zero_descriptor] obtain sh d where
    "lock_run Load_Head ring_act
      (Call 0 (Put zero_descriptor) # Open_Fails 0 # replicate 3 (Tick 0) @ Call 1 Get # replicate 9 (Tick 1)
        @ replicate 4 (Tick 0) @ Call 1 Get # replicate 8 (Tick 1)) (fresh_shared (demo_ring\<lparr>dr_tail := 1, dr_count := 1\<rparr>)) = Some sh"
    "sh_log sh = [(Get, Get_Desc (Some d)), (Put zero_descriptor, Put_Code 0), (Get, Get_Desc (Some d))]"
    by auto
  then show ?thesis by (intro exI [of _ sh] exI [of _ d]) simp
qed

end
