(* ===== verification/Pipes.thy ===== *)
theory Pipes
  imports C_Base
begin

text \<open>
  The pipes between the poller thread and the event loop of a worker, as far as \<open>common/dpumesh.c\<close>
  uses them: every write and every read is one whole descriptor, which is below \<open>PIPE_BUF\<close> and so
  atomic. A file descriptor table maps the open descriptors to the ends of pipes. A write to a pipe
  without a reader raises \<open>SIGPIPE\<close>, which ends the process: \<open>None\<close>. A write to a full pipe, or to
  a descriptor that is not the write end of a pipe, returns -1. A read from an empty pipe fails (with
  \<open>EAGAIN\<close>, or with 0 bytes when no writer is left).
\<close>

datatype pipe_end = Read_End nat | Write_End nat

record 'a pipes =
  pp_fds :: "(int \<times> pipe_end) list"
  pp_data :: "nat \<Rightarrow> 'a list"
  pp_next :: nat

text \<open>The default capacity of a Linux pipe, 64 KiB, in descriptors of 64 bytes.\<close>

definition PIPE_CAPACITY :: nat where "PIPE_CAPACITY = 1024"

definition no_pipes :: "'a pipes" where
  "no_pipes = \<lparr>pp_fds = [], pp_data = (\<lambda>_. []), pp_next = 0\<rparr>"

definition has_reader :: "'a pipes \<Rightarrow> nat \<Rightarrow> bool" where
  "has_reader ps k \<longleftrightarrow> Read_End k \<in> snd ` set (pp_fds ps)"

definition pipe_open :: "int \<Rightarrow> int \<Rightarrow> 'a pipes \<Rightarrow> 'a pipes" where
  "pipe_open r w ps =
     ps\<lparr>pp_fds := (r, Read_End (pp_next ps)) # (w, Write_End (pp_next ps)) # pp_fds ps,
        pp_data := (pp_data ps)(pp_next ps := []), pp_next := Suc (pp_next ps)\<rparr>"

definition pipe_close :: "int \<Rightarrow> 'a pipes \<Rightarrow> 'a pipes" where
  "pipe_close fd ps = ps\<lparr>pp_fds := filter (\<lambda>e. fst e \<noteq> fd) (pp_fds ps)\<rparr>"

definition pipe_write :: "int \<Rightarrow> 'a \<Rightarrow> 'a pipes \<Rightarrow> 'a pipes option" where
  "pipe_write fd x ps =
     (case map_of (pp_fds ps) fd of
        Some (Write_End k) \<Rightarrow>
          if \<not> has_reader ps k then None
          else if length (pp_data ps k) \<ge> PIPE_CAPACITY then Some ps
          else Some (ps\<lparr>pp_data := (pp_data ps)(k := pp_data ps k @ [x])\<rparr>)
      | _ \<Rightarrow> Some ps)"

definition pipe_read :: "int \<Rightarrow> 'a pipes \<Rightarrow> 'a option \<times> 'a pipes" where
  "pipe_read fd ps =
     (case map_of (pp_fds ps) fd of
        Some (Read_End k) \<Rightarrow>
          (case pp_data ps k of
             [] \<Rightarrow> (None, ps)
           | x # xs \<Rightarrow> (Some x, ps\<lparr>pp_data := (pp_data ps)(k := xs)\<rparr>))
      | _ \<Rightarrow> (None, ps))"

text \<open>The descriptors \<open>r\<close> and \<open>w\<close> are the two ends of one pipe.\<close>

definition pipe_ends :: "'a pipes \<Rightarrow> int \<Rightarrow> int \<Rightarrow> bool" where
  "pipe_ends ps r w \<longleftrightarrow>
     (\<exists>k. map_of (pp_fds ps) r = Some (Read_End k) \<and> map_of (pp_fds ps) w = Some (Write_End k))"

text \<open>What can be read from a descriptor.\<close>

definition pipe_contents :: "int \<Rightarrow> 'a pipes \<Rightarrow> 'a list" where
  "pipe_contents fd ps = (case map_of (pp_fds ps) fd of Some (Read_End k) \<Rightarrow> pp_data ps k | _ \<Rightarrow> [])"

lemma map_of_filter_fst: "map_of (filter (\<lambda>e. fst e \<noteq> k) xs) x = (if x = k then None else map_of xs x)"
  by (induction xs) auto

lemma map_of_pipe_close: "map_of (pp_fds (pipe_close fd ps)) x = (if x = fd then None else map_of (pp_fds ps) x)"
  by (simp add: pipe_close_def map_of_filter_fst)

lemma has_reader_fd: "map_of (pp_fds ps) r = Some (Read_End k) \<Longrightarrow> has_reader ps k"
  unfolding has_reader_def by (force dest: map_of_SomeD)

lemma pipe_write_ends:
  assumes "map_of (pp_fds ps) r = Some (Read_End k)" and "map_of (pp_fds ps) w = Some (Write_End k)"
  shows "pipe_write w x ps = Some (if length (pp_data ps k) \<ge> PIPE_CAPACITY then ps
    else ps\<lparr>pp_data := (pp_data ps)(k := pp_data ps k @ [x])\<rparr>)"
  using assms has_reader_fd [OF assms(1)] by (simp add: pipe_write_def)

lemma pipe_read_contents:
  "pipe_read fd ps = (case pipe_contents fd ps of
     [] \<Rightarrow> (None, ps)
   | x # xs \<Rightarrow> (Some x, snd (pipe_read fd ps)))"
  by (auto simp: pipe_read_def pipe_contents_def split: option.splits pipe_end.splits list.splits)

lemma pipe_contents_read:
  "pipe_contents fd ps = x # xs \<Longrightarrow> fst (pipe_read fd ps) = Some x \<and> pipe_contents fd (snd (pipe_read fd ps)) = xs
     \<and> pp_fds (snd (pipe_read fd ps)) = pp_fds ps"
  by (auto simp: pipe_read_def pipe_contents_def split: option.splits pipe_end.splits list.splits)

lemma pipe_contents_empty: "pipe_contents fd ps = [] \<Longrightarrow> pipe_read fd ps = (None, ps)"
  by (subst pipe_read_contents) simp

lemma pipe_fds_write: "pipe_write fd x ps = Some ps' \<Longrightarrow> pp_fds ps' = pp_fds ps"
  by (auto simp: pipe_write_def split: option.splits pipe_end.splits if_splits)

lemma pipe_contents_close:
  "pipe_contents x (pipe_close fd ps) = (if x = fd then [] else pipe_contents x ps)"
  by (auto simp: pipe_contents_def map_of_filter_fst pipe_close_def split: option.splits pipe_end.splits)

end
