(* ===== verification/Dpumesh.thy ===== *)
theory Dpumesh
  imports Buffer_Pool Desc_Ring Header_Json Pipes Pod_Registry
begin

text \<open>
  The messaging library \<open>common/dpumesh.c\<close> of a worker: its context, the poller thread, sending
  (\<open>dpumesh_write\<close>), receiving requests (\<open>dpumesh_read\<close>) and responses (\<open>dpumesh_read_response\<close>).

  The context holds the mapped pools and rings, the tables indexed by \<open>req_id % 256\<close> and, beyond the
  fields of \<open>struct dpumesh_ctx\<close>, what the process shares with it: its pipes and the static text
  buffers of \<open>dpumesh_read\<close>. The other side of the shared memory, the daemons of the mesh, moves
  messages from the TX to the RX objects; here it appears only as what the RX objects hold. As in
  the other theories an outcome \<open>None\<close> is undefined behaviour or the end of the process.
\<close>

unbundle bit_operations_syntax

definition DPUMESH_MAX_PENDING :: nat where "DPUMESH_MAX_PENDING = 256"
definition CASE_INGRESS :: "8 word" where "CASE_INGRESS = 2"
definition CASE_LOCAL :: "8 word" where "CASE_LOCAL = 3"
definition OP_REQUEST :: "8 word" where "OP_REQUEST = 0x00"
definition OP_RESPONSE :: "8 word" where "OP_RESPONSE = 0x10"
definition POOL_HOST_TX_HEADER :: "8 word" where "POOL_HOST_TX_HEADER = 1"
definition POOL_HOST_TX_BODY :: "8 word" where "POOL_HOST_TX_BODY = 2"

definition DPUMESH_MSG_REQUEST :: int where "DPUMESH_MSG_REQUEST = 0"
definition DPUMESH_MSG_RESPONSE :: int where "DPUMESH_MSG_RESPONSE = 1"

record dpumesh_response =
  rs_status_code :: int
  rs_body :: "char list option"
  rs_body_len :: nat
  rs_req_id_str :: string
  rs_source_worker :: string
  rs_header_slot :: int
  rs_body_slot :: int

record dpumesh_request =
  rq_method :: "string option"
  rq_path :: "string option"
  rq_body :: "char list option"
  rq_body_len :: nat
  rq_query_string :: "string option"
  rq_req_id_str :: string
  rq_source_worker :: string
  rq_dest_worker :: string
  rq_req_id :: u32
  rq_src_pod_id :: int
  rq_header_slot :: int
  rq_body_slot :: int
  rq_case_flag :: "8 word"
  rq_desc_index :: nat

record dpumesh_inbound =
  ib_req_id :: u32
  ib_req_id_str :: string
  ib_source_worker :: string
  ib_case_flag :: "8 word"
  ib_active :: bool

text \<open>A message to write; the original request of a response is only used for its \<open>_desc_index\<close>.\<close>

record dpumesh_msg =
  m_type :: int
  m_method :: "string option"
  m_url :: "string option"
  m_status_code :: int
  m_orig_index :: nat
  m_body :: "char list option"
  m_body_len :: nat

record dpumesh_ctx =
  cx_app_name :: string
  cx_worker_id :: string
  cx_pod_id :: int
  cx_notify_fd :: int
  cx_notify_write_fd :: int
  cx_poller_running :: bool
  cx_next_req_id :: u32
  cx_response_pipe_fds :: "int list"
  cx_inbound :: "dpumesh_inbound list"
  cx_tx_header :: buffer_pool
  cx_tx_body :: buffer_pool
  cx_rx_header :: buffer_pool
  cx_rx_body :: buffer_pool
  cx_tx_sq :: desc_ring
  cx_rx_sq :: desc_ring
  cx_pipes :: "sw_descriptor pipes"
  cx_method_buf :: string
  cx_path_buf :: string
  cx_qs_buf :: string

definition pending_index :: "u32 \<Rightarrow> nat" where
  "pending_index rid = unat rid mod DPUMESH_MAX_PENDING"

section \<open>The poller thread\<close>

definition is_response :: "sw_descriptor \<Rightarrow> bool" where
  "is_response desc \<longleftrightarrow> flags desc AND 0xF0 = OP_RESPONSE"

text \<open>A descriptor taken from the ring goes to the pipe of the waiting caller or to the event loop.\<close>

definition poller_deliver :: "dpumesh_ctx \<Rightarrow> sw_descriptor \<Rightarrow> dpumesh_ctx option" where
  "poller_deliver cx desc =
     (if valid desc \<noteq> 1 then Some cx
      else if is_response desc then
        let idx = pending_index (req_id desc); wfd = cx_response_pipe_fds cx ! idx
        in if wfd \<ge> 0 then do {
             ps \<leftarrow> pipe_write wfd desc (cx_pipes cx);
             Some (cx\<lparr>cx_pipes := pipe_close wfd ps,
                      cx_response_pipe_fds := (cx_response_pipe_fds cx)[idx := -1]\<rparr>)
           }
           else Some cx
      else do {
        ps \<leftarrow> pipe_write (cx_notify_write_fd cx) desc (cx_pipes cx);
        Some (cx\<lparr>cx_pipes := ps\<rparr>)
      })"

text \<open>One iteration of the loop of \<open>dpumesh_poller_fn\<close>; an empty ring only makes it sleep.\<close>

definition dpumesh_poller_step :: "dpumesh_ctx \<Rightarrow> dpumesh_ctx option" where
  "dpumesh_poller_step cx =
     (if \<not> cx_poller_running cx then Some cx
      else do {
        (r, sq) \<leftarrow> dr_get (cx_rx_sq cx);
        case r of
          None \<Rightarrow> Some cx
        | Some desc \<Rightarrow> poller_deliver (cx\<lparr>cx_rx_sq := sq\<rparr>) desc
      })"

section \<open>Sending\<close>

text \<open>The path and the query of a URL, as the request branch of \<open>dpumesh_write\<close> takes them.\<close>

definition url_path :: "string \<Rightarrow> string" where
  "url_path url =
     (case strstr url ''://'' of
        None \<Rightarrow> ''/''
      | Some p \<Rightarrow> (case strchr (drop 3 p) CHR ''/'' of None \<Rightarrow> ''/'' | Some q \<Rightarrow> q))"

definition url_target :: "string \<Rightarrow> string \<times> string" where
  "url_target url =
     (let path = url_path url
      in case strchr path CHR ''?'' of
           None \<Rightarrow> (path, [])
         | Some q \<Rightarrow>
             let plen = length path - length q;
                 plen' = (if plen \<ge> 256 then 255 else plen)
             in (take plen' path, fst (snprintf 512 (tl q))))"

definition HDR_SIZE :: nat where "HDR_SIZE = 4096"

text \<open>The common part: the TX slots, the descriptor and the ring. The results of \<open>bp_write\<close> are
  ignored. \<open>hdr\<close> is the text in \<open>hdr_data\<close>, \<open>hdr_len\<close> the length \<open>snprintf\<close> returned.\<close>

definition tx_descriptor :: "dpumesh_ctx \<Rightarrow> u32 \<Rightarrow> 8 word \<Rightarrow> int \<Rightarrow> nat \<Rightarrow> int \<Rightarrow> nat \<Rightarrow> sw_descriptor" where
  "tx_descriptor cx rid fl header_slot hdr_len body_slot blen =
     \<lparr>header_buf_slot = word_of_int header_slot, header_len = of_nat hdr_len,
      body_buf_slot = word_of_int body_slot, body_len = of_nat blen, req_id = rid, step_id = 0,
      dst_pod_id = 0, src_pod_id = word_of_int (cx_pod_id cx), flags = fl, valid = 1,
      src_body_pool_type = POOL_HOST_TX_BODY, src_header_pool_type = POOL_HOST_TX_HEADER,
      src_body_pod_id = word_of_int (cx_pod_id cx), src_header_pod_id = word_of_int (cx_pod_id cx),
      src_body_buf_slot = word_of_int body_slot, src_header_buf_slot = word_of_int header_slot\<rparr>"

definition has_body :: "dpumesh_msg \<Rightarrow> bool" where
  "has_body msg \<longleftrightarrow> m_body msg \<noteq> None \<and> m_body_len msg > 0"

definition tx_enqueue :: "dpumesh_ctx \<Rightarrow> u32 \<Rightarrow> 8 word \<Rightarrow> string \<Rightarrow> nat \<Rightarrow> dpumesh_msg \<Rightarrow> (int \<times> dpumesh_ctx) option" where
  "tx_enqueue cx rid fl hdr hdr_len msg =
     (let (header_slot, th) = bp_alloc (cx_tx_header cx)
      in if header_slot < 0 then Some (-1, cx\<lparr>cx_tx_header := th\<rparr>)
         else do {
           (_, th1) \<leftarrow> bp_write th header_slot (hdr @ [NUL]) hdr_len;
           let (body_slot, tb) = bp_alloc (cx_tx_body cx);
           if body_slot < 0
           then Some (-1, cx\<lparr>cx_tx_header := bp_free th1 header_slot, cx_tx_body := tb\<rparr>)
           else do {
             (_, tb1) \<leftarrow> (case m_body msg of
                 Some body \<Rightarrow> if m_body_len msg > 0 then bp_write tb body_slot body (m_body_len msg)
                              else bp_write tb body_slot [NUL] 1
               | None \<Rightarrow> bp_write tb body_slot [NUL] 1);
             let desc = tx_descriptor cx rid fl header_slot hdr_len body_slot
                          (if has_body msg then m_body_len msg else 1);
             (rc, sq) \<leftarrow> dr_put (cx_tx_sq cx) desc;
             if rc < 0
             then Some (-1, cx\<lparr>cx_tx_header := bp_free th1 header_slot, cx_tx_body := bp_free tb1 body_slot,
                               cx_tx_sq := sq\<rparr>)
             else Some (0, cx\<lparr>cx_tx_header := th1, cx_tx_body := tb1, cx_tx_sq := sq\<rparr>)
           }
         })"

text \<open>The request branch up to the common part: the header and the response pipe. \<open>fds\<close> is what
  \<open>pipe\<close> returns; no pipe is made when the caller passes no \<open>out_response_fd\<close>.\<close>

definition request_header :: "dpumesh_ctx \<Rightarrow> dpumesh_msg \<Rightarrow> string \<times> nat" where
  "request_header cx msg =
     (let url = nullable (m_url msg); (path, query) = url_target url;
          req_id_str = fst (snprintf 32 (''creq-'' @ show_nat (unat (cx_next_req_id cx))))
      in serialize_header HDR_SIZE (m_method msg) (Some url) (Some path) (Some query) 0
           (Some req_id_str) (Some (cx_worker_id cx)) (Some []))"

definition response_header :: "dpumesh_ctx \<Rightarrow> dpumesh_msg \<Rightarrow> dpumesh_inbound \<Rightarrow> string \<times> nat" where
  "response_header cx msg ib =
     serialize_header HDR_SIZE (Some []) (Some []) (Some []) (Some []) (m_status_code msg)
       (Some (ib_req_id_str ib)) (Some (cx_worker_id cx)) (Some (ib_source_worker ib))"

text \<open>\<open>dpumesh_write\<close>: the returned code, the context and the value stored to \<open>*out_response_fd\<close>.\<close>

definition dpumesh_write :: "dpumesh_ctx \<Rightarrow> dpumesh_msg \<Rightarrow> bool \<Rightarrow> (int \<times> int) option
    \<Rightarrow> (int \<times> dpumesh_ctx \<times> int option) option" where
  "dpumesh_write cx msg want_fd fds =
     (if m_type msg = DPUMESH_MSG_REQUEST then
        let rid = cx_next_req_id cx;
            (hdr, hdr_len) = request_header cx msg;
            cx1 = cx\<lparr>cx_next_req_id := rid + 1\<rparr>
        in if want_fd then
             (case fds of
                None \<Rightarrow> Some (-1, cx1, None)
              | Some (r, w) \<Rightarrow> do {
                  let cx2 = cx1\<lparr>cx_pipes := pipe_open r w (cx_pipes cx1),
                       cx_response_pipe_fds := (cx_response_pipe_fds cx1)[pending_index rid := w]\<rparr>;
                  (rc, cx3) \<leftarrow> tx_enqueue cx2 rid (OP_REQUEST OR CASE_LOCAL) hdr hdr_len msg;
                  Some (rc, cx3, Some r)
                })
           else do {
             (rc, cx3) \<leftarrow> tx_enqueue cx1 rid (OP_REQUEST OR CASE_LOCAL) hdr hdr_len msg;
             Some (rc, cx3, None)
           }
      else if m_orig_index msg \<ge> length (cx_inbound cx) then None
      else
        let ib = cx_inbound cx ! m_orig_index msg;
            case_flag = (if ib_source_worker ib = [] then CASE_INGRESS else CASE_LOCAL);
            (hdr, hdr_len) = response_header cx msg ib;
            cx1 = cx\<lparr>cx_inbound := (cx_inbound cx)[m_orig_index msg := ib\<lparr>ib_active := False\<rparr>]\<rparr>
        in do {
             (rc, cx3) \<leftarrow> tx_enqueue cx1 (ib_req_id ib) (OP_RESPONSE OR case_flag) hdr hdr_len msg;
             Some (rc, cx3, None)
           })"

section \<open>Receiving\<close>

text \<open>The length passed to \<open>bp_read\<close> for an array of \<open>sz\<close> bytes.\<close>

definition read_len :: "u32 \<Rightarrow> nat \<Rightarrow> nat" where
  "read_len len sz = (if unat len < sz then unat len else sz - 1)"

text \<open>\<open>json_get_str\<close> into a buffer that keeps its text when the key is missing.\<close>

definition json_get_into :: "string \<Rightarrow> string \<Rightarrow> string \<Rightarrow> nat \<Rightarrow> string" where
  "json_get_into old json k outsz = (case json_get_str json k outsz of None \<Rightarrow> old | Some s \<Rightarrow> s)"

text \<open>The header fields of a request, read into the static buffers and the zeroed request.\<close>

definition read_header_fields :: "dpumesh_ctx \<Rightarrow> dpumesh_request \<Rightarrow> string \<Rightarrow> dpumesh_request \<times> dpumesh_ctx" where
  "read_header_fields cx rq json =
     (let m = json_get_into (cx_method_buf cx) json ''method'' 16;
          p = json_get_into (cx_path_buf cx) json ''path'' 256;
          q = json_get_into (cx_qs_buf cx) json ''query_string'' 512
      in (rq\<lparr>rq_method := Some m, rq_path := Some p, rq_query_string := Some q,
             rq_req_id_str := json_get_into [] json ''req_id_str'' 64,
             rq_source_worker := json_get_into [] json ''source_worker'' 128,
             rq_dest_worker := json_get_into [] json ''dest_worker'' 128\<rparr>,
          cx\<lparr>cx_method_buf := m, cx_path_buf := p, cx_qs_buf := q\<rparr>))"

definition blank_request :: "sw_descriptor \<Rightarrow> dpumesh_request" where
  "blank_request desc =
     \<lparr>rq_method = None, rq_path = None, rq_body = None, rq_body_len = 0, rq_query_string = None,
      rq_req_id_str = [], rq_source_worker = [], rq_dest_worker = [], rq_req_id = req_id desc,
      rq_src_pod_id = sint (src_pod_id desc), rq_header_slot = sint (header_buf_slot desc),
      rq_body_slot = sint (body_buf_slot desc), rq_case_flag = flags desc AND 0x0F,
      rq_desc_index = pending_index (req_id desc)\<rparr>"

text \<open>The request of a descriptor. When \<open>parse_case2_body\<close> fails, \<open>header_json\<close> is read although it was
  never written.\<close>

definition decode_request :: "dpumesh_ctx \<Rightarrow> sw_descriptor \<Rightarrow> (dpumesh_request \<times> dpumesh_ctx) option" where
  "decode_request cx desc =
     (let rq = blank_request desc
      in if rq_case_flag rq = CASE_INGRESS then
           if sint (body_buf_slot desc) \<ge> 0 \<and> body_len desc > 0 then do {
             (_, bs) \<leftarrow> bp_read (cx_rx_body cx) (sint (body_buf_slot desc))
                        (read_len (body_len desc) DPUMESH_SLOT_SIZE);
             (case parse_case2_body (cstring bs) HDR_SIZE DPUMESH_SLOT_SIZE of
                (rc, Some header_json, Some body) \<Rightarrow>
                  let (rq', cx') = read_header_fields cx rq header_json
                  in Some (rq'\<lparr>rq_body := Some body, rq_body_len := length body\<rparr>, cx')
              | _ \<Rightarrow> None)
           }
           else Some (rq, cx)
         else do {
           (rq1, cx1) \<leftarrow>
             (if sint (header_buf_slot desc) \<ge> 0 \<and> header_len desc > 0 then do {
                (_, hs) \<leftarrow> bp_read (cx_rx_header cx) (sint (header_buf_slot desc))
                           (read_len (header_len desc) HDR_SIZE);
                Some (read_header_fields cx rq (cstring hs))
              }
              else Some (rq, cx));
           if sint (body_buf_slot desc) \<ge> 0 \<and> body_len desc > 0 then do {
             (_, bs) \<leftarrow> bp_read (cx_rx_body cx1) (sint (body_buf_slot desc))
                        (read_len (body_len desc) DPUMESH_SLOT_SIZE);
             Some (rq1\<lparr>rq_body := Some bs, rq_body_len := length bs\<rparr>, cx1)
           }
           else Some (rq1, cx1)
         })"

text \<open>The routing metadata kept for the response.\<close>

definition store_inbound :: "dpumesh_ctx \<Rightarrow> dpumesh_request \<Rightarrow> dpumesh_ctx" where
  "store_inbound cx rq =
     cx\<lparr>cx_inbound := (cx_inbound cx)[rq_desc_index rq :=
       \<lparr>ib_req_id = rq_req_id rq, ib_req_id_str = fst (snprintf 64 (rq_req_id_str rq)),
        ib_source_worker = fst (snprintf 128 (rq_source_worker rq)),
        ib_case_flag = rq_case_flag rq, ib_active = True\<rparr>]\<rparr>"

definition free_rx :: "dpumesh_ctx \<Rightarrow> sw_descriptor \<Rightarrow> dpumesh_ctx" where
  "free_rx cx desc =
     (let cx1 = (if sint (header_buf_slot desc) \<ge> 0
                 then cx\<lparr>cx_rx_header := bp_free (cx_rx_header cx) (sint (header_buf_slot desc))\<rparr> else cx)
      in if sint (body_buf_slot desc) \<ge> 0
         then cx1\<lparr>cx_rx_body := bp_free (cx_rx_body cx1) (sint (body_buf_slot desc))\<rparr> else cx1)"

text \<open>\<open>dpumesh_read\<close> with a callback on the caller's state and the context. The loop ends when a read
  from the pipe fails; \<open>fuel\<close> bounds the number of reads and \<open>None\<close> is also its exhaustion.\<close>

fun dpumesh_read :: "nat \<Rightarrow> (dpumesh_request \<Rightarrow> 's \<Rightarrow> dpumesh_ctx \<Rightarrow> ('s \<times> dpumesh_ctx) option)
    \<Rightarrow> 's \<Rightarrow> dpumesh_ctx \<Rightarrow> (nat \<times> 's \<times> dpumesh_ctx) option" where
  "dpumesh_read 0 on_req s cx = None"
| "dpumesh_read (Suc fuel) on_req s cx =
     (case pipe_read (cx_notify_fd cx) (cx_pipes cx) of
        (None, _) \<Rightarrow> Some (0, s, cx)
      | (Some desc, ps) \<Rightarrow>
          if valid desc \<noteq> 1 then dpumesh_read fuel on_req s (cx\<lparr>cx_pipes := ps\<rparr>)
          else do {
            (rq, cx1) \<leftarrow> decode_request (cx\<lparr>cx_pipes := ps\<rparr>) desc;
            (s', cx2) \<leftarrow> on_req rq s (store_inbound cx1 rq);
            (n, s'', cx3) \<leftarrow> dpumesh_read fuel on_req s' (free_rx cx2 desc);
            Some (Suc n, s'', cx3)
          })"

text \<open>\<open>dpumesh_read_response\<close>: -1 when nothing can be read from the descriptor.\<close>

definition dpumesh_read_response :: "dpumesh_ctx \<Rightarrow> int \<Rightarrow> (int \<times> dpumesh_response option \<times> dpumesh_ctx) option" where
  "dpumesh_read_response cx fd =
     (case pipe_read fd (cx_pipes cx) of
        (None, _) \<Rightarrow> Some (-1, None, cx)
      | (Some desc, ps) \<Rightarrow> do {
          let cx1 = cx\<lparr>cx_pipes := pipe_close fd ps\<rparr>;
          let rs = \<lparr>rs_status_code = 0, rs_body = None, rs_body_len = 0, rs_req_id_str = [],
                    rs_source_worker = [], rs_header_slot = sint (header_buf_slot desc),
                    rs_body_slot = sint (body_buf_slot desc)\<rparr>;
          rs1 \<leftarrow>
            (if sint (header_buf_slot desc) \<ge> 0 \<and> header_len desc > 0 then do {
               (_, hs) \<leftarrow> bp_read (cx_rx_header cx1) (sint (header_buf_slot desc))
                          (read_len (header_len desc) HDR_SIZE);
               Some (rs\<lparr>rs_status_code := json_get_int (cstring hs) ''status_code'',
                        rs_req_id_str := json_get_into [] (cstring hs) ''req_id_str'' 64,
                        rs_source_worker := json_get_into [] (cstring hs) ''source_worker'' 128\<rparr>)
             }
             else Some rs);
          rs2 \<leftarrow>
            (if sint (body_buf_slot desc) \<ge> 0 \<and> body_len desc > 0 then do {
               (_, bs) \<leftarrow> bp_read (cx_rx_body cx1) (sint (body_buf_slot desc))
                          (read_len (body_len desc) DPUMESH_SLOT_SIZE);
               Some (rs1\<lparr>rs_body := Some bs, rs_body_len := length bs\<rparr>)
             }
             else Some rs1);
          Some (0, Some rs2, free_rx cx1 desc)
        })"

section \<open>Life cycle\<close>

text \<open>What \<open>dpumesh_init\<close> shares with the machine: the shared memory objects, the registry files and the
  pipes; and what its calls return.\<close>

record host =
  h_prefix :: "string option"
  h_pools :: shm_pools
  h_rings :: shm_rings
  h_files :: pod_files
  h_pipes :: "sw_descriptor pipes"

record init_env =
  ie_calloc :: bool
  ie_counter :: file_ops
  ie_registry :: file_ops
  ie_pool :: "nat \<Rightarrow> bp_env"
  ie_ring :: "nat \<Rightarrow> dr_env"
  ie_pipe :: "(int \<times> int) option"
  ie_thread :: bool

text \<open>A step of the initialisation yields a value or fails, and may have changed the machine in either
  case; \<open>init_then\<close> is the \<open>goto fail\<close> after each of them. The calls are numbered in their order.\<close>

type_synonym 'a init_step = "host \<Rightarrow> 'a option \<times> host"

definition init_then :: "'a init_step \<Rightarrow> ('a \<Rightarrow> 'b init_step) \<Rightarrow> 'b init_step" where
  "init_then f g h = (case f h of (None, h') \<Rightarrow> (None, h') | (Some x, h') \<Rightarrow> g x h')"

definition init_pool :: "init_env \<Rightarrow> nat \<Rightarrow> string \<Rightarrow> buffer_pool init_step" where
  "init_pool ie i name h =
     (let (rc, bp, pools) = bp_init (h_prefix h) (ie_pool ie i) (h_pools h) (fst (snprintf 128 name)) True
      in (if rc < 0 then None else Some bp, h\<lparr>h_pools := pools\<rparr>))"

definition init_ring :: "init_env \<Rightarrow> nat \<Rightarrow> string \<Rightarrow> desc_ring init_step" where
  "init_ring ie i name h =
     (let (rc, dr, rings) = dr_init (h_prefix h) (ie_ring ie i) (h_rings h) (fst (snprintf 128 name)) True
      in (if rc < 0 then None else dr, h\<lparr>h_rings := rings\<rparr>))"

definition init_pipe :: "init_env \<Rightarrow> (int \<times> int) init_step" where
  "init_pipe ie h =
     (case ie_pipe ie of
        None \<Rightarrow> (None, h)
      | Some (r, w) \<Rightarrow> (Some (r, w), h\<lparr>h_pipes := pipe_open r w (h_pipes h)\<rparr>))"

text \<open>\<open>dpumesh_init\<close>: the new context, or \<open>None\<close> for the return value -1, and the machine.\<close>

definition blank_inbound :: dpumesh_inbound where
  "blank_inbound = \<lparr>ib_req_id = 0, ib_req_id_str = [], ib_source_worker = [], ib_case_flag = 0, ib_active = False\<rparr>"

definition dpumesh_init :: "init_env \<Rightarrow> string \<Rightarrow> int \<Rightarrow> dpumesh_ctx init_step" where
  "dpumesh_init ie app_name worker_num h =
     (if \<not> ie_calloc ie then (None, h)
      else
        let (pod, fs) = pod_registry_alloc_id (ie_counter ie) (h_files h)
        in if pod < 0 then (None, h\<lparr>h_files := fs\<rparr>)
           else
             let worker = fst (snprintf 128 (app_name @ ''-worker-'' @ show_int worker_num));
                 (_, fs') = pod_registry_register (ie_registry ie) fs worker pod app_name
             in init_then (init_pool ie 0 (app_name @ ''_tx_header'')) (\<lambda>txh.
                init_then (init_pool ie 1 (app_name @ ''_tx_body'')) (\<lambda>txb.
                init_then (init_pool ie 2 (app_name @ ''_rx_header'')) (\<lambda>rxh.
                init_then (init_pool ie 3 (app_name @ ''_rx_body'')) (\<lambda>rxb.
                init_then (init_ring ie 0 (''pod_'' @ show_int pod @ ''_tx_sq'')) (\<lambda>txq.
                init_then (init_ring ie 1 (''pod_'' @ show_int pod @ ''_rx_sq'')) (\<lambda>rxq.
                init_then (init_pipe ie) (\<lambda>(r, w) h'.
                  (if \<not> ie_thread ie then None
                   else Some
                     \<lparr>cx_app_name = fst (snprintf 64 app_name), cx_worker_id = worker, cx_pod_id = pod,
                      cx_notify_fd = r, cx_notify_write_fd = w, cx_poller_running = True,
                      cx_next_req_id = 1, cx_response_pipe_fds = replicate DPUMESH_MAX_PENDING (-1),
                      cx_inbound = replicate DPUMESH_MAX_PENDING blank_inbound,
                      cx_tx_header = txh, cx_tx_body = txb, cx_rx_header = rxh, cx_rx_body = rxb,
                      cx_tx_sq = txq, cx_rx_sq = rxq, cx_pipes = h_pipes h',
                      cx_method_buf = [], cx_path_buf = [], cx_qs_buf = []\<rparr>, h'))))))))
                (h\<lparr>h_files := fs'\<rparr>))"

text \<open>\<open>dpumesh_destroy\<close>: the descriptors that are still open are closed; what is left are the pipes.\<close>

definition dpumesh_destroy :: "dpumesh_ctx \<Rightarrow> sw_descriptor pipes" where
  "dpumesh_destroy cx =
     fold (\<lambda>fd ps. if fd \<ge> 0 then pipe_close fd ps else ps)
       (cx_notify_fd cx # cx_notify_write_fd cx # cx_response_pipe_fds cx) (cx_pipes cx)"

definition dpumesh_get_notify_fd :: "dpumesh_ctx \<Rightarrow> int" where
  "dpumesh_get_notify_fd cx = cx_notify_fd cx"

definition dpumesh_get_pod_id :: "dpumesh_ctx \<Rightarrow> int" where
  "dpumesh_get_pod_id cx = cx_pod_id cx"

definition dpumesh_get_worker_id :: "dpumesh_ctx \<Rightarrow> string" where
  "dpumesh_get_worker_id cx = cx_worker_id cx"

end
