(* ===== verification/Dpumesh_Correct.thy ===== *)
theory Dpumesh_Correct
  imports Dpumesh
begin

text \<open>
  The properties of the messaging library: the invariant of a context, what a written message leaves
  in the TX objects, how requests and responses reach the event loop, and the flaws the proofs met.
\<close>

section \<open>Invariant\<close>

definition pool_ok :: "buffer_pool \<Rightarrow> bool" where
  "pool_ok bp \<longleftrightarrow> bp_inv bp \<and> bp_num_slots bp = DPUMESH_NUM_SLOTS \<and> bp_slot_size bp = DPUMESH_SLOT_SIZE"

definition ctx_inv :: "dpumesh_ctx \<Rightarrow> bool" where
  "ctx_inv cx \<longleftrightarrow> pool_ok (cx_tx_header cx) \<and> pool_ok (cx_tx_body cx) \<and> pool_ok (cx_rx_header cx)
     \<and> pool_ok (cx_rx_body cx) \<and> dr_inv (cx_tx_sq cx) \<and> dr_inv (cx_rx_sq cx)
     \<and> length (cx_response_pipe_fds cx) = DPUMESH_MAX_PENDING
     \<and> length (cx_inbound cx) = DPUMESH_MAX_PENDING"

lemma pending_index_less: "pending_index r < DPUMESH_MAX_PENDING"
  by (simp add: pending_index_def DPUMESH_MAX_PENDING_def)

lemma pool_ok_alloc: "pool_ok bp \<Longrightarrow> bp_alloc bp = (s, bp') \<Longrightarrow> pool_ok bp'"
  using pool.alloc_inv [of bp s bp']
  by (auto simp: pool_ok_def bp_alloc_def split: option.splits)

lemma pool_ok_free: "pool_ok bp \<Longrightarrow> pool_ok (bp_free bp s)"
  using pool.release_inv [of bp s] by (auto simp: pool_ok_def bp_free_def)

lemma pool_ok_write: "pool_ok bp \<Longrightarrow> bp_write bp s src n = Some (r, bp') \<Longrightarrow> pool_ok bp'"
  using bp_write_inv [of bp s src n r bp'] bp_write_bitmap [of bp s src n r bp'] by (auto simp: pool_ok_def)

lemma pool_ok_bp_inv: "pool_ok bp \<Longrightarrow> bp_inv bp"
  by (simp add: pool_ok_def)

section \<open>Sending\<close>

text \<open>A slot that was allocated and written.\<close>

lemma alloc_write_used:
  assumes "pool_ok bp" and "bp_alloc bp = (s, bp1)" and "0 \<le> s" and "bp_write bp1 s src n = Some (r, bp2)"
  shows "s \<in> bp_slots bp - bp_used bp" and "bp_used bp2 = insert s (bp_used bp)" and "pool_ok bp2"
    and "bp_used (bp_free bp2 s) = bp_used bp" and "pool_ok (bp_free bp2 s)"
proof -
  have inv: "bp_inv bp" using assms(1) by (rule pool_ok_bp_inv)
  from inv assms(2) have s: "s \<in> bp_slots bp \<and> s \<notin> bp_used bp \<and> bp_used bp1 = insert s (bp_used bp)"
    using assms(3) by (cases rule: pool.alloc_cases) auto
  show ok: "pool_ok bp2" by (rule pool_ok_write [OF pool_ok_alloc [OF assms(1,2)] assms(4)])
  show u: "bp_used bp2 = insert s (bp_used bp)"
    using bp_write_inv [OF pool_ok_bp_inv [OF pool_ok_alloc [OF assms(1,2)]] assms(4)] s by simp
  show "s \<in> bp_slots bp - bp_used bp" using s by simp
  show "bp_used (bp_free bp2 s) = bp_used bp"
    using pool.release_used [OF pool_ok_bp_inv [OF ok]] u s by auto
  show "pool_ok (bp_free bp2 s)" by (rule pool_ok_free [OF ok])
qed

lemma alloc_refused:
  assumes "pool_ok bp" and "bp_alloc bp = (s, bp1)" and "s < 0"
  shows "bp1 = bp" and "bp_used bp = bp_slots bp"
  using pool_ok_bp_inv [OF assms(1)] assms(2,3) by (cases rule: pool.alloc_cases; simp)+

lemma dr_put_cases:
  assumes "dr_inv dr"
  obtains (full) "dr_put dr d = Some (-1, dr)" "length (dr_list dr) = 512"
  | (room) dr' where "dr_put dr d = Some (0, dr')" "dr_inv dr'" "dr_list dr' = dr_list dr @ [d]"
      "length (dr_list dr) < 512"
proof (cases "unat (dr_count dr) < 512")
  case True
  with dr_put_room [OF assms True, of d] dr_list_put [OF assms True refl] show ?thesis
    by (intro room) (auto simp: length_dr_list)
next
  case False
  with assms have "unat (dr_count dr) = 512" by (simp add: dr_inv_def DPUMESH_MAX_DESCRIPTORS_def)
  with dr_put_full [OF assms this, of d] show ?thesis by (intro full) (auto simp: length_dr_list)
qed

text \<open>Every outcome of the common part of \<open>dpumesh_write\<close>: nothing else of the context changes, a
  refusal leaves the TX objects as they were, and a success adds one descriptor with two fresh
  slots.\<close>

lemma tx_enqueue_outcome:
  assumes "pool_ok (cx_tx_header cx)" and "pool_ok (cx_tx_body cx)" and "dr_inv (cx_tx_sq cx)"
    and "tx_enqueue cx rid fl hdr hdr_len msg = Some (rc, cx')"
  shows "\<exists>th tb sq. cx' = cx\<lparr>cx_tx_header := th, cx_tx_body := tb, cx_tx_sq := sq\<rparr>
    \<and> pool_ok th \<and> pool_ok tb \<and> dr_inv sq
    \<and> ((rc = -1 \<and> bp_used th = bp_used (cx_tx_header cx) \<and> bp_used tb = bp_used (cx_tx_body cx)
          \<and> dr_list sq = dr_list (cx_tx_sq cx))
      \<or> (rc = 0 \<and> (\<exists>hs bs. hs \<in> bp_slots (cx_tx_header cx) - bp_used (cx_tx_header cx)
          \<and> bs \<in> bp_slots (cx_tx_body cx) - bp_used (cx_tx_body cx)
          \<and> bp_used th = insert hs (bp_used (cx_tx_header cx)) \<and> bp_used tb = insert bs (bp_used (cx_tx_body cx))
          \<and> dr_list sq = dr_list (cx_tx_sq cx)
              @ [tx_descriptor cx rid fl hs hdr_len bs (if has_body msg then m_body_len msg else 1)])))"
proof -
  obtain hs th where a: "bp_alloc (cx_tx_header cx) = (hs, th)" by (rule prod.exhaust)
  obtain bs tb where b: "bp_alloc (cx_tx_body cx) = (bs, tb)" by (rule prod.exhaust)
  show ?thesis
  proof (cases "hs < 0")
    case True
    then have "rc = -1 \<and> cx' = cx\<lparr>cx_tx_header := th\<rparr>" using assms(4) a by (auto simp: tx_enqueue_def)
    with alloc_refused [OF assms(1) a True] assms(1-3) show ?thesis
      by (intro exI [of _ th] exI [of _ "cx_tx_body cx"] exI [of _ "cx_tx_sq cx"] conjI disjI1) simp_all
  next
    case hs: False
    then obtain r th1 where w: "bp_write th hs (hdr @ [NUL]) hdr_len = Some (r, th1)"
      using assms(4) a by (auto simp: tx_enqueue_def bind_eq_Some_conv)
    note h = alloc_write_used [OF assms(1) a _ w]
    show ?thesis
    proof (cases "bs < 0")
      case True
      then have "rc = -1 \<and> cx' = cx\<lparr>cx_tx_header := bp_free th1 hs, cx_tx_body := tb\<rparr>"
        using assms(4) a b w hs by (auto simp: tx_enqueue_def)
      with h hs alloc_refused [OF assms(2) b True] assms(1-3) show ?thesis
        by (intro exI [of _ "bp_free th1 hs"] exI [of _ tb] exI [of _ "cx_tx_sq cx"] conjI disjI1) simp_all
    next
      case bs: False
      let ?w = "case m_body msg of Some body \<Rightarrow> if m_body_len msg > 0 then bp_write tb bs body (m_body_len msg)
                  else bp_write tb bs [NUL] 1 | None \<Rightarrow> bp_write tb bs [NUL] 1"
      let ?d = "tx_descriptor cx rid fl hs hdr_len bs (if has_body msg then m_body_len msg else 1)"
      obtain r' tb1 where w': "?w = Some (r', tb1)"
        using assms(4) a b w hs bs by (auto simp: tx_enqueue_def bind_eq_Some_conv)
      then obtain src n where "bp_write tb bs src n = Some (r', tb1)"
        by (auto split: option.splits if_splits)
      note t = alloc_write_used [OF assms(2) b _ this]
      have e: "tx_enqueue cx rid fl hdr hdr_len msg = do {
          (rc, sq) \<leftarrow> dr_put (cx_tx_sq cx) ?d;
          if rc < 0 then Some (-1, cx\<lparr>cx_tx_header := bp_free th1 hs, cx_tx_body := bp_free tb1 bs, cx_tx_sq := sq\<rparr>)
          else Some (0, cx\<lparr>cx_tx_header := th1, cx_tx_body := tb1, cx_tx_sq := sq\<rparr>) }"
        using a b w w' hs bs by (simp add: tx_enqueue_def)
      from assms(3) show ?thesis
      proof (cases rule: dr_put_cases [where d = ?d])
        case full
        with e assms(4) have "rc = -1 \<and> cx' = cx\<lparr>cx_tx_header := bp_free th1 hs, cx_tx_body := bp_free tb1 bs,
            cx_tx_sq := cx_tx_sq cx\<rparr>" by simp
        with h t hs bs assms(3) show ?thesis
          by (intro exI [of _ "bp_free th1 hs"] exI [of _ "bp_free tb1 bs"] exI [of _ "cx_tx_sq cx"] conjI disjI1)
            simp_all
      next
        case (room sq)
        with e assms(4) have "rc = 0 \<and> cx' = cx\<lparr>cx_tx_header := th1, cx_tx_body := tb1, cx_tx_sq := sq\<rparr>" by simp
        with h t hs bs room show ?thesis
          by (intro exI [of _ th1] exI [of _ tb1] exI [of _ sq] conjI disjI2 exI [of _ hs] exI [of _ bs]) simp_all
      qed
    qed
  qed
qed

text \<open>The bytes a message leaves in its body slot: an empty body is sent as a single NUL.\<close>

definition body_bytes :: "dpumesh_msg \<Rightarrow> char list" where
  "body_bytes msg = (case m_body msg of
     Some body \<Rightarrow> if m_body_len msg > 0 then take (m_body_len msg) body else [NUL] | None \<Rightarrow> [NUL])"

definition body_ok :: "dpumesh_msg \<Rightarrow> bool" where
  "body_ok msg \<longleftrightarrow> (\<forall>body. m_body msg = Some body \<longrightarrow> m_body_len msg \<le> length body)
     \<and> m_body_len msg \<le> DPUMESH_SLOT_SIZE"

lemma length_body_bytes: "body_ok msg \<Longrightarrow> length (body_bytes msg) = (if has_body msg then m_body_len msg else 1)"
  by (auto simp: body_ok_def body_bytes_def has_body_def split: option.splits)

lemma alloc_write_slot:
  assumes "pool_ok bp" and "bp_used bp \<noteq> bp_slots bp" and "n \<le> DPUMESH_SLOT_SIZE" and "n \<le> length src"
  obtains s bp1 bp2 where "bp_alloc bp = (s, bp1)" "0 \<le> s" "bp_write bp1 s src n = Some (int n, bp2)"
    "bp_read bp2 s n = Some (int n, take n src)" "s \<in> bp_slots bp - bp_used bp"
proof -
  obtain s bp1 where a: "bp_alloc bp = (s, bp1)" by (rule prod.exhaust)
  from pool_ok_bp_inv [OF assms(1)] a have s: "0 \<le> s \<and> s \<in> bp_slots bp - bp_used bp"
    using assms(2) by (cases rule: pool.alloc_cases) auto
  have ok: "pool_ok bp1" by (rule pool_ok_alloc [OF assms(1) a])
  have "s < int (bp_num_slots bp1)" using s assms(1) ok by (auto simp: bp_slots_def pool_ok_def)
  moreover have "n \<le> bp_slot_size bp1" using assms(3) ok by (simp add: pool_ok_def)
  ultimately obtain bp2 where "bp_write bp1 s src n = Some (int n, bp2)" "bp_read bp2 s n = Some (int n, take n src)"
    using bp_write_slot [OF pool_ok_bp_inv [OF ok]] s assms(4) by blast
  with a s that show ?thesis by blast
qed

definition tx_free :: "dpumesh_ctx \<Rightarrow> bool" where
  "tx_free cx \<longleftrightarrow> bp_used (cx_tx_header cx) \<noteq> bp_slots (cx_tx_header cx)
     \<and> bp_used (cx_tx_body cx) \<noteq> bp_slots (cx_tx_body cx) \<and> length (dr_list (cx_tx_sq cx)) < 512"

text \<open>A message is queued: the last descriptor of the TX ring names slots that hold the header and the
  body.\<close>

definition queued :: "dpumesh_ctx \<Rightarrow> u32 \<Rightarrow> 8 word \<Rightarrow> string \<Rightarrow> char list \<Rightarrow> dpumesh_ctx \<Rightarrow> bool" where
  "queued cx rid fl hdr body cx' \<longleftrightarrow> (\<exists>hs bs. 0 \<le> hs \<and> hs < int DPUMESH_NUM_SLOTS \<and> 0 \<le> bs \<and> bs < int DPUMESH_NUM_SLOTS
     \<and> dr_list (cx_tx_sq cx') = dr_list (cx_tx_sq cx) @ [tx_descriptor cx rid fl hs (length hdr) bs (length body)]
     \<and> bp_read (cx_tx_header cx') hs (length hdr) = Some (int (length hdr), hdr)
     \<and> bp_read (cx_tx_body cx') bs (length body) = Some (int (length body), body))"

lemma pool_ok_slots: "pool_ok bp \<Longrightarrow> s \<in> bp_slots bp \<longleftrightarrow> 0 \<le> s \<and> s < int DPUMESH_NUM_SLOTS"
  by (auto simp: pool_ok_def bp_slots_def)

lemma tx_enqueue_queued:
  assumes "ctx_inv cx" and "tx_free cx" and "length hdr < HDR_SIZE" and "body_ok msg"
  shows "\<exists>cx'. tx_enqueue cx rid fl hdr (length hdr) msg = Some (0, cx') \<and> queued cx rid fl hdr (body_bytes msg) cx'"
proof -
  have ok: "pool_ok (cx_tx_header cx)" "pool_ok (cx_tx_body cx)" "dr_inv (cx_tx_sq cx)"
    using assms(1) by (simp_all add: ctx_inv_def)
  have free: "bp_used (cx_tx_header cx) \<noteq> bp_slots (cx_tx_header cx)"
      "bp_used (cx_tx_body cx) \<noteq> bp_slots (cx_tx_body cx)" "length (dr_list (cx_tx_sq cx)) < 512"
    using assms(2) by (simp_all add: tx_free_def)
  have lh: "length hdr \<le> DPUMESH_SLOT_SIZE" "length hdr \<le> length (hdr @ [NUL])"
    using assms(3) by (simp_all add: DPUMESH_SLOT_SIZE_def HDR_SIZE_def)
  obtain hs th th1 where h: "bp_alloc (cx_tx_header cx) = (hs, th)" "0 \<le> hs"
      "bp_write th hs (hdr @ [NUL]) (length hdr) = Some (int (length hdr), th1)"
      "bp_read th1 hs (length hdr) = Some (int (length hdr), take (length hdr) (hdr @ [NUL]))"
      "hs \<in> bp_slots (cx_tx_header cx) - bp_used (cx_tx_header cx)"
    by (rule alloc_write_slot [OF ok(1) free(1) lh])
  let ?b = "body_bytes msg"
  have lb: "length ?b \<le> DPUMESH_SLOT_SIZE" "length ?b \<le> length ?b"
    using assms(4) by (simp_all add: length_body_bytes body_ok_def DPUMESH_SLOT_SIZE_def)
  obtain bs tb tb1 where b: "bp_alloc (cx_tx_body cx) = (bs, tb)" "0 \<le> bs"
      "bp_write tb bs ?b (length ?b) = Some (int (length ?b), tb1)"
      "bp_read tb1 bs (length ?b) = Some (int (length ?b), take (length ?b) ?b)"
      "bs \<in> bp_slots (cx_tx_body cx) - bp_used (cx_tx_body cx)"
    by (rule alloc_write_slot [OF ok(2) free(2) lb])
  have w: "(case m_body msg of Some body \<Rightarrow> if m_body_len msg > 0 then bp_write tb bs body (m_body_len msg)
      else bp_write tb bs [NUL] 1 | None \<Rightarrow> bp_write tb bs [NUL] 1) = Some (int (length ?b), tb1)"
    using b(3) assms(4) by (auto simp: body_bytes_def body_ok_def bp_write_def Let_def split: option.splits if_splits)
  let ?d = "tx_descriptor cx rid fl hs (length hdr) bs (length ?b)"
  obtain sq where sq: "dr_put (cx_tx_sq cx) ?d = Some (0, sq)" "dr_list sq = dr_list (cx_tx_sq cx) @ [?d]"
    using ok(3) free(3) by (cases rule: dr_put_cases [where d = ?d]) auto
  have "tx_enqueue cx rid fl hdr (length hdr) msg
      = Some (0, cx\<lparr>cx_tx_header := th1, cx_tx_body := tb1, cx_tx_sq := sq\<rparr>)"
    using h b w sq(1) assms(4) by (simp add: tx_enqueue_def length_body_bytes)
  moreover have "queued cx rid fl hdr ?b (cx\<lparr>cx_tx_header := th1, cx_tx_body := tb1, cx_tx_sq := sq\<rparr>)"
    unfolding queued_def using h b sq(2) ok
    by (intro exI [of _ hs] exI [of _ bs]) (simp add: pool_ok_slots)
  ultimately show ?thesis by blast
qed

text \<open>Every outcome of \<open>dpumesh_write\<close>.\<close>

lemma tx_enqueue_inv:
  assumes "ctx_inv cx" and "tx_enqueue cx rid fl hdr n msg = Some (rc, cx')"
  shows "ctx_inv cx' \<and> (rc = 0 \<or> rc = -1)
    \<and> (rc < 0 \<longrightarrow> bp_used (cx_tx_header cx') = bp_used (cx_tx_header cx)
        \<and> bp_used (cx_tx_body cx') = bp_used (cx_tx_body cx) \<and> dr_list (cx_tx_sq cx') = dr_list (cx_tx_sq cx))"
proof -
  have ok: "pool_ok (cx_tx_header cx)" "pool_ok (cx_tx_body cx)" "dr_inv (cx_tx_sq cx)"
    using assms(1) by (simp_all add: ctx_inv_def)
  show ?thesis using tx_enqueue_outcome [OF ok assms(2)] assms(1) by (auto simp: ctx_inv_def)
qed

lemma dpumesh_write_enqueues:
  assumes "dpumesh_write cx msg want_fd fds = Some (rc, cx', out)"
  obtains (no_pipe) "rc = -1" "cx' = cx\<lparr>cx_next_req_id := cx_next_req_id cx + 1\<rparr>" "out = None"
  | (enqueue) cx1 rid fl hdr n where "tx_enqueue cx1 rid fl hdr n msg = Some (rc, cx')"
      "cx_tx_header cx1 = cx_tx_header cx" "cx_tx_body cx1 = cx_tx_body cx" "cx_tx_sq cx1 = cx_tx_sq cx"
      "ctx_inv cx \<Longrightarrow> ctx_inv cx1"
proof (cases "m_type msg = DPUMESH_MSG_REQUEST")
  case True
  obtain hdr n where h: "request_header cx msg = (hdr, n)" by (rule prod.exhaust)
  show ?thesis
  proof (cases "want_fd")
    case want: True
    show ?thesis
    proof (cases fds)
      case None
      with True want h assms no_pipe show ?thesis by (auto simp: dpumesh_write_def)
    next
      case (Some rw)
      obtain r w where rw: "rw = (r, w)" by (rule prod.exhaust)
      let ?cx = "cx\<lparr>cx_next_req_id := cx_next_req_id cx + 1, cx_pipes := pipe_open r w (cx_pipes cx),
        cx_response_pipe_fds := (cx_response_pipe_fds cx)[pending_index (cx_next_req_id cx) := w]\<rparr>"
      have "tx_enqueue ?cx (cx_next_req_id cx) (OP_REQUEST OR CASE_LOCAL) hdr n msg = Some (rc, cx')"
        using True want h assms Some rw by (auto simp: dpumesh_write_def Let_def bind_eq_Some_conv)
      then show ?thesis by (rule enqueue) (auto simp: ctx_inv_def)
    qed
  next
    case False
    then have "tx_enqueue (cx\<lparr>cx_next_req_id := cx_next_req_id cx + 1\<rparr>) (cx_next_req_id cx)
        (OP_REQUEST OR CASE_LOCAL) hdr n msg = Some (rc, cx')"
      using True h assms by (auto simp: dpumesh_write_def Let_def bind_eq_Some_conv)
    then show ?thesis by (rule enqueue) (auto simp: ctx_inv_def)
  qed
next
  case False
  let ?ib = "cx_inbound cx ! m_orig_index msg"
  obtain hdr n where h: "response_header cx msg ?ib = (hdr, n)" by (rule prod.exhaust)
  let ?fl = "OP_RESPONSE OR (if ib_source_worker ?ib = [] then CASE_INGRESS else CASE_LOCAL)"
  have "tx_enqueue (cx\<lparr>cx_inbound := (cx_inbound cx)[m_orig_index msg := ?ib\<lparr>ib_active := False\<rparr>]\<rparr>)
      (ib_req_id ?ib) ?fl hdr n msg = Some (rc, cx')"
    using False h assms by (auto simp: dpumesh_write_def Let_def bind_eq_Some_conv split: if_splits)
  then show ?thesis by (rule enqueue) (auto simp: ctx_inv_def)
qed

lemma dpumesh_write_outcome:
  assumes "ctx_inv cx" and "dpumesh_write cx msg want_fd fds = Some (rc, cx', out)"
  shows "ctx_inv cx' \<and> (rc = 0 \<or> rc = -1)
    \<and> (rc < 0 \<longrightarrow> bp_used (cx_tx_header cx') = bp_used (cx_tx_header cx)
        \<and> bp_used (cx_tx_body cx') = bp_used (cx_tx_body cx) \<and> dr_list (cx_tx_sq cx') = dr_list (cx_tx_sq cx))"
  using assms(2)
proof (cases rule: dpumesh_write_enqueues)
  case no_pipe
  with assms(1) show ?thesis by (simp add: ctx_inv_def)
next
  case (enqueue cx1 rid fl hdr n)
  from tx_enqueue_inv [OF enqueue(5) [OF assms(1)] enqueue(1)] enqueue(2-4) show ?thesis by simp
qed

section \<open>Delivery\<close>

text \<open>What the mesh does with a message between workers: the header and the body of the TX slots are
  copied to slots of the receiver's RX pools, and a descriptor with these slots and the sender's
  request number, flags and lengths goes to the receiver's ring.\<close>

definition relayed :: "dpumesh_ctx \<Rightarrow> sw_descriptor \<Rightarrow> dpumesh_ctx \<Rightarrow> sw_descriptor \<Rightarrow> bool" where
  "relayed tx d rx d' \<longleftrightarrow> req_id d' = req_id d \<and> flags d' = flags d \<and> valid d' = valid d
     \<and> header_len d' = header_len d \<and> body_len d' = body_len d
     \<and> 0 \<le> sint (header_buf_slot d') \<and> 0 \<le> sint (body_buf_slot d')
     \<and> bp_read (cx_rx_header rx) (sint (header_buf_slot d')) (unat (header_len d))
         = bp_read (cx_tx_header tx) (sint (header_buf_slot d)) (unat (header_len d))
     \<and> bp_read (cx_rx_body rx) (sint (body_buf_slot d')) (unat (body_len d))
         = bp_read (cx_tx_body tx) (sint (body_buf_slot d)) (unat (body_len d))"

lemma sint_slot: "0 \<le> s \<Longrightarrow> s < int DPUMESH_NUM_SLOTS \<Longrightarrow> sint (word_of_int s :: 32 word) = s"
  by (simp add: DPUMESH_NUM_SLOTS_def sint_sbintrunc' signed_take_bit_int_eq_self)

lemma unat_len: "n \<le> DPUMESH_SLOT_SIZE \<Longrightarrow> unat (of_nat n :: 32 word) = n"
  by (simp add: DPUMESH_SLOT_SIZE_def unat_of_nat take_bit_nat_eq_self)

text \<open>The bytes of a message at the receiver.\<close>

definition received :: "dpumesh_ctx \<Rightarrow> sw_descriptor \<Rightarrow> string \<Rightarrow> char list \<Rightarrow> bool" where
  "received rx d hdr body \<longleftrightarrow> 0 \<le> sint (header_buf_slot d) \<and> 0 \<le> sint (body_buf_slot d)
     \<and> unat (header_len d) = length hdr \<and> unat (body_len d) = length body
     \<and> bp_read (cx_rx_header rx) (sint (header_buf_slot d)) (length hdr) = Some (int (length hdr), hdr)
     \<and> bp_read (cx_rx_body rx) (sint (body_buf_slot d)) (length body) = Some (int (length body), body)"

lemma queued_received:
  assumes "queued cx rid fl hdr body cx'" and "relayed cx' (last (dr_list (cx_tx_sq cx'))) rx d"
    and "length hdr < HDR_SIZE" and "length body \<le> DPUMESH_SLOT_SIZE"
  shows "received rx d hdr body \<and> req_id d = rid \<and> flags d = fl \<and> valid d = 1"
proof -
  obtain hs bs where q: "0 \<le> hs" "hs < int DPUMESH_NUM_SLOTS" "0 \<le> bs" "bs < int DPUMESH_NUM_SLOTS"
      "last (dr_list (cx_tx_sq cx')) = tx_descriptor cx rid fl hs (length hdr) bs (length body)"
      "bp_read (cx_tx_header cx') hs (length hdr) = Some (int (length hdr), hdr)"
      "bp_read (cx_tx_body cx') bs (length body) = Some (int (length body), body)"
    using assms(1) unfolding queued_def by (metis last_snoc)
  have "length hdr \<le> DPUMESH_SLOT_SIZE" using assms(3) by (simp add: HDR_SIZE_def DPUMESH_SLOT_SIZE_def)
  then show ?thesis
    using assms(2,4) unfolding relayed_def received_def q(5)
    by (simp add: tx_descriptor_def sint_slot [OF q(1,2)] sint_slot [OF q(3,4)] unat_len q(6,7))
qed

lemma header_text_NUL: "header_ok h \<Longrightarrow> NUL \<notin> set (header_text h)"
  by (simp add: header_text_def header_ok_def plain_def)

lemma json_get_into_fields:
  assumes "header_ok h"
  shows "json_get_into old (header_text h) ''method'' sz = take (size_pred sz) (mh_method h)"
    and "json_get_into old (header_text h) ''path'' sz = take (size_pred sz) (mh_path h)"
    and "json_get_into old (header_text h) ''query_string'' sz = take (size_pred sz) (mh_query h)"
    and "json_get_into old (header_text h) ''req_id_str'' sz = take (size_pred sz) (mh_req_id_str h)"
    and "json_get_into old (header_text h) ''source_worker'' sz = take (size_pred sz) (mh_source_worker h)"
    and "json_get_into old (header_text h) ''dest_worker'' sz = take (size_pred sz) (mh_dest_worker h)"
  by (simp_all add: json_get_into_def header_fields [OF assms])

lemma header_text_nonempty: "header_text h \<noteq> []"
  by (simp add: header_text_def)

text \<open>What the receiver reads of a header.\<close>

definition delivered_request :: "mesh_header \<Rightarrow> char list \<Rightarrow> sw_descriptor \<Rightarrow> dpumesh_request" where
  "delivered_request h body d =
     (blank_request d)\<lparr>rq_method := Some (take 15 (mh_method h)), rq_path := Some (take 255 (mh_path h)),
        rq_query_string := Some (take 511 (mh_query h)), rq_req_id_str := take 63 (mh_req_id_str h),
        rq_source_worker := take 127 (mh_source_worker h), rq_dest_worker := take 127 (mh_dest_worker h),
        rq_body := Some body, rq_body_len := length body\<rparr>"

lemma read_header_fields_ok:
  assumes "header_ok h"
  shows "read_header_fields rx rq (header_text h)
    = (rq\<lparr>rq_method := Some (take 15 (mh_method h)), rq_path := Some (take 255 (mh_path h)),
         rq_query_string := Some (take 511 (mh_query h)), rq_req_id_str := take 63 (mh_req_id_str h),
         rq_source_worker := take 127 (mh_source_worker h), rq_dest_worker := take 127 (mh_dest_worker h)\<rparr>,
       rx\<lparr>cx_method_buf := take 15 (mh_method h), cx_path_buf := take 255 (mh_path h),
         cx_qs_buf := take 511 (mh_query h)\<rparr>)"
  by (simp add: read_header_fields_def Let_def json_get_into_fields [OF assms])

lemma decode_local:
  assumes "header_ok h" and "received rx d (header_text h) body" and "length (header_text h) < HDR_SIZE"
    and "body \<noteq> []" and "length body < DPUMESH_SLOT_SIZE" and "flags d AND 0x0F \<noteq> CASE_INGRESS"
  shows "decode_request rx d = Some (delivered_request h body d,
    rx\<lparr>cx_method_buf := take 15 (mh_method h), cx_path_buf := take 255 (mh_path h),
       cx_qs_buf := take 511 (mh_query h)\<rparr>)"
proof -
  have pos: "header_len d > 0" "body_len d > 0"
    using assms(2,4) header_text_nonempty [of h]
    by (simp_all add: received_def word_less_nat_alt)
  have len: "read_len (header_len d) HDR_SIZE = length (header_text h)"
      "read_len (body_len d) DPUMESH_SLOT_SIZE = length body"
    using assms(2,3,5) by (auto simp: received_def read_len_def)
  have c: "cstring (header_text h) = header_text h"
    using header_text_NUL [OF assms(1)] by (simp add: cstring_def)
  show ?thesis
    using assms(2,6) pos
    by (simp add: decode_request_def Let_def blank_request_def received_def len c delivered_request_def
        read_header_fields_ok [OF assms(1)])
qed

section \<open>Requests\<close>

text \<open>The header of a request message.\<close>

definition sent_header :: "dpumesh_ctx \<Rightarrow> dpumesh_msg \<Rightarrow> mesh_header" where
  "sent_header cx msg =
     \<lparr>mh_method = nullable (m_method msg), mh_url = nullable (m_url msg),
      mh_path = fst (url_target (nullable (m_url msg))), mh_query = snd (url_target (nullable (m_url msg))),
      mh_status = 0, mh_req_id_str = ''creq-'' @ show_nat (unat (cx_next_req_id cx)),
      mh_source_worker = cx_worker_id cx, mh_dest_worker = []\<rparr>"

lemma request_header_text: "request_header cx msg = snprintf HDR_SIZE (header_text (sent_header cx msg))"
proof -
  have "unat (cx_next_req_id cx) < 2 ^ LENGTH(32)" by (rule unsigned_less)
  then have "unat (cx_next_req_id cx) < 10 ^ 10" by simp
  then have "length (show_nat (unat (cx_next_req_id cx))) \<le> 10" by (rule length_show_nat) simp
  then have "fst (snprintf 32 (''creq-'' @ show_nat (unat (cx_next_req_id cx)))) = ''creq-'' @ show_nat (unat (cx_next_req_id cx))"
    by (simp add: snprintf_def)
  then show ?thesis
    by (simp add: request_header_def Let_def split_beta serialize_header_def nullable_def sent_header_def)
qed

lemma tx_enqueue_frame:
  assumes "ctx_inv cx" and "tx_enqueue cx rid fl hdr n msg = Some (rc, cx')"
  shows "cx' = cx\<lparr>cx_tx_header := cx_tx_header cx', cx_tx_body := cx_tx_body cx', cx_tx_sq := cx_tx_sq cx'\<rparr>"
proof -
  obtain th tb sq where "cx' = cx\<lparr>cx_tx_header := th, cx_tx_body := tb, cx_tx_sq := sq\<rparr>"
    using tx_enqueue_outcome [OF _ _ _ assms(2)] assms(1) by (auto simp: ctx_inv_def)
  then show ?thesis by simp
qed

lemma queued_cong:
  "cx_tx_sq cx1 = cx_tx_sq cx \<Longrightarrow> cx_pod_id cx1 = cx_pod_id cx \<Longrightarrow>
     queued cx1 rid fl hdr body cx' = queued cx rid fl hdr body cx'"
  by (simp add: queued_def tx_descriptor_def)

lemma ctx_inv_tx_cong:
  "ctx_inv cx \<Longrightarrow> cx_tx_header cx1 = cx_tx_header cx \<Longrightarrow> cx_tx_body cx1 = cx_tx_body cx \<Longrightarrow>
     cx_rx_header cx1 = cx_rx_header cx \<Longrightarrow> cx_rx_body cx1 = cx_rx_body cx \<Longrightarrow>
     cx_tx_sq cx1 = cx_tx_sq cx \<Longrightarrow> cx_rx_sq cx1 = cx_rx_sq cx \<Longrightarrow>
     length (cx_response_pipe_fds cx1) = length (cx_response_pipe_fds cx) \<Longrightarrow>
     length (cx_inbound cx1) = length (cx_inbound cx) \<Longrightarrow> ctx_inv cx1"
  by (simp add: ctx_inv_def)

text \<open>The context a request is queued from: the request number is taken and the response pipe is
  registered.\<close>

definition with_response_pipe :: "dpumesh_ctx \<Rightarrow> int \<Rightarrow> int \<Rightarrow> dpumesh_ctx" where
  "with_response_pipe cx r w =
     cx\<lparr>cx_next_req_id := cx_next_req_id cx + 1, cx_pipes := pipe_open r w (cx_pipes cx),
        cx_response_pipe_fds := (cx_response_pipe_fds cx)[pending_index (cx_next_req_id cx) := w]\<rparr>"

lemma write_request_queued:
  assumes "ctx_inv cx" and "tx_free cx" and "m_type msg = DPUMESH_MSG_REQUEST"
    and "length (header_text (sent_header cx msg)) < HDR_SIZE" and "body_ok msg"
  shows "\<exists>cx'. dpumesh_write cx msg True (Some (r, w)) = Some (0, cx', Some r)
    \<and> queued cx (cx_next_req_id cx) 3 (header_text (sent_header cx msg)) (body_bytes msg) cx'
    \<and> cx' = (with_response_pipe cx r w)\<lparr>cx_tx_header := cx_tx_header cx', cx_tx_body := cx_tx_body cx',
        cx_tx_sq := cx_tx_sq cx'\<rparr>"
proof -
  let ?h = "header_text (sent_header cx msg)" and ?cx = "with_response_pipe cx r w"
  have h: "request_header cx msg = (?h, length ?h)"
    using assms(4) by (simp add: request_header_text snprintf_def)
  have inv: "ctx_inv ?cx" using assms(1) by (rule ctx_inv_tx_cong) (simp_all add: with_response_pipe_def)
  have free: "tx_free ?cx" using assms(2) by (simp add: tx_free_def with_response_pipe_def)
  obtain cx' where e: "tx_enqueue ?cx (cx_next_req_id cx) 3 ?h (length ?h) msg = Some (0, cx')"
      "queued ?cx (cx_next_req_id cx) 3 ?h (body_bytes msg) cx'"
    using tx_enqueue_queued [OF inv free assms(4,5)] by blast
  have "dpumesh_write cx msg True (Some (r, w)) = Some (0, cx', Some r)"
    using e(1) assms(3) by (simp add: dpumesh_write_def h with_response_pipe_def OP_REQUEST_def CASE_LOCAL_def)
  moreover have "queued cx (cx_next_req_id cx) 3 ?h (body_bytes msg) cx'"
    using e(2) by (subst queued_cong [symmetric, where ?cx1.0 = ?cx]) (simp_all add: with_response_pipe_def)
  ultimately show ?thesis using tx_enqueue_frame [OF inv e(1)] by blast
qed

lemma relayed_self:
  assumes "queued cx rid fl hdr body cx'"
  shows "relayed cx' (last (dr_list (cx_tx_sq cx')))
    (rx\<lparr>cx_rx_header := cx_tx_header cx', cx_rx_body := cx_tx_body cx'\<rparr>) (last (dr_list (cx_tx_sq cx')))"
proof -
  obtain hs bs where "0 \<le> hs" "hs < int DPUMESH_NUM_SLOTS" "0 \<le> bs" "bs < int DPUMESH_NUM_SLOTS"
      "last (dr_list (cx_tx_sq cx')) = tx_descriptor cx rid fl hs (length hdr) bs (length body)"
    using assms unfolding queued_def by (metis last_snoc)
  then show ?thesis by (simp add: relayed_def tx_descriptor_def sint_slot)
qed

lemma body_bytes_nonempty: "body_ok msg \<Longrightarrow> body_bytes msg \<noteq> []"
  using length_body_bytes [of msg] by (auto simp: has_body_def split: if_splits)

text \<open>C5. A request whose method, URL, path, query and names contain no double quote and no NUL (what
  \<open>header_injection\<close> does with a quote is another matter), and whose header and body fit their buffers,
  is accepted when there is room in the TX objects; and when the mesh has moved it to another worker,
  that worker decodes exactly the method, path, query, source worker, request number and body that were
  sent, cut to the receiver's buffers.\<close>

theorem request_delivered:
  assumes "ctx_inv cx" and "tx_free cx" and "m_type msg = DPUMESH_MSG_REQUEST"
    and "header_ok (sent_header cx msg)" and "length (header_text (sent_header cx msg)) < HDR_SIZE"
    and "body_ok msg" and "m_body_len msg < DPUMESH_SLOT_SIZE"
  shows "\<exists>cx'. dpumesh_write cx msg True (Some (r, w)) = Some (0, cx', Some r)
    \<and> cx_next_req_id cx' = cx_next_req_id cx + 1
    \<and> length (dr_list (cx_tx_sq cx')) = length (dr_list (cx_tx_sq cx)) + 1
    \<and> (\<forall>rx d. relayed cx' (last (dr_list (cx_tx_sq cx'))) rx d \<longrightarrow>
        (\<exists>rx'. decode_request rx d = Some (delivered_request (sent_header cx msg) (body_bytes msg) d, rx'))
        \<and> req_id d = cx_next_req_id cx)"
proof -
  let ?h = "header_text (sent_header cx msg)"
  obtain cx' where w: "dpumesh_write cx msg True (Some (r, w)) = Some (0, cx', Some r)"
      and q: "queued cx (cx_next_req_id cx) 3 ?h (body_bytes msg) cx'"
      and f: "cx' = (with_response_pipe cx r w)\<lparr>cx_tx_header := cx_tx_header cx', cx_tx_body := cx_tx_body cx',
        cx_tx_sq := cx_tx_sq cx'\<rparr>"
    using write_request_queued [OF assms(1-3,5,6)] by blast
  have len: "length (body_bytes msg) < DPUMESH_SLOT_SIZE"
    using assms(6,7) by (simp add: length_body_bytes DPUMESH_SLOT_SIZE_def)
  have "(\<exists>rx'. decode_request rx d = Some (delivered_request (sent_header cx msg) (body_bytes msg) d, rx'))
      \<and> req_id d = cx_next_req_id cx"
    if "relayed cx' (last (dr_list (cx_tx_sq cx'))) rx d" for rx d
  proof -
    have rc: "received rx d ?h (body_bytes msg)" "req_id d = cx_next_req_id cx" "flags d = 3"
      using queued_received [OF q that assms(5)] len by auto
    then have "flags d AND 0x0F \<noteq> CASE_INGRESS" by (simp add: CASE_INGRESS_def)
    from decode_local [OF assms(4) rc(1) assms(5) body_bytes_nonempty [OF assms(6)] len this] rc(2)
    show ?thesis by blast
  qed
  moreover have "cx_next_req_id cx' = cx_next_req_id cx + 1"
    by (subst f) (simp add: with_response_pipe_def)
  moreover have "length (dr_list (cx_tx_sq cx')) = length (dr_list (cx_tx_sq cx)) + 1"
    using q by (auto simp: queued_def)
  ultimately show ?thesis using w by blast
qed

text \<open>A fresh context, for concrete runs.\<close>

definition empty_pool :: buffer_pool where
  "empty_pool = \<lparr>bp_name = ''p'', bp_shm_path = ''/dev/shm/p'', bp_lock_path = ''/dev/shm/p.lock'',
     bp_num_slots = DPUMESH_NUM_SLOTS, bp_slot_size = DPUMESH_SLOT_SIZE,
     bp_total_size = DPUMESH_NUM_SLOTS + DPUMESH_NUM_SLOTS * DPUMESH_SLOT_SIZE, bp_shm_fd = 5, bp_mapped = True,
     bp_bitmap = replicate DPUMESH_NUM_SLOTS 0, bp_data = replicate (DPUMESH_NUM_SLOTS * DPUMESH_SLOT_SIZE) NUL\<rparr>"

definition demo_ctx :: dpumesh_ctx where
  "demo_ctx = \<lparr>cx_app_name = ''fe'', cx_worker_id = ''fe-worker-0'', cx_pod_id = 1, cx_notify_fd = 3,
     cx_notify_write_fd = 4, cx_poller_running = True, cx_next_req_id = 1,
     cx_response_pipe_fds = replicate DPUMESH_MAX_PENDING (-1),
     cx_inbound = replicate DPUMESH_MAX_PENDING blank_inbound, cx_tx_header = empty_pool, cx_tx_body = empty_pool,
     cx_rx_header = empty_pool, cx_rx_body = empty_pool,
     cx_tx_sq = dr_reset (replicate DPUMESH_MAX_DESCRIPTORS zero_descriptor),
     cx_rx_sq = dr_reset (replicate DPUMESH_MAX_DESCRIPTORS zero_descriptor),
     cx_pipes = pipe_open 3 4 no_pipes, cx_method_buf = [], cx_path_buf = [], cx_qs_buf = []\<rparr>"

lemma empty_pool_ok: "pool_ok empty_pool"
  by (simp add: pool_ok_def bp_inv_def empty_pool_def DPUMESH_SLOT_SIZE_def)

lemma empty_pool_used: "bp_used empty_pool = {}"
  by (auto simp: bp_used_def empty_pool_def)

lemma dr_reset_ok: "dr_inv (dr_reset (replicate DPUMESH_MAX_DESCRIPTORS zero_descriptor))"
    "dr_list (dr_reset (replicate DPUMESH_MAX_DESCRIPTORS zero_descriptor)) = []"
  by (simp_all add: dr_inv_def dr_reset_def dr_list_def DPUMESH_MAX_DESCRIPTORS_def)

lemma demo_ctx_inv: "ctx_inv demo_ctx"
  by (simp add: ctx_inv_def demo_ctx_def empty_pool_ok dr_reset_ok(1))

lemma demo_ctx_free: "tx_free demo_ctx"
proof -
  have "(0::int) \<in> bp_slots empty_pool" by (simp add: bp_slots_def empty_pool_def DPUMESH_NUM_SLOTS_def)
  then show ?thesis by (auto simp: tx_free_def demo_ctx_def empty_pool_used dr_reset_ok(2))
qed

definition demo_msg :: dpumesh_msg where
  "demo_msg = \<lparr>m_type = DPUMESH_MSG_REQUEST, m_method = Some ''GET'', m_url = Some ''http://id/id?name=a'',
     m_status_code = 0, m_orig_index = 0, m_body = None, m_body_len = 0\<rparr>"

lemma show_one: "show_nat (Suc 0) = ''1''"
  by (simp add: show_nat.simps digit_char_def char_of_eq_iff)

lemma show_zero: "show_int 0 = ''0''"
  by (simp add: show_int_def show_nat.simps digit_char_def char_of_eq_iff)

lemma demo_sent_header:
  "sent_header demo_ctx demo_msg = \<lparr>mh_method = ''GET'', mh_url = ''http://id/id?name=a'', mh_path = ''/id'',
     mh_query = ''name=a'', mh_status = 0, mh_req_id_str = ''creq-1'', mh_source_worker = ''fe-worker-0'',
     mh_dest_worker = []\<rparr>"
  by (simp add: sent_header_def demo_ctx_def demo_msg_def nullable_def url_target_def url_path_def Let_def
      snprintf_def show_one)

lemma demo_msg_ok:
  "header_ok (sent_header demo_ctx demo_msg)" "length (header_text (sent_header demo_ctx demo_msg)) < HDR_SIZE"
  by (simp_all add: demo_sent_header header_ok_def plain_def in_i32_def header_text_def show_zero HDR_SIZE_def)

lemma demo_msg_body:
  "body_ok demo_msg" "m_body_len demo_msg < DPUMESH_SLOT_SIZE" "m_type demo_msg = DPUMESH_MSG_REQUEST"
  by (simp_all add: body_ok_def demo_msg_def DPUMESH_SLOT_SIZE_def)

theorem request_delivered_witness:
  "\<exists>cx' rx d rx'. dpumesh_write demo_ctx demo_msg True (Some (5, 6)) = Some (0, cx', Some 5)
     \<and> relayed cx' (last (dr_list (cx_tx_sq cx'))) rx d
     \<and> decode_request rx d = Some (delivered_request (sent_header demo_ctx demo_msg) [NUL] d, rx')"
proof -
  let ?h = "header_text (sent_header demo_ctx demo_msg)"
  obtain cx' where w: "dpumesh_write demo_ctx demo_msg True (Some (5, 6)) = Some (0, cx', Some 5)"
      and d: "\<And>rx d. relayed cx' (last (dr_list (cx_tx_sq cx'))) rx d \<Longrightarrow>
        \<exists>rx'. decode_request rx d = Some (delivered_request (sent_header demo_ctx demo_msg) (body_bytes demo_msg) d, rx')"
    using request_delivered [OF demo_ctx_inv demo_ctx_free demo_msg_body(3) demo_msg_ok demo_msg_body(1,2), of 5 6] by blast
  have "queued demo_ctx (cx_next_req_id demo_ctx) 3 ?h (body_bytes demo_msg) cx'"
    using write_request_queued [OF demo_ctx_inv demo_ctx_free demo_msg_body(3) demo_msg_ok(2) demo_msg_body(1), of 5 6] w by auto
  from relayed_self [OF this, of demo_ctx] d w show ?thesis
    by (fastforce simp: body_bytes_def demo_msg_def)
qed

section \<open>Responses\<close>

definition answer_header :: "dpumesh_ctx \<Rightarrow> dpumesh_msg \<Rightarrow> mesh_header" where
  "answer_header cx msg = (let ib = cx_inbound cx ! m_orig_index msg in
     \<lparr>mh_method = [], mh_url = [], mh_path = [], mh_query = [], mh_status = m_status_code msg,
      mh_req_id_str = ib_req_id_str ib, mh_source_worker = cx_worker_id cx, mh_dest_worker = ib_source_worker ib\<rparr>)"

definition answer_flags :: "dpumesh_ctx \<Rightarrow> dpumesh_msg \<Rightarrow> 8 word" where
  "answer_flags cx msg = OP_RESPONSE OR
     (if ib_source_worker (cx_inbound cx ! m_orig_index msg) = [] then CASE_INGRESS else CASE_LOCAL)"

text \<open>The caller of the request waits on the read end of a registered pipe.\<close>

definition waiting :: "dpumesh_ctx \<Rightarrow> u32 \<Rightarrow> int \<Rightarrow> int \<Rightarrow> bool" where
  "waiting cx rid r w \<longleftrightarrow> 0 \<le> w \<and> cx_response_pipe_fds cx ! pending_index rid = w
     \<and> pipe_ends (cx_pipes cx) r w \<and> pipe_contents r (cx_pipes cx) = []"

lemma write_response_queued:
  assumes "ctx_inv cx" and "tx_free cx" and "m_type msg \<noteq> DPUMESH_MSG_REQUEST"
    and "m_orig_index msg < DPUMESH_MAX_PENDING"
    and "length (header_text (answer_header cx msg)) < HDR_SIZE" and "body_ok msg"
  shows "\<exists>cx'. dpumesh_write cx msg False None = Some (0, cx', None)
    \<and> queued cx (ib_req_id (cx_inbound cx ! m_orig_index msg)) (answer_flags cx msg)
        (header_text (answer_header cx msg)) (body_bytes msg) cx'"
proof -
  let ?h = "header_text (answer_header cx msg)" and ?ib = "cx_inbound cx ! m_orig_index msg"
  let ?cx = "cx\<lparr>cx_inbound := (cx_inbound cx)[m_orig_index msg := ?ib\<lparr>ib_active := False\<rparr>]\<rparr>"
  have h: "response_header cx msg ?ib = (?h, length ?h)"
    using assms(5) by (simp add: response_header_def serialize_header_def snprintf_def nullable_def
      answer_header_def Let_def)
  have inv: "ctx_inv ?cx" using assms(1) by (rule ctx_inv_tx_cong) simp_all
  have free: "tx_free ?cx" using assms(2) by (simp add: tx_free_def)
  obtain cx' where e: "tx_enqueue ?cx (ib_req_id ?ib) (answer_flags cx msg) ?h (length ?h) msg = Some (0, cx')"
      "queued ?cx (ib_req_id ?ib) (answer_flags cx msg) ?h (body_bytes msg) cx'"
    using tx_enqueue_queued [OF inv free assms(5,6)] by blast
  have "m_orig_index msg < length (cx_inbound cx)" using assms(1,4) by (simp add: ctx_inv_def)
  then have "dpumesh_write cx msg False None = Some (0, cx', None)"
    using e(1) assms(3) by (simp add: dpumesh_write_def h answer_flags_def Let_def)
  moreover have "queued cx (ib_req_id ?ib) (answer_flags cx msg) ?h (body_bytes msg) cx'"
    using e(2) by (subst queued_cong [symmetric, where ?cx1.0 = ?cx]) simp_all
  ultimately show ?thesis by blast
qed

lemma dr_get_head:
  assumes "dr_inv dr" and "dr_list dr = d # ds"
  obtains dr' where "dr_get dr = Some (Some d, dr')" "dr_inv dr'" "dr_list dr' = ds"
proof -
  have "dr_count dr \<noteq> 0" using assms(2) by (auto simp: dr_list_def)
  from dr_get_nonempty [OF assms(1) this] dr_list_get [OF assms(1) this refl] assms(2) that
  show ?thesis by simp
qed

lemma poller_response:
  assumes "ctx_inv cx" and "cx_poller_running cx" and "dr_list (cx_rx_sq cx) = d # ds"
    and "valid d = 1" and "is_response d" and "waiting cx (req_id d) r w"
  shows "\<exists>cx'. dpumesh_poller_step cx = Some cx' \<and> pipe_contents r (cx_pipes cx') = [d]
    \<and> cx' = cx\<lparr>cx_rx_sq := cx_rx_sq cx', cx_pipes := cx_pipes cx',
        cx_response_pipe_fds := (cx_response_pipe_fds cx)[pending_index (req_id d) := -1]\<rparr>
    \<and> dr_list (cx_rx_sq cx') = ds \<and> dr_inv (cx_rx_sq cx')"
proof -
  have "dr_inv (cx_rx_sq cx)" using assms(1) by (simp add: ctx_inv_def)
  then obtain sq where sq: "dr_get (cx_rx_sq cx) = Some (Some d, sq)" "dr_inv sq" "dr_list sq = ds"
    using assms(3) by (rule dr_get_head)
  let ?ps = "cx_pipes cx"
  obtain k where k: "map_of (pp_fds ?ps) r = Some (Read_End k)" "map_of (pp_fds ?ps) w = Some (Write_End k)"
      "pp_data ?ps k = []" "0 \<le> w" "cx_response_pipe_fds cx ! pending_index (req_id d) = w"
    using assms(6) by (auto simp: waiting_def pipe_ends_def pipe_contents_def)
  let ?ps1 = "?ps\<lparr>pp_data := (pp_data ?ps)(k := [d])\<rparr>"
  have w: "pipe_write w d ?ps = Some ?ps1"
    using pipe_write_ends [OF k(1,2), of d] k(3) by (simp add: PIPE_CAPACITY_def)
  have "r \<noteq> w" using k(1,2) by auto
  then have "pipe_contents r (pipe_close w ?ps1) = [d]"
    using k(1) by (simp add: pipe_contents_close) (simp add: pipe_contents_def)
  then show ?thesis
    using assms(2,4,5) sq k(4,5) w by (simp add: dpumesh_poller_step_def poller_deliver_def Let_def)
qed

lemma read_response_ok:
  assumes "header_ok h" and "received cx d (header_text h) body" and "length (header_text h) < HDR_SIZE"
    and "body \<noteq> []" and "length body < DPUMESH_SLOT_SIZE" and "pipe_contents r (cx_pipes cx) = [d]"
  shows "\<exists>cx'. dpumesh_read_response cx r = Some (0, Some
      \<lparr>rs_status_code = mh_status h, rs_body = Some body, rs_body_len = length body,
       rs_req_id_str = take 63 (mh_req_id_str h), rs_source_worker = take 127 (mh_source_worker h),
       rs_header_slot = sint (header_buf_slot d), rs_body_slot = sint (body_buf_slot d)\<rparr>, cx')"
proof -
  obtain ps where ps: "pipe_read r (cx_pipes cx) = (Some d, ps)"
    using pipe_contents_read [OF assms(6)] by (metis prod.collapse)
  have pos: "header_len d > 0" "body_len d > 0"
    using assms(2,4) header_text_nonempty [of h] by (simp_all add: received_def word_less_nat_alt)
  have len: "read_len (header_len d) HDR_SIZE = length (header_text h)"
      "read_len (body_len d) DPUMESH_SLOT_SIZE = length body"
    using assms(2,3,5) by (auto simp: received_def read_len_def)
  have c: "cstring (header_text h) = header_text h"
    using header_text_NUL [OF assms(1)] by (simp add: cstring_def)
  show ?thesis
    using assms(2) pos
    by (simp add: dpumesh_read_response_def ps Let_def received_def len c json_get_into_fields [OF assms(1)]
        header_status [OF assms(1)])
qed

lemma is_response_answer: "flags d = answer_flags cx msg \<Longrightarrow> is_response d"
  by (simp add: is_response_def answer_flags_def OP_RESPONSE_def CASE_INGRESS_def CASE_LOCAL_def)

text \<open>C6. A response written with room in the TX objects is accepted, and when the mesh has put it at the
  head of the requester's ring, one iteration of that worker's poller wakes the caller that waits for
  this request number, and the caller reads the status, the body and the routing names that were
  sent.\<close>

theorem response_delivered:
  assumes "ctx_inv cx" and "tx_free cx" and "m_type msg = DPUMESH_MSG_RESPONSE"
    and "m_orig_index msg < DPUMESH_MAX_PENDING" and "header_ok (answer_header cx msg)"
    and "length (header_text (answer_header cx msg)) < HDR_SIZE" and "body_ok msg"
    and "m_body_len msg < DPUMESH_SLOT_SIZE"
  shows "\<exists>cx'. dpumesh_write cx msg False None = Some (0, cx', None)
    \<and> (\<forall>rx d ds r w. relayed cx' (last (dr_list (cx_tx_sq cx'))) rx d \<longrightarrow> ctx_inv rx \<longrightarrow> cx_poller_running rx
         \<longrightarrow> dr_list (cx_rx_sq rx) = d # ds
         \<longrightarrow> waiting rx (ib_req_id (cx_inbound cx ! m_orig_index msg)) r w
         \<longrightarrow> (\<exists>rx1 rs rx2. dpumesh_poller_step rx = Some rx1 \<and> dpumesh_read_response rx1 r = Some (0, Some rs, rx2)
           \<and> rs_status_code rs = m_status_code msg \<and> rs_body rs = Some (body_bytes msg)
           \<and> rs_body_len rs = length (body_bytes msg)
           \<and> rs_req_id_str rs = take 63 (ib_req_id_str (cx_inbound cx ! m_orig_index msg))
           \<and> rs_source_worker rs = take 127 (cx_worker_id cx)))"
proof -
  let ?ib = "cx_inbound cx ! m_orig_index msg" and ?h = "answer_header cx msg"
  have ty: "m_type msg \<noteq> DPUMESH_MSG_REQUEST"
    using assms(3) by (simp add: DPUMESH_MSG_REQUEST_def DPUMESH_MSG_RESPONSE_def)
  obtain cx' where w: "dpumesh_write cx msg False None = Some (0, cx', None)"
      and q: "queued cx (ib_req_id ?ib) (answer_flags cx msg) (header_text ?h) (body_bytes msg) cx'"
    using write_response_queued [OF assms(1,2) ty assms(4,6,7)] by blast
  have len: "length (body_bytes msg) < DPUMESH_SLOT_SIZE"
    using assms(7,8) by (simp add: length_body_bytes DPUMESH_SLOT_SIZE_def)
  have "\<exists>rx1 rs rx2. dpumesh_poller_step rx = Some rx1 \<and> dpumesh_read_response rx1 r = Some (0, Some rs, rx2)
      \<and> rs_status_code rs = m_status_code msg \<and> rs_body rs = Some (body_bytes msg)
      \<and> rs_body_len rs = length (body_bytes msg) \<and> rs_req_id_str rs = take 63 (ib_req_id_str ?ib)
      \<and> rs_source_worker rs = take 127 (cx_worker_id cx)"
    if rel: "relayed cx' (last (dr_list (cx_tx_sq cx'))) rx d" and rx: "ctx_inv rx" "cx_poller_running rx"
      "dr_list (cx_rx_sq rx) = d # ds" and wt: "waiting rx (ib_req_id ?ib) r w" for rx d ds r w
  proof -
    have rc: "received rx d (header_text ?h) (body_bytes msg)" "req_id d = ib_req_id ?ib"
        "flags d = answer_flags cx msg" "valid d = 1"
      using queued_received [OF q rel assms(6)] len by auto
    have wt': "waiting rx (req_id d) r w" using wt rc(2) by simp
    obtain rx1 where p: "dpumesh_poller_step rx = Some rx1" "pipe_contents r (cx_pipes rx1) = [d]"
        "rx1 = rx\<lparr>cx_rx_sq := cx_rx_sq rx1, cx_pipes := cx_pipes rx1,
          cx_response_pipe_fds := (cx_response_pipe_fds rx)[pending_index (req_id d) := -1]\<rparr>"
      using poller_response [OF rx rc(4) is_response_answer [OF rc(3)] wt'] by blast
    have "received rx1 d (header_text ?h) (body_bytes msg)"
      using rc(1) by (subst p(3)) (simp add: received_def)
    from read_response_ok [OF assms(5) this assms(6) body_bytes_nonempty [OF assms(7)] len p(2)] p(1)
    show ?thesis by (auto simp: answer_header_def Let_def)
  qed
  with w show ?thesis by blast
qed

definition demo_answer :: dpumesh_msg where
  "demo_answer = \<lparr>m_type = DPUMESH_MSG_RESPONSE, m_method = None, m_url = None, m_status_code = 0,
     m_orig_index = 0, m_body = Some ''ok'', m_body_len = 2\<rparr>"

lemma demo_answer_ok:
  "m_type demo_answer = DPUMESH_MSG_RESPONSE" "m_orig_index demo_answer < DPUMESH_MAX_PENDING"
  "header_ok (answer_header demo_ctx demo_answer)" "length (header_text (answer_header demo_ctx demo_answer)) < HDR_SIZE"
  "body_ok demo_answer" "m_body_len demo_answer < DPUMESH_SLOT_SIZE"
  by (simp_all add: demo_answer_def demo_ctx_def blank_inbound_def DPUMESH_MAX_PENDING_def answer_header_def
      header_ok_def plain_def in_i32_def header_text_def show_zero HDR_SIZE_def body_ok_def DPUMESH_SLOT_SIZE_def)

text \<open>A requester of request 0 whose ring and RX slots hold what the answer left in the TX objects.\<close>

definition demo_requester :: "dpumesh_ctx \<Rightarrow> dpumesh_ctx" where
  "demo_requester cx = demo_ctx\<lparr>cx_rx_header := cx_tx_header cx, cx_rx_body := cx_tx_body cx,
     cx_rx_sq := cx_tx_sq cx, cx_pipes := pipe_open 5 6 no_pipes,
     cx_response_pipe_fds := (cx_response_pipe_fds demo_ctx)[0 := 6]\<rparr>"

lemma demo_requester_waits: "waiting (demo_requester cx) 0 5 6"
  by (simp add: waiting_def demo_requester_def demo_ctx_def pending_index_def DPUMESH_MAX_PENDING_def
      pipe_ends_def pipe_contents_def pipe_open_def no_pipes_def)

theorem response_delivered_witness:
  "\<exists>cx' rx1 rs rx2. dpumesh_write demo_ctx demo_answer False None = Some (0, cx', None)
     \<and> dpumesh_poller_step (demo_requester cx') = Some rx1 \<and> dpumesh_read_response rx1 5 = Some (0, Some rs, rx2)
     \<and> rs_body rs = Some ''ok''"
proof -
  let ?h = "header_text (answer_header demo_ctx demo_answer)"
  have ib: "cx_inbound demo_ctx ! m_orig_index demo_answer = blank_inbound"
    by (simp add: demo_ctx_def demo_answer_def DPUMESH_MAX_PENDING_def)
  obtain cx' where w: "dpumesh_write demo_ctx demo_answer False None = Some (0, cx', None)"
      and d: "\<And>rx d ds r w. relayed cx' (last (dr_list (cx_tx_sq cx'))) rx d \<Longrightarrow> ctx_inv rx \<Longrightarrow> cx_poller_running rx
        \<Longrightarrow> dr_list (cx_rx_sq rx) = d # ds \<Longrightarrow> waiting rx (ib_req_id blank_inbound) r w
        \<Longrightarrow> \<exists>rx1 rs rx2. dpumesh_poller_step rx = Some rx1 \<and> dpumesh_read_response rx1 r = Some (0, Some rs, rx2)
          \<and> rs_body rs = Some (body_bytes demo_answer)"
    using response_delivered [OF demo_ctx_inv demo_ctx_free demo_answer_ok] unfolding ib by metis
  have ty: "m_type demo_answer \<noteq> DPUMESH_MSG_REQUEST"
    by (simp add: demo_answer_def DPUMESH_MSG_REQUEST_def DPUMESH_MSG_RESPONSE_def)
  have q: "queued demo_ctx 0 (answer_flags demo_ctx demo_answer) ?h (body_bytes demo_answer) cx'"
    using write_response_queued [OF demo_ctx_inv demo_ctx_free ty demo_answer_ok(2,4,5)] w
    by (simp add: ib blank_inbound_def)
  then obtain dd where dd: "dr_list (cx_tx_sq cx') = [dd]"
    by (auto simp: queued_def demo_ctx_def dr_reset_ok(2))
  have "ctx_inv cx'" using dpumesh_write_outcome [OF demo_ctx_inv w] by simp
  then have inv: "ctx_inv (demo_requester cx')"
    using demo_ctx_inv by (simp add: ctx_inv_def demo_requester_def)
  have "relayed cx' dd (demo_requester cx') dd"
    using relayed_self [OF q, of "demo_requester cx'"] dd by (simp add: relayed_def demo_requester_def)
  moreover have "cx_poller_running (demo_requester cx')" "dr_list (cx_rx_sq (demo_requester cx')) = [dd]"
    using dd by (simp_all add: demo_requester_def demo_ctx_def)
  moreover have "waiting (demo_requester cx') (ib_req_id blank_inbound) 5 6"
    using demo_requester_waits by (simp add: blank_inbound_def)
  ultimately show ?thesis
    using d [OF _ inv] w dd by (fastforce simp: body_bytes_def demo_answer_def)
qed

section \<open>Failed writes\<close>

text \<open>C28. Whatever the message and however full the TX objects, \<open>dpumesh_write\<close> returns 0 or -1, keeps the
  context well formed, and when it returns -1 no TX slot stays allocated and nothing was queued.\<close>

theorem dpumesh_write_no_leak:
  assumes "ctx_inv cx" and "dpumesh_write cx msg want_fd fds = Some (rc, cx', out)"
  shows "ctx_inv cx' \<and> (rc = 0 \<or> rc = -1)
    \<and> (rc = -1 \<longrightarrow> bp_used (cx_tx_header cx') = bp_used (cx_tx_header cx)
        \<and> bp_used (cx_tx_body cx') = bp_used (cx_tx_body cx) \<and> dr_list (cx_tx_sq cx') = dr_list (cx_tx_sq cx))"
  using dpumesh_write_outcome [OF assms] by auto

definition full_pool :: buffer_pool where
  "full_pool = empty_pool\<lparr>bp_bitmap := replicate DPUMESH_NUM_SLOTS 1\<rparr>"

lemma ints_below: "{int i |i. i < n} = {0 ..< int n}"
proof (intro set_eqI iffI)
  fix x assume "x \<in> {0 ..< int n}"
  then have "x = int (nat x) \<and> nat x < n" by auto
  then show "x \<in> {int i |i. i < n}" by blast
qed auto

lemma full_pool_ok: "pool_ok full_pool" "bp_used full_pool = bp_slots full_pool"
proof -
  show "pool_ok full_pool"
    by (simp add: pool_ok_def bp_inv_def full_pool_def empty_pool_def DPUMESH_SLOT_SIZE_def)
  show "bp_used full_pool = bp_slots full_pool"
    by (simp add: bp_used_def bp_slots_def full_pool_def empty_pool_def ints_below cong: conj_cong)
qed

definition busy_ctx :: dpumesh_ctx where
  "busy_ctx = demo_ctx\<lparr>cx_tx_header := full_pool\<rparr>"

lemma busy_ctx_inv: "ctx_inv busy_ctx"
  using demo_ctx_inv by (simp add: ctx_inv_def busy_ctx_def full_pool_ok(1))

lemma write_refused:
  assumes "ctx_inv cx" and "bp_used (cx_tx_header cx) = bp_slots (cx_tx_header cx)"
    and "m_type msg = DPUMESH_MSG_REQUEST"
  shows "dpumesh_write cx msg True (Some (r, w)) = Some (-1, with_response_pipe cx r w, Some r)"
proof -
  obtain hdr n where h: "request_header cx msg = (hdr, n)" by (rule prod.exhaust)
  have a: "bp_alloc (cx_tx_header cx) = (-1, cx_tx_header cx)"
    using assms(1,2) by (intro bp_alloc_full) (simp_all add: ctx_inv_def pool_ok_def)
  show ?thesis
    using assms(3) by (simp add: dpumesh_write_def h Let_def tx_enqueue_def a with_response_pipe_def)
qed

theorem dpumesh_write_no_leak_witness:
  "\<exists>cx'. dpumesh_write busy_ctx demo_msg True (Some (5, 6)) = Some (-1, cx', Some 5)
     \<and> bp_used (cx_tx_body cx') = bp_used (cx_tx_body busy_ctx) \<and> dr_list (cx_tx_sq cx') = []"
proof -
  have "bp_used (cx_tx_header busy_ctx) = bp_slots (cx_tx_header busy_ctx)"
    by (simp add: busy_ctx_def full_pool_ok(2))
  from write_refused [OF busy_ctx_inv this demo_msg_body(3), of 5 6]
  obtain cx' where w: "dpumesh_write busy_ctx demo_msg True (Some (5, 6)) = Some (-1, cx', Some 5)" by blast
  from dpumesh_write_no_leak [OF busy_ctx_inv w] w show ?thesis
    by (simp add: busy_ctx_def demo_ctx_def dr_reset_ok(2))
qed

text \<open>A request that is refused for want of a TX slot leaves its response pipe behind: both ends stay
  open, and the write end stays registered under the request number although the caller was told
  that the write failed.\<close>

theorem failed_write_keeps_pipe:
  assumes "ctx_inv cx" and "bp_used (cx_tx_header cx) = bp_slots (cx_tx_header cx)"
    and "m_type msg = DPUMESH_MSG_REQUEST" and "r \<noteq> w"
  shows "\<exists>cx'. dpumesh_write cx msg True (Some (r, w)) = Some (-1, cx', Some r)
    \<and> pipe_ends (cx_pipes cx') r w \<and> cx_response_pipe_fds cx' ! pending_index (cx_next_req_id cx) = w"
proof -
  have "pending_index (cx_next_req_id cx) < length (cx_response_pipe_fds cx)"
    using assms(1) pending_index_less by (simp add: ctx_inv_def)
  then show ?thesis
    using write_refused [OF assms(1-3), of r w] assms(4)
    by (auto simp: with_response_pipe_def pipe_ends_def pipe_open_def)
qed

theorem failed_write_keeps_pipe_witness:
  "\<exists>cx'. dpumesh_write busy_ctx demo_msg True (Some (5, 6)) = Some (-1, cx', Some 5) \<and> pipe_ends (cx_pipes cx') 5 6"
proof -
  have "bp_used (cx_tx_header busy_ctx) = bp_slots (cx_tx_header busy_ctx)"
    by (simp add: busy_ctx_def full_pool_ok(2))
  from failed_write_keeps_pipe [OF busy_ctx_inv this demo_msg_body(3), of 5 6] show ?thesis by auto
qed

section \<open>Misrouted responses\<close>

lemma waiting_index: "pending_index rid = pending_index rid' \<Longrightarrow> waiting cx rid r w = waiting cx rid' r w"
  by (simp add: waiting_def)

text \<open>C34. Responses are matched to callers by the request number modulo 256 only: while a caller waits for
  request \<open>rid\<close>, a late response to the request 256 numbers away is handed to that caller.\<close>

theorem response_misrouted:
  assumes "ctx_inv cx" and "cx_poller_running cx" and "dr_list (cx_rx_sq cx) = d # ds"
    and "valid d = 1" and "is_response d" and "waiting cx rid r w" and "req_id d = rid + 256"
  shows "\<exists>cx'. dpumesh_poller_step cx = Some cx' \<and> pipe_contents r (cx_pipes cx') = [d] \<and> req_id d \<noteq> rid"
proof -
  have "unat (rid + 256) mod 256 = unat rid mod 256"
    by (simp add: unat_word_ariths mod_mod_cancel)
  then have "waiting cx (req_id d) r w"
    using assms(6,7) waiting_index [of "rid + 256" rid] by (simp add: pending_index_def DPUMESH_MAX_PENDING_def)
  from poller_response [OF assms(1-5) this] assms(7) show ?thesis by auto
qed

definition late_response :: sw_descriptor where
  "late_response = zero_descriptor\<lparr>req_id := 257, flags := 0x13, valid := 1\<rparr>"

definition late_ctx :: dpumesh_ctx where
  "late_ctx = demo_ctx\<lparr>cx_pipes := pipe_open 5 6 no_pipes,
     cx_response_pipe_fds := (cx_response_pipe_fds demo_ctx)[1 := 6],
     cx_rx_sq := (dr_reset (replicate DPUMESH_MAX_DESCRIPTORS late_response))\<lparr>dr_tail := 1, dr_count := 1\<rparr>\<rparr>"

theorem response_misrouted_witness:
  "\<exists>cx'. dpumesh_poller_step late_ctx = Some cx' \<and> pipe_contents 5 (cx_pipes cx') = [late_response]
     \<and> req_id late_response \<noteq> 1"
proof -
  have "dr_inv (cx_rx_sq late_ctx)"
    by (simp add: late_ctx_def dr_inv_def dr_reset_def DPUMESH_MAX_DESCRIPTORS_def)
  then have inv: "ctx_inv late_ctx" using demo_ctx_inv by (simp add: ctx_inv_def late_ctx_def)
  have ring: "dr_list (cx_rx_sq late_ctx) = [late_response]"
    by (simp add: late_ctx_def dr_list_def dr_reset_def DPUMESH_MAX_DESCRIPTORS_def)
  have "waiting late_ctx 1 5 6"
    by (simp add: waiting_def late_ctx_def demo_ctx_def pending_index_def DPUMESH_MAX_PENDING_def
      pipe_ends_def pipe_contents_def pipe_open_def no_pipes_def)
  moreover have "cx_poller_running late_ctx" by (simp add: late_ctx_def demo_ctx_def)
  moreover have "valid late_response = 1" "is_response late_response" "req_id late_response = 1 + 256"
    by (simp_all add: late_response_def is_response_def OP_RESPONSE_def)
  ultimately show ?thesis using response_misrouted [OF inv _ ring] by blast
qed

section \<open>Draining the notify pipe\<close>

lemma bp_read_total: "pool_ok bp \<Longrightarrow> n \<le> DPUMESH_SLOT_SIZE \<Longrightarrow> \<exists>r bs. bp_read bp s n = Some (r, bs)"
  using bp_read_Some [of bp s n] by (cases "0 \<le> s \<and> s < int (bp_num_slots bp)") (auto simp: pool_ok_def bp_read_def)

lemma read_len_le: "0 < sz \<Longrightarrow> read_len len sz < sz"
  by (simp add: read_len_def)

text \<open>Decoding a message between workers never fails, and changes only the static text buffers.\<close>

definition same_but_bufs :: "dpumesh_ctx \<Rightarrow> dpumesh_ctx \<Rightarrow> bool" where
  "same_but_bufs cx cx' \<longleftrightarrow> cx_pipes cx' = cx_pipes cx \<and> cx_notify_fd cx' = cx_notify_fd cx
     \<and> cx_rx_header cx' = cx_rx_header cx \<and> cx_rx_body cx' = cx_rx_body cx \<and> (ctx_inv cx \<longrightarrow> ctx_inv cx')"

lemma same_but_bufs_refl: "same_but_bufs cx cx"
  by (simp add: same_but_bufs_def)

lemma read_header_fields_frame: "read_header_fields cx rq j = (rq', cx') \<Longrightarrow> same_but_bufs cx cx'"
  by (auto simp: same_but_bufs_def read_header_fields_def Let_def ctx_inv_def)

lemma case_flag_blank: "rq_case_flag (blank_request d) = flags d AND 0x0F"
  by (simp add: blank_request_def)

lemma decode_local_total:
  assumes "ctx_inv cx" and "flags d AND 0x0F \<noteq> CASE_INGRESS"
  shows "\<exists>rq cx'. decode_request cx d = Some (rq, cx') \<and> same_but_bufs cx cx'"
proof -
  have "read_len (header_len d) HDR_SIZE \<le> DPUMESH_SLOT_SIZE" "read_len (body_len d) DPUMESH_SLOT_SIZE \<le> DPUMESH_SLOT_SIZE"
    using read_len_le [of HDR_SIZE "header_len d"] read_len_le [of DPUMESH_SLOT_SIZE "body_len d"]
    by (simp_all add: HDR_SIZE_def DPUMESH_SLOT_SIZE_def)
  moreover have "pool_ok (cx_rx_header cx)" "pool_ok (cx_rx_body cx)" using assms(1) by (simp_all add: ctx_inv_def)
  ultimately obtain r hs r' bs where
      h: "bp_read (cx_rx_header cx) (sint (header_buf_slot d)) (read_len (header_len d) HDR_SIZE) = Some (r, hs)" and
      b: "bp_read (cx_rx_body cx) (sint (body_buf_slot d)) (read_len (body_len d) DPUMESH_SLOT_SIZE) = Some (r', bs)"
    using bp_read_total by blast
  let ?hdr = "sint (header_buf_slot d) \<ge> 0 \<and> header_len d > 0"
  obtain rq1 cx1 where p: "(if ?hdr then read_header_fields cx (blank_request d) (cstring hs)
      else (blank_request d, cx)) = (rq1, cx1)" by (rule prod.exhaust)
  then have sb: "same_but_bufs cx cx1" by (auto simp: same_but_bufs_refl split: if_splits dest: read_header_fields_frame)
  have "(if ?hdr then do {
      (_, hs) \<leftarrow> bp_read (cx_rx_header cx) (sint (header_buf_slot d)) (read_len (header_len d) HDR_SIZE);
      Some (read_header_fields cx (blank_request d) (cstring hs)) } else Some (blank_request d, cx)) = Some (rq1, cx1)"
    using p by (cases ?hdr) (auto simp: h)
  then have "decode_request cx d = (if sint (body_buf_slot d) \<ge> 0 \<and> body_len d > 0
      then Some (rq1\<lparr>rq_body := Some bs, rq_body_len := length bs\<rparr>, cx1) else Some (rq1, cx1))"
    using assms(2) sb b by (simp add: decode_request_def Let_def case_flag_blank same_but_bufs_def)
  with sb show ?thesis by simp
qed

text \<open>The descriptor of an ingress message refers to no body, or to a text with a header object: otherwise the
  library reads a header it never wrote.\<close>

definition readable_msg :: "dpumesh_ctx \<Rightarrow> sw_descriptor \<Rightarrow> bool" where
  "readable_msg cx d \<longleftrightarrow> (flags d AND 0x0F = CASE_INGRESS \<longrightarrow> 0 \<le> sint (body_buf_slot d) \<longrightarrow> 0 < body_len d \<longrightarrow>
     (case bp_read (cx_rx_body cx) (sint (body_buf_slot d)) (read_len (body_len d) DPUMESH_SLOT_SIZE) of
        None \<Rightarrow> False
      | Some (_, bs) \<Rightarrow> fst (parse_case2_body (cstring bs) HDR_SIZE DPUMESH_SLOT_SIZE) = 0))"

lemma parse_case2_0:
  "fst (parse_case2_body c h b) = 0 \<Longrightarrow> \<exists>hdr body. parse_case2_body c h b = (0, Some hdr, Some body)"
  by (auto simp: parse_case2_body_def Let_def split: option.splits if_splits)

lemma decode_total:
  assumes "ctx_inv cx" and "readable_msg cx d"
  shows "\<exists>rq cx'. decode_request cx d = Some (rq, cx') \<and> same_but_bufs cx cx'"
proof (cases "flags d AND 0x0F = CASE_INGRESS")
  case True
  note flag = case_flag_blank [of d, unfolded True]
  show ?thesis
  proof (cases "0 \<le> sint (body_buf_slot d) \<and> 0 < body_len d")
    case False
    then show ?thesis using flag by (auto simp: decode_request_def Let_def same_but_bufs_refl)
  next
    case t: True
    then obtain r bs where b: "bp_read (cx_rx_body cx) (sint (body_buf_slot d)) (read_len (body_len d) DPUMESH_SLOT_SIZE) = Some (r, bs)"
        "fst (parse_case2_body (cstring bs) HDR_SIZE DPUMESH_SLOT_SIZE) = 0"
      using assms(2) True by (auto simp: readable_msg_def split: option.splits)
    obtain hdr body where p: "parse_case2_body (cstring bs) HDR_SIZE DPUMESH_SLOT_SIZE = (0, Some hdr, Some body)"
      using parse_case2_0 [OF b(2)] by blast
    obtain rq cx' where f: "read_header_fields cx (blank_request d) hdr = (rq, cx')" by (rule prod.exhaust)
    have "decode_request cx d = Some (rq\<lparr>rq_body := Some body, rq_body_len := length body\<rparr>, cx')"
      using flag t b(1) p f by (simp add: decode_request_def Let_def)
    with read_header_fields_frame [OF f] show ?thesis by blast
  qed
qed (use decode_local_total [OF assms(1)] in blast)

text \<open>The sizes of what is decoded: the text buffers of the library bound every field.\<close>

definition bufs_bounded :: "dpumesh_ctx \<Rightarrow> bool" where
  "bufs_bounded cx \<longleftrightarrow> length (cx_method_buf cx) \<le> 15 \<and> length (cx_path_buf cx) \<le> 255 \<and> length (cx_qs_buf cx) \<le> 511"

definition bounded_request :: "dpumesh_request \<Rightarrow> bool" where
  "bounded_request rq \<longleftrightarrow> length (nullable (rq_method rq)) \<le> 15 \<and> length (nullable (rq_path rq)) \<le> 255
     \<and> length (nullable (rq_query_string rq)) \<le> 511 \<and> length (nullable (rq_body rq)) < DPUMESH_SLOT_SIZE
     \<and> rq_body_len rq < DPUMESH_SLOT_SIZE
     \<and> rq_desc_index rq < DPUMESH_MAX_PENDING"

lemma json_get_into_length: "length old < n \<Longrightarrow> length (json_get_into old j k n) < n"
  by (auto simp: json_get_into_def json_get_str_def size_pred_def split: option.splits if_splits)

lemma length_copy_quoted: "length (copy_quoted i n prev s) \<le> size_pred n - i"
  by (induction i n prev s rule: copy_quoted.induct) (auto simp: Suc_diff_Suc)

lemma parse_case2_length: "parse_case2_body c h n = (r, Some hdr, Some body) \<Longrightarrow> 0 < n \<Longrightarrow> length body < n"
  using length_copy_quoted [of 0 n DQ] le_imp_less_Suc [of _ "n - 1"]
  by (auto simp: parse_case2_body_def Let_def size_pred_def split: option.splits if_splits)

lemma bp_read_length: "bp_read bp s n = Some (r, bs) \<Longrightarrow> length bs \<le> n"
  by (auto simp: bp_read_def Let_def split: if_splits)

lemma read_fields_bounded:
  assumes "read_header_fields cx rq j = (rq', cx')" and "bufs_bounded cx" and "bounded_request rq"
  shows "bufs_bounded cx' \<and> bounded_request rq' \<and> cx_worker_id cx' = cx_worker_id cx"
proof -
  have "length (json_get_into (cx_method_buf cx) j ''method'' 16) < 16" "length (json_get_into (cx_path_buf cx) j ''path'' 256) < 256"
    "length (json_get_into (cx_qs_buf cx) j ''query_string'' 512) < 512"
    using assms(2) by (auto simp: bufs_bounded_def intro!: json_get_into_length)
  then show ?thesis
    using assms(1,3) by (auto simp: read_header_fields_def Let_def bufs_bounded_def bounded_request_def nullable_def)
qed

lemma decode_bounded:
  assumes "decode_request cx d = Some (rq, cx')" and "bufs_bounded cx"
  shows "bufs_bounded cx' \<and> bounded_request rq \<and> cx_worker_id cx' = cx_worker_id cx"
proof -
  have blank: "bounded_request (blank_request d)"
    by (simp add: bounded_request_def blank_request_def nullable_def pending_index_less DPUMESH_SLOT_SIZE_def)
  have sz: "0 < DPUMESH_SLOT_SIZE" by (simp add: DPUMESH_SLOT_SIZE_def)
  have body: "bounded_request (r\<lparr>rq_body := Some b, rq_body_len := length b\<rparr>)" if "bounded_request r" "length b < DPUMESH_SLOT_SIZE" for r b
    using that by (simp add: bounded_request_def nullable_def)
  show ?thesis
  proof (cases "rq_case_flag (blank_request d) = CASE_INGRESS")
    case True
    show ?thesis
    proof (cases "sint (body_buf_slot d) \<ge> 0 \<and> body_len d > 0")
      case t: True
      then obtain bs where "(case parse_case2_body (cstring bs) HDR_SIZE DPUMESH_SLOT_SIZE of
          (rc, Some header_json, Some body) \<Rightarrow>
            let (rq', cx') = read_header_fields cx (blank_request d) header_json
            in Some (rq'\<lparr>rq_body := Some body, rq_body_len := length body\<rparr>, cx')
        | _ \<Rightarrow> None) = Some (rq, cx')"
        using assms(1) True by (auto simp: decode_request_def Let_def bind_eq_Some_conv)
      then obtain r j b rq' where j: "parse_case2_body (cstring bs) HDR_SIZE DPUMESH_SLOT_SIZE = (r, Some j, Some b)"
          "read_header_fields cx (blank_request d) j = (rq', cx')" "rq = rq'\<lparr>rq_body := Some b, rq_body_len := length b\<rparr>"
        by (auto split: prod.splits option.splits)
      from read_fields_bounded [OF j(2) assms(2) blank] body parse_case2_length [OF j(1) sz] j(3) show ?thesis by blast
    next
      case False
      then show ?thesis using assms True blank by (auto simp: decode_request_def Let_def split: if_splits)
    qed
  next
    case False
    then obtain rq1 where h: "(if sint (header_buf_slot d) \<ge> 0 \<and> header_len d > 0 then do {
          (_, hs) \<leftarrow> bp_read (cx_rx_header cx) (sint (header_buf_slot d)) (read_len (header_len d) HDR_SIZE);
          Some (read_header_fields cx (blank_request d) (cstring hs)) } else Some (blank_request d, cx)) = Some (rq1, cx')"
        and b: "rq = rq1 \<or> (\<exists>r bs. bp_read (cx_rx_body cx') (sint (body_buf_slot d)) (read_len (body_len d) DPUMESH_SLOT_SIZE) = Some (r, bs)
          \<and> rq = rq1\<lparr>rq_body := Some bs, rq_body_len := length bs\<rparr>)"
      using assms(1) by (auto simp: decode_request_def Let_def bind_eq_Some_conv split: if_splits)
    have k: "bufs_bounded cx' \<and> bounded_request rq1 \<and> cx_worker_id cx' = cx_worker_id cx"
      using h assms(2) blank by (auto simp: bind_eq_Some_conv dest: read_fields_bounded split: if_splits)
    have "length bs < DPUMESH_SLOT_SIZE" if "bp_read (cx_rx_body cx') (sint (body_buf_slot d)) (read_len (body_len d) DPUMESH_SLOT_SIZE) = Some (r, bs)" for r bs
      using bp_read_length [OF that] read_len_le [OF sz, of "body_len d"] by simp
    with k b body show ?thesis by blast
  qed
qed

text \<open>What a worker's context satisfies between two requests, and what the response to a request needs.\<close>

definition serving :: "dpumesh_ctx \<Rightarrow> bool" where
  "serving cx \<longleftrightarrow> ctx_inv cx \<and> bufs_bounded cx \<and> length (cx_worker_id cx) < 128"

definition names_fit :: "dpumesh_ctx \<Rightarrow> nat \<Rightarrow> bool" where
  "names_fit cx i \<longleftrightarrow> length (ib_req_id_str (cx_inbound cx ! i)) < 64 \<and> length (ib_source_worker (cx_inbound cx ! i)) < 128"

definition rx_kept :: "dpumesh_ctx \<Rightarrow> dpumesh_ctx \<Rightarrow> bool" where
  "rx_kept cx cx' \<longleftrightarrow> cx_notify_fd cx' = cx_notify_fd cx \<and> cx_pipes cx' = cx_pipes cx
     \<and> cx_rx_header cx' = cx_rx_header cx \<and> cx_rx_body cx' = cx_rx_body cx \<and> cx_worker_id cx' = cx_worker_id cx
     \<and> cx_method_buf cx' = cx_method_buf cx \<and> cx_path_buf cx' = cx_path_buf cx \<and> cx_qs_buf cx' = cx_qs_buf cx"

text \<open>A callback that returns, keeps the context well formed and leaves the pipes and the RX pools to the
  library.\<close>

definition polite :: "(dpumesh_request \<Rightarrow> 's \<Rightarrow> dpumesh_ctx \<Rightarrow> ('s \<times> dpumesh_ctx) option) \<Rightarrow> bool" where
  "polite on_req \<longleftrightarrow> (\<forall>rq s cx. serving cx \<longrightarrow> bounded_request rq \<longrightarrow> names_fit cx (rq_desc_index rq) \<longrightarrow>
     (\<exists>s' cx'. on_req rq s cx = Some (s', cx') \<and> ctx_inv cx' \<and> rx_kept cx cx'))"

lemma bp_read_free [simp]: "bp_read (bp_free bp x) s n = bp_read bp s n"
  by (simp add: bp_read_def bp_free_def Let_def)

lemma free_rx_read [simp]: "bp_read (cx_rx_body (free_rx cx d)) s n = bp_read (cx_rx_body cx) s n"
  by (simp add: free_rx_def Let_def)

lemma free_rx_used:
  assumes "ctx_inv cx"
  shows "bp_used (cx_rx_header (free_rx cx d)) = bp_used (cx_rx_header cx) - {sint (header_buf_slot d)}"
    and "bp_used (cx_rx_body (free_rx cx d)) = bp_used (cx_rx_body cx) - {sint (body_buf_slot d)}"
    and "ctx_inv (free_rx cx d)" and "cx_pipes (free_rx cx d) = cx_pipes cx"
    and "cx_notify_fd (free_rx cx d) = cx_notify_fd cx"
proof -
  have ok: "pool_ok (cx_rx_header cx)" "pool_ok (cx_rx_body cx)" using assms by (simp_all add: ctx_inv_def)
  have "s < 0 \<Longrightarrow> s \<notin> bp_used bp" for s bp by (auto simp: bp_used_def)
  then show "bp_used (cx_rx_header (free_rx cx d)) = bp_used (cx_rx_header cx) - {sint (header_buf_slot d)}"
      "bp_used (cx_rx_body (free_rx cx d)) = bp_used (cx_rx_body cx) - {sint (body_buf_slot d)}"
    using pool.release_used [OF pool_ok_bp_inv [OF ok(1)]] pool.release_used [OF pool_ok_bp_inv [OF ok(2)]]
    by (auto simp: free_rx_def Let_def not_le)
  show "ctx_inv (free_rx cx d)"
    using assms pool_ok_free [OF ok(1)] pool_ok_free [OF ok(2)] by (simp add: ctx_inv_def free_rx_def Let_def)
qed (simp_all add: free_rx_def Let_def)

text \<open>One iteration of \<open>dpumesh_read\<close>.\<close>

lemma read_iteration:
  assumes "polite on_req" and "serving cx" and "pipe_contents (cx_notify_fd cx) (cx_pipes cx) = d # ds"
    and "readable_msg cx d" and "valid d = 1"
  shows "\<exists>s' cx'. dpumesh_read (Suc fuel) on_req s cx
      = map_option (\<lambda>(n, s'', cx''). (Suc n, s'', cx'')) (dpumesh_read fuel on_req s' cx')
    \<and> serving cx' \<and> cx_notify_fd cx' = cx_notify_fd cx \<and> pipe_contents (cx_notify_fd cx) (cx_pipes cx') = ds
    \<and> (\<forall>s n. bp_read (cx_rx_body cx') s n = bp_read (cx_rx_body cx) s n)
    \<and> bp_used (cx_rx_header cx') = bp_used (cx_rx_header cx) - {sint (header_buf_slot d)}
    \<and> bp_used (cx_rx_body cx') = bp_used (cx_rx_body cx) - {sint (body_buf_slot d)}"
proof -
  have inv: "ctx_inv cx" "bufs_bounded cx" "length (cx_worker_id cx) < 128" using assms(2) by (simp_all add: serving_def)
  obtain ps where ps: "pipe_read (cx_notify_fd cx) (cx_pipes cx) = (Some d, ps)"
      "pipe_contents (cx_notify_fd cx) ps = ds"
    using pipe_contents_read [OF assms(3)] by (metis prod.collapse)
  let ?cx = "cx\<lparr>cx_pipes := ps\<rparr>"
  have i0: "ctx_inv ?cx" "readable_msg ?cx d" "bufs_bounded ?cx" using inv assms(4) by (simp_all add: ctx_inv_def readable_msg_def bufs_bounded_def)
  obtain rq cx1 where d: "decode_request ?cx d = Some (rq, cx1)" and sb: "same_but_bufs ?cx cx1"
    using decode_total [OF i0(1,2)] by blast
  have b: "bufs_bounded cx1" "bounded_request rq" "cx_worker_id cx1 = cx_worker_id cx" using decode_bounded [OF d i0(3)] by simp_all
  have i1: "ctx_inv cx1" using sb i0 by (simp only: same_but_bufs_def)
  then have i2: "serving (store_inbound cx1 rq)"
    using b inv(3) by (simp add: serving_def ctx_inv_def store_inbound_def bufs_bounded_def)
  have "rq_desc_index rq < length (cx_inbound cx1)" using i1 b(2) by (simp add: ctx_inv_def bounded_request_def)
  then have n: "names_fit (store_inbound cx1 rq) (rq_desc_index rq)" by (simp add: names_fit_def store_inbound_def snprintf_def min_less_iff_disj)
  have fr: "cx_notify_fd (store_inbound cx1 rq) = cx_notify_fd cx" "cx_pipes (store_inbound cx1 rq) = ps"
      "cx_rx_header (store_inbound cx1 rq) = cx_rx_header cx" "cx_rx_body (store_inbound cx1 rq) = cx_rx_body cx"
    using sb by (simp_all add: same_but_bufs_def store_inbound_def)
  obtain s' cx2 where c: "on_req rq s (store_inbound cx1 rq) = Some (s', cx2)" "ctx_inv cx2" "rx_kept (store_inbound cx1 rq) cx2"
    using assms(1) [unfolded polite_def, rule_format, OF i2 b(2) n, of s] by blast
  have k: "cx_notify_fd cx2 = cx_notify_fd cx" "cx_pipes cx2 = ps" "cx_rx_header cx2 = cx_rx_header cx" "cx_rx_body cx2 = cx_rx_body cx"
    using c(3) unfolding rx_kept_def fr by simp_all
  have "serving (free_rx cx2 d)"
    using free_rx_used(3) [OF c(2)] c(3) i2 by (auto simp: serving_def rx_kept_def bufs_bounded_def free_rx_def Let_def)
  moreover have "dpumesh_read (Suc fuel) on_req s cx = map_option (\<lambda>(n, s'', cx''). (Suc n, s'', cx''))
      (dpumesh_read fuel on_req s' (free_rx cx2 d))"
    using ps(1) d c(1) assms(5) by (cases "dpumesh_read fuel on_req s' (free_rx cx2 d)") auto
  ultimately show ?thesis using free_rx_used(1,2,4,5) [OF c(2), of d] free_rx_read [of cx2 d] ps(2) k by metis
qed

lemma read_skip:
  assumes "serving cx" and "pipe_contents (cx_notify_fd cx) (cx_pipes cx) = d # ds" and "valid d \<noteq> 1"
  shows "\<exists>cx'. dpumesh_read (Suc fuel) on_req s cx = dpumesh_read fuel on_req s cx'
    \<and> serving cx' \<and> cx_notify_fd cx' = cx_notify_fd cx \<and> pipe_contents (cx_notify_fd cx) (cx_pipes cx') = ds
    \<and> cx_rx_header cx' = cx_rx_header cx \<and> cx_rx_body cx' = cx_rx_body cx"
proof -
  obtain ps where ps: "pipe_read (cx_notify_fd cx) (cx_pipes cx) = (Some d, ps)"
      "pipe_contents (cx_notify_fd cx) ps = ds"
    using pipe_contents_read [OF assms(2)] by (metis prod.collapse)
  then show ?thesis
    using assms(1,3) by (intro exI [of _ "cx\<lparr>cx_pipes := ps\<rparr>"]) (simp add: serving_def ctx_inv_def bufs_bounded_def)
qed

text \<open>With a polite callback \<open>dpumesh_read\<close> ends after one read more than there are descriptors, counts the
  valid ones, empties the pipe, and frees exactly their RX slots.\<close>

abbreviation valid_ones :: "sw_descriptor list \<Rightarrow> sw_descriptor set" where
  "valid_ones ds \<equiv> set (filter (\<lambda>d. valid d = 1) ds)"

lemma read_drains:
  assumes "polite on_req" and "serving cx" and "pipe_contents (cx_notify_fd cx) (cx_pipes cx) = ds"
    and "\<forall>d \<in> valid_ones ds. readable_msg cx d" and "length ds < fuel"
  shows "\<exists>s' cx'. dpumesh_read fuel on_req s cx = Some (length (filter (\<lambda>d. valid d = 1) ds), s', cx')
    \<and> serving cx' \<and> pipe_contents (cx_notify_fd cx) (cx_pipes cx') = []
    \<and> bp_used (cx_rx_header cx') = bp_used (cx_rx_header cx) - (\<lambda>d. sint (header_buf_slot d)) ` valid_ones ds
    \<and> bp_used (cx_rx_body cx') = bp_used (cx_rx_body cx) - (\<lambda>d. sint (body_buf_slot d)) ` valid_ones ds"
  using assms(2-5)
proof (induction ds arbitrary: fuel s cx)
  case Nil
  then obtain n where "fuel = Suc n" by (cases fuel) auto
  with Nil show ?case by (simp add: pipe_contents_empty)
next
  case (Cons d ds)
  obtain n where n: "fuel = Suc n" "length ds < n" using Cons.prems(4) by (cases fuel) auto
  show ?case
  proof (cases "valid d = 1")
    case True
    then have "readable_msg cx d" using Cons.prems(3) by simp
    from read_iteration [OF assms(1) Cons.prems(1,2) this True, of n s]
    obtain s1 cx1 where r: "dpumesh_read fuel on_req s cx
          = map_option (\<lambda>(n, s'', cx''). (Suc n, s'', cx'')) (dpumesh_read n on_req s1 cx1)"
        and c: "serving cx1" "cx_notify_fd cx1 = cx_notify_fd cx" "pipe_contents (cx_notify_fd cx) (cx_pipes cx1) = ds"
          "\<forall>s n. bp_read (cx_rx_body cx1) s n = bp_read (cx_rx_body cx) s n"
          "bp_used (cx_rx_header cx1) = bp_used (cx_rx_header cx) - {sint (header_buf_slot d)}"
          "bp_used (cx_rx_body cx1) = bp_used (cx_rx_body cx) - {sint (body_buf_slot d)}"
      unfolding n(1) by blast
    have "pipe_contents (cx_notify_fd cx1) (cx_pipes cx1) = ds" using c(2,3) by simp
    moreover have "\<forall>d \<in> valid_ones ds. readable_msg cx1 d" using Cons.prems(3) c(4) by (simp add: readable_msg_def)
    ultimately obtain s' cx' where
        i: "dpumesh_read n on_req s1 cx1 = Some (length (filter (\<lambda>d. valid d = 1) ds), s', cx')" "serving cx'"
          "pipe_contents (cx_notify_fd cx1) (cx_pipes cx') = []"
          "bp_used (cx_rx_header cx') = bp_used (cx_rx_header cx1) - (\<lambda>d. sint (header_buf_slot d)) ` valid_ones ds"
          "bp_used (cx_rx_body cx') = bp_used (cx_rx_body cx1) - (\<lambda>d. sint (body_buf_slot d)) ` valid_ones ds"
      using Cons.IH [OF c(1) _ _ n(2), of s1] by blast
    have "A - {x} - B = A - insert x B" for A B :: "int set" and x by blast
    with r i c(2,5,6) True show ?thesis by simp
  next
    case False
    from read_skip [OF Cons.prems(1,2) False, of n on_req s]
    obtain cx1 where r: "dpumesh_read fuel on_req s cx = dpumesh_read n on_req s cx1"
        and c: "serving cx1" "cx_notify_fd cx1 = cx_notify_fd cx" "pipe_contents (cx_notify_fd cx) (cx_pipes cx1) = ds"
          "cx_rx_header cx1 = cx_rx_header cx" "cx_rx_body cx1 = cx_rx_body cx"
      unfolding n(1) by blast
    have "pipe_contents (cx_notify_fd cx1) (cx_pipes cx1) = ds" using c(2,3) by simp
    moreover have "\<forall>d \<in> valid_ones ds. readable_msg cx1 d" using Cons.prems(3) False c(5) by (simp add: readable_msg_def)
    ultimately show ?thesis using Cons.IH [OF c(1) _ _ n(2), of s] r c(2,4,5) False by simp
  qed
qed

text \<open>A write into slots of the library's pools always returns.\<close>

lemma bp_write_total:
  assumes "pool_ok bp" and "n \<le> length src" and "n \<le> DPUMESH_SLOT_SIZE"
  shows "\<exists>r bp'. bp_write bp s src n = Some (r, bp')"
proof (cases "0 \<le> s \<and> s < int (bp_num_slots bp)")
  case True
  then show ?thesis using bp_write_slot [of bp s n src] assms by (auto simp: pool_ok_def)
qed (auto simp: bp_write_def)

lemma tx_enqueue_total:
  assumes "ctx_inv cx" and "body_ok msg" and "n < HDR_SIZE" and "n \<le> length hdr"
  shows "\<exists>rc cx'. tx_enqueue cx rid fl hdr n msg = Some (rc, cx')"
proof -
  have ok: "pool_ok (cx_tx_header cx)" "pool_ok (cx_tx_body cx)" "dr_inv (cx_tx_sq cx)" using assms(1) by (simp_all add: ctx_inv_def)
  obtain hs th where a: "bp_alloc (cx_tx_header cx) = (hs, th)" by (rule prod.exhaust)
  obtain bs tb where b: "bp_alloc (cx_tx_body cx) = (bs, tb)" by (rule prod.exhaust)
  have "n \<le> length (hdr @ [NUL])" "n \<le> DPUMESH_SLOT_SIZE" using assms(3,4) by (simp_all add: HDR_SIZE_def DPUMESH_SLOT_SIZE_def)
  from bp_write_total [OF pool_ok_alloc [OF ok(1) a] this, of hs]
  obtain r th1 where w: "bp_write th hs (hdr @ [NUL]) n = Some (r, th1)" by blast
  have "Suc 0 \<le> length [NUL]" "Suc 0 \<le> DPUMESH_SLOT_SIZE" by (simp_all add: DPUMESH_SLOT_SIZE_def)
  from bp_write_total [OF pool_ok_alloc [OF ok(2) b] this, of bs]
  obtain r1 t1 where w1: "bp_write tb bs [NUL] (Suc 0) = Some (r1, t1)" by blast
  have "\<exists>r' tb1. (case m_body msg of Some body \<Rightarrow> if m_body_len msg > 0 then bp_write tb bs body (m_body_len msg)
          else bp_write tb bs [NUL] 1 | None \<Rightarrow> bp_write tb bs [NUL] 1) = Some (r', tb1)"
    using assms(2) w1 bp_write_total [OF pool_ok_alloc [OF ok(2) b], of "m_body_len msg" _ bs]
    by (auto simp: body_ok_def split: option.splits)
  then obtain r' tb1 where w': "(case m_body msg of Some body \<Rightarrow> if m_body_len msg > 0 then bp_write tb bs body (m_body_len msg)
          else bp_write tb bs [NUL] 1 | None \<Rightarrow> bp_write tb bs [NUL] 1) = Some (r', tb1)" by blast
  obtain rc sq where "dr_put (cx_tx_sq cx) (tx_descriptor cx rid fl hs n bs (if has_body msg then m_body_len msg else 1)) = Some (rc, sq)"
    using dr_put_cases [OF ok(3)] by metis
  then show ?thesis using a b w w' by (auto simp: tx_enqueue_def Let_def)
qed

end
