(* ===== verification/Dpumesh_Machine.thy ===== *)
theory Dpumesh_Machine
  imports Dpumesh_Correct
begin

text \<open>
  A worker as a state machine: the event loop writes messages and reads responses, the poller thread
  delivers descriptors, and the mesh changes the shared memory in between. The theory shows what
  holds in every reachable state, and three flaws of single operations: oversized bodies, header
  fields of an earlier request, and ingress messages without a header.
\<close>

section \<open>Steps of a worker\<close>

text \<open>What the mesh may change: the pools and rings, kept well formed.\<close>

definition mesh_change :: "dpumesh_ctx \<Rightarrow> dpumesh_ctx \<Rightarrow> bool" where
  "mesh_change cx cx' \<longleftrightarrow> ctx_inv cx' \<and>
     cx' = cx\<lparr>cx_tx_header := cx_tx_header cx', cx_tx_body := cx_tx_body cx', cx_rx_header := cx_rx_header cx',
       cx_rx_body := cx_rx_body cx', cx_tx_sq := cx_tx_sq cx', cx_rx_sq := cx_rx_sq cx'\<rparr>"

text \<open>The descriptors the kernel returns for a new pipe are not in use.\<close>

definition fresh_fds :: "dpumesh_ctx \<Rightarrow> int \<Rightarrow> int \<Rightarrow> bool" where
  "fresh_fds cx r w \<longleftrightarrow> 0 \<le> r \<and> 0 \<le> w \<and> r \<noteq> w \<and> map_of (pp_fds (cx_pipes cx)) r = None
     \<and> map_of (pp_fds (cx_pipes cx)) w = None"

inductive worker_step :: "dpumesh_ctx \<Rightarrow> dpumesh_ctx \<Rightarrow> bool" where
  step_request: "m_type msg = DPUMESH_MSG_REQUEST \<Longrightarrow> fresh_fds cx r w \<Longrightarrow> dpumesh_write cx msg True (Some (r, w)) = Some (rc, cx', out)
    \<Longrightarrow> worker_step cx cx'"
| step_respond: "m_type msg = DPUMESH_MSG_RESPONSE \<Longrightarrow> dpumesh_write cx msg False None = Some (rc, cx', out)
    \<Longrightarrow> worker_step cx cx'"
| step_poll: "dpumesh_poller_step cx = Some cx' \<Longrightarrow> worker_step cx cx'"
| step_response: "map_of (pp_fds (cx_pipes cx)) fd = Some (Read_End k) \<Longrightarrow> fd \<noteq> cx_notify_fd cx
    \<Longrightarrow> dpumesh_read_response cx fd = Some (rc, rs, cx') \<Longrightarrow> worker_step cx cx'"
| step_skip: "pipe_read (cx_notify_fd cx) (cx_pipes cx) = (Some desc, ps) \<Longrightarrow> worker_step cx (cx\<lparr>cx_pipes := ps\<rparr>)"
| step_receive: "pipe_read (cx_notify_fd cx) (cx_pipes cx) = (Some desc, ps) \<Longrightarrow> decode_request (cx\<lparr>cx_pipes := ps\<rparr>) desc = Some (rq, cx')
    \<Longrightarrow> worker_step cx (store_inbound cx' rq)"
| step_release: "worker_step cx (free_rx cx desc)"
| step_mesh: "mesh_change cx cx' \<Longrightarrow> worker_step cx cx'"

inductive_cases worker_stepE: "worker_step cx cx'"

inductive worker_reach :: "dpumesh_ctx \<Rightarrow> dpumesh_ctx \<Rightarrow> bool" where
  reach_refl: "worker_reach cx cx"
| reach_step: "worker_reach cx cx1 \<Longrightarrow> worker_step cx1 cx2 \<Longrightarrow> worker_reach cx cx2"

text \<open>The registered descriptors are open write ends of pipes, no two the same and none the notify
  pipe's.\<close>

definition writable :: "'a pipes \<Rightarrow> int \<Rightarrow> bool" where
  "writable ps fd \<longleftrightarrow> (\<exists>k. map_of (pp_fds ps) fd = Some (Write_End k))"

definition fds_ok :: "dpumesh_ctx \<Rightarrow> bool" where
  "fds_ok cx \<longleftrightarrow> writable (cx_pipes cx) (cx_notify_write_fd cx)
     \<and> (\<forall>i < length (cx_response_pipe_fds cx). let fd = cx_response_pipe_fds cx ! i in 0 \<le> fd \<longrightarrow>
          writable (cx_pipes cx) fd \<and> fd \<noteq> cx_notify_write_fd cx
          \<and> (\<forall>j < length (cx_response_pipe_fds cx). cx_response_pipe_fds cx ! j = fd \<longrightarrow> j = i))"

definition worker_inv :: "dpumesh_ctx \<Rightarrow> bool" where
  "worker_inv cx \<longleftrightarrow> ctx_inv cx \<and> fds_ok cx"

lemma writable_cong: "pp_fds ps' = pp_fds ps \<Longrightarrow> writable ps' fd = writable ps fd"
  by (simp add: writable_def)

lemma writable_close: "writable (pipe_close x ps) fd \<longleftrightarrow> fd \<noteq> x \<and> writable ps fd"
  by (simp add: writable_def map_of_pipe_close)

lemma writable_open:
  "r \<noteq> w \<Longrightarrow> writable (pipe_open r w ps) fd \<longleftrightarrow> fd = w \<or> (fd \<noteq> r \<and> writable ps fd)"
  by (simp add: writable_def pipe_open_def)

lemma fds_ok_cong:
  "fds_ok cx \<Longrightarrow> cx_response_pipe_fds cx' = cx_response_pipe_fds cx \<Longrightarrow> cx_notify_write_fd cx' = cx_notify_write_fd cx
     \<Longrightarrow> (\<And>fd. writable (cx_pipes cx) fd \<Longrightarrow> writable (cx_pipes cx') fd) \<Longrightarrow> fds_ok cx'"
  by (simp add: fds_ok_def Let_def)

lemma fds_ok_register:
  assumes "fds_ok cx" and "fresh_fds cx r w"
  shows "fds_ok (with_response_pipe cx r w)"
proof -
  let ?ps = "cx_pipes cx" and ?xs = "cx_response_pipe_fds cx" and ?nw = "cx_notify_write_fd cx"
  let ?k = "pending_index (cx_next_req_id cx)"
  have f: "0 \<le> w" "r \<noteq> w" "\<not> writable ?ps r" "\<not> writable ?ps w"
    using assms(2) by (simp_all add: fresh_fds_def writable_def)
  have nw: "writable ?ps ?nw" and
    ok: "\<And>i. i < length ?xs \<Longrightarrow> 0 \<le> ?xs ! i \<Longrightarrow> writable ?ps (?xs ! i) \<and> ?xs ! i \<noteq> ?nw"
      "\<And>i j. i < length ?xs \<Longrightarrow> 0 \<le> ?xs ! i \<Longrightarrow> j < length ?xs \<Longrightarrow> ?xs ! j = ?xs ! i \<Longrightarrow> j = i"
    using assms(1) by (simp_all add: fds_ok_def Let_def)
  have ne: "?xs ! i \<noteq> w" if "i < length ?xs" for i using ok(1) [OF that] f by auto
  have new: "writable (pipe_open r w ?ps) x \<longleftrightarrow> x = w \<or> x \<noteq> r \<and> writable ?ps x" for x
    by (rule writable_open [OF f(2)])
  have old: "writable ?ps x \<Longrightarrow> writable (pipe_open r w ?ps) x" for x using f(3) by (auto simp: new)
  have entry: "writable (pipe_open r w ?ps) (?xs[?k := w] ! i) \<and> ?xs[?k := w] ! i \<noteq> ?nw
      \<and> (\<forall>j < length ?xs. ?xs[?k := w] ! j = ?xs[?k := w] ! i \<longrightarrow> j = i)"
    if "i < length ?xs" "0 \<le> ?xs[?k := w] ! i" for i
  proof (cases "i = ?k")
    case True
    have "w \<noteq> ?nw" using nw f(4) by auto
    with True that ne show ?thesis by (auto simp: new nth_list_update)
  next
    case False
    then have i: "?xs[?k := w] ! i = ?xs ! i" "0 \<le> ?xs ! i" using that by simp_all
    have "j = i" if "j < length ?xs" "?xs[?k := w] ! j = ?xs ! i" for j
      using ok(2) [OF \<open>i < length ?xs\<close> i(2) that(1)] ne [OF \<open>i < length ?xs\<close>] that by (cases "j = ?k") auto
    with old [of "?xs ! i"] ok(1) [OF that(1) i(2)] i(1) show ?thesis by simp
  qed
  have "writable (pipe_open r w ?ps) ?nw" by (rule old [OF nw])
  with entry show ?thesis by (simp add: fds_ok_def Let_def with_response_pipe_def)
qed

lemma fds_ok_unregister:
  assumes "fds_ok cx" and "i < length (cx_response_pipe_fds cx)" and "0 \<le> cx_response_pipe_fds cx ! i"
    and "pp_fds ps = pp_fds (cx_pipes cx)"
  shows "fds_ok (cx\<lparr>cx_pipes := pipe_close (cx_response_pipe_fds cx ! i) ps,
    cx_response_pipe_fds := (cx_response_pipe_fds cx)[i := -1]\<rparr>)"
  using assms writable_cong [OF assms(4)]
  by (auto simp: fds_ok_def Let_def writable_close nth_list_update split: if_splits)

section \<open>The invariant is kept\<close>

text \<open>What a write changes.\<close>

lemma request_write_frame:
  assumes "ctx_inv cx" and "m_type msg = DPUMESH_MSG_REQUEST" and "dpumesh_write cx msg True (Some (r, w)) = Some (rc, cx', out)"
  shows "\<exists>th tb sq. cx' = (with_response_pipe cx r w)\<lparr>cx_tx_header := th, cx_tx_body := tb, cx_tx_sq := sq\<rparr>"
proof -
  obtain hdr n where h: "request_header cx msg = (hdr, n)" by (rule prod.exhaust)
  have e: "tx_enqueue (with_response_pipe cx r w) (cx_next_req_id cx) (OP_REQUEST OR CASE_LOCAL) hdr n msg = Some (rc, cx')"
    using h assms(2,3) by (auto simp: dpumesh_write_def Let_def bind_eq_Some_conv with_response_pipe_def)
  have "ctx_inv (with_response_pipe cx r w)" using assms(1) by (simp add: ctx_inv_def with_response_pipe_def)
  from tx_enqueue_frame [OF this e] show ?thesis by blast
qed

lemma response_write_frame:
  assumes "ctx_inv cx" and "m_type msg \<noteq> DPUMESH_MSG_REQUEST" and "dpumesh_write cx msg False None = Some (rc, cx', out)"
  shows "\<exists>ib th tb sq. cx' = cx\<lparr>cx_inbound := ib, cx_tx_header := th, cx_tx_body := tb, cx_tx_sq := sq\<rparr>"
proof -
  let ?ib = "cx_inbound cx ! m_orig_index msg"
  let ?cx = "cx\<lparr>cx_inbound := (cx_inbound cx)[m_orig_index msg := ?ib\<lparr>ib_active := False\<rparr>]\<rparr>"
  obtain hdr n where h: "response_header cx msg ?ib = (hdr, n)" by (rule prod.exhaust)
  have e: "tx_enqueue ?cx (ib_req_id ?ib) (answer_flags cx msg) hdr n msg = Some (rc, cx')"
    using h assms(2,3)
    by (auto simp: dpumesh_write_def Let_def bind_eq_Some_conv answer_flags_def split: if_splits)
  have "ctx_inv ?cx" using assms(1) by (simp add: ctx_inv_def)
  from tx_enqueue_frame [OF this e] show ?thesis
    by (intro exI [of _ "cx_inbound ?cx"] exI [of _ "cx_tx_header cx'"] exI [of _ "cx_tx_body cx'"] exI [of _ "cx_tx_sq cx'"]) simp
qed

lemma write_request_fds:
  assumes "ctx_inv cx" and "fds_ok cx" and "m_type msg = DPUMESH_MSG_REQUEST" and "fresh_fds cx r w"
    and "dpumesh_write cx msg True (Some (r, w)) = Some (rc, cx', out)"
  shows "fds_ok cx'"
proof -
  obtain th tb sq where f: "cx' = (with_response_pipe cx r w)\<lparr>cx_tx_header := th, cx_tx_body := tb, cx_tx_sq := sq\<rparr>"
    using request_write_frame [OF assms(1,3,5)] by blast
  show ?thesis by (rule fds_ok_cong [OF fds_ok_register [OF assms(2,4)]]) (simp_all add: f)
qed

lemma write_response_fds:
  assumes "ctx_inv cx" and "fds_ok cx" and "m_type msg = DPUMESH_MSG_RESPONSE"
    and "dpumesh_write cx msg False None = Some (rc, cx', out)"
  shows "fds_ok cx'"
proof -
  have "m_type msg \<noteq> DPUMESH_MSG_REQUEST" using assms(3) by (simp add: DPUMESH_MSG_REQUEST_def DPUMESH_MSG_RESPONSE_def)
  then obtain ib th tb sq where f: "cx' = cx\<lparr>cx_inbound := ib, cx_tx_header := th, cx_tx_body := tb, cx_tx_sq := sq\<rparr>"
    using response_write_frame [OF assms(1) _ assms(4)] by blast
  show ?thesis by (rule fds_ok_cong [OF assms(2)]) (simp_all add: f)
qed

lemma poller_deliver_other:
  assumes "poller_deliver cx d = Some cx'"
    and "\<not> (valid d = 1 \<and> is_response d \<and> 0 \<le> cx_response_pipe_fds cx ! pending_index (req_id d))"
  shows "cx' = cx \<or> (\<exists>ps. pipe_write (cx_notify_write_fd cx) d (cx_pipes cx) = Some ps \<and> cx' = cx\<lparr>cx_pipes := ps\<rparr>)"
proof (cases "valid d = 1 \<and> \<not> is_response d")
  case True
  with assms(1) show ?thesis by (auto simp: poller_deliver_def bind_eq_Some_conv)
next
  case False
  with assms(2) have "poller_deliver cx d = Some cx"
    by (cases "valid d = 1") (simp_all add: poller_deliver_def Let_def)
  with assms(1) show ?thesis by simp
qed

lemma poller_inv:
  assumes "ctx_inv cx" and "fds_ok cx" and "dpumesh_poller_step cx = Some cx'"
  shows "ctx_inv cx' \<and> fds_ok cx'"
proof (cases "cx_poller_running cx \<and> dr_count (cx_rx_sq cx) \<noteq> 0")
  case False
  then have "cx' = cx" using assms(3) by (auto simp: dpumesh_poller_step_def dr_get_empty split: if_splits)
  with assms show ?thesis by simp
next
  case True
  have dr: "dr_inv (cx_rx_sq cx)" using assms(1) by (simp add: ctx_inv_def)
  from dr_get_nonempty [OF dr] dr_list_get(2) [OF dr _ refl] True
  obtain d sq where sq: "dr_get (cx_rx_sq cx) = Some (Some d, sq)" "dr_inv sq" by blast
  let ?cx = "cx\<lparr>cx_rx_sq := sq\<rparr>"
  have i: "ctx_inv ?cx" using assms(1) sq(2) by (simp add: ctx_inv_def)
  have f: "fds_ok ?cx" using assms(2) by (rule fds_ok_cong) simp_all
  have d: "poller_deliver ?cx d = Some cx'" using assms(3) True sq(1) by (simp add: dpumesh_poller_step_def)
  show ?thesis
  proof (cases "valid d = 1 \<and> is_response d \<and> 0 \<le> cx_response_pipe_fds ?cx ! pending_index (req_id d)")
    case True
    let ?k = "pending_index (req_id d)"
    obtain ps where ps: "pipe_write (cx_response_pipe_fds ?cx ! ?k) d (cx_pipes ?cx) = Some ps"
        "cx' = ?cx\<lparr>cx_pipes := pipe_close (cx_response_pipe_fds ?cx ! ?k) ps,
          cx_response_pipe_fds := (cx_response_pipe_fds ?cx)[?k := -1]\<rparr>"
      using d True by (auto simp: poller_deliver_def Let_def bind_eq_Some_conv)
    have "?k < length (cx_response_pipe_fds ?cx)" using i pending_index_less by (simp add: ctx_inv_def)
    from fds_ok_unregister [OF f this _ pipe_fds_write [OF ps(1)]] True i ps(2) show ?thesis
      by (simp add: ctx_inv_def)
  next
    case False
    then consider "cx' = ?cx" | ps where "pipe_write (cx_notify_write_fd ?cx) d (cx_pipes ?cx) = Some ps"
        "cx' = ?cx\<lparr>cx_pipes := ps\<rparr>"
      using poller_deliver_other [OF d] by blast
    then show ?thesis
    proof cases
      case 1
      with i f show ?thesis by simp
    next
      case (2 ps)
      have "fds_ok cx'"
        using f by (rule fds_ok_cong) (simp_all add: 2(2) writable_cong [OF pipe_fds_write [OF 2(1)], simplified])
      with i 2(2) show ?thesis by (simp add: ctx_inv_def)
    qed
  qed
qed

lemma read_response_exact:
  assumes "pipe_contents fd (cx_pipes cx) = d # ds" and "dpumesh_read_response cx fd = Some (rc, rs, cx')"
  shows "\<exists>ps. pp_fds ps = pp_fds (cx_pipes cx) \<and> cx' = free_rx (cx\<lparr>cx_pipes := pipe_close fd ps\<rparr>) d"
proof -
  obtain ps where ps: "pipe_read fd (cx_pipes cx) = (Some d, ps)" "pp_fds ps = pp_fds (cx_pipes cx)"
    using pipe_contents_read [OF assms(1)] by (metis prod.collapse)
  then show ?thesis using assms(2) by (auto simp: dpumesh_read_response_def Let_def bind_eq_Some_conv)
qed

lemma read_response_inv:
  assumes "ctx_inv cx" and "fds_ok cx" and "map_of (pp_fds (cx_pipes cx)) fd = Some (Read_End k)"
    and "dpumesh_read_response cx fd = Some (rc, rs, cx')"
  shows "ctx_inv cx' \<and> fds_ok cx'"
proof (cases "pipe_contents fd (cx_pipes cx)")
  case Nil
  then have "cx' = cx" using assms(4) by (simp add: dpumesh_read_response_def pipe_contents_empty)
  with assms show ?thesis by simp
next
  case (Cons d ds)
  obtain ps where ps: "pp_fds ps = pp_fds (cx_pipes cx)" and cx': "cx' = free_rx (cx\<lparr>cx_pipes := pipe_close fd ps\<rparr>) d"
    using read_response_exact [OF Cons assms(4)] by blast
  let ?cx = "cx\<lparr>cx_pipes := pipe_close fd ps\<rparr>"
  have w: "writable (pipe_close fd ps) x \<longleftrightarrow> writable (cx_pipes cx) x" for x
  proof -
    have "\<not> writable (cx_pipes cx) fd" using assms(3) by (simp add: writable_def)
    then show ?thesis unfolding writable_close writable_cong [OF ps] by auto
  qed
  have i: "ctx_inv ?cx" using assms(1) by (simp add: ctx_inv_def)
  have "fds_ok cx'"
    using assms(2) by (rule fds_ok_cong) (simp_all add: cx' free_rx_def Let_def w)
  with free_rx_used(3) [OF i, of d] cx' show ?thesis by simp
qed

lemma pipe_read_fds: "pipe_read fd ps = (x, ps') \<Longrightarrow> pp_fds ps' = pp_fds ps"
  by (auto simp: pipe_read_def split: option.splits pipe_end.splits list.splits)

text \<open>Decoding a request only changes the static text buffers.\<close>

definition bufs_only :: "dpumesh_ctx \<Rightarrow> dpumesh_ctx \<Rightarrow> bool" where
  "bufs_only cx cx' \<longleftrightarrow> (\<exists>m p q. cx' = cx\<lparr>cx_method_buf := m, cx_path_buf := p, cx_qs_buf := q\<rparr>)"

lemma bufs_only_refl: "bufs_only cx cx"
  unfolding bufs_only_def
  by (intro exI [of _ "cx_method_buf cx"] exI [of _ "cx_path_buf cx"] exI [of _ "cx_qs_buf cx"]) simp

lemma read_header_fields_bufs: "(rq', cx') = read_header_fields cx rq j \<Longrightarrow> bufs_only cx cx'"
  by (auto simp: read_header_fields_def Let_def bufs_only_def)

lemma decode_request_bufs:
  assumes "decode_request cx d = Some (rq, cx')"
  shows "bufs_only cx cx'"
proof (cases "rq_case_flag (blank_request d) = CASE_INGRESS")
  case True
  show ?thesis
  proof (cases "sint (body_buf_slot d) \<ge> 0 \<and> body_len d > 0")
    case t: True
    then obtain bs where "(case parse_case2_body (cstring bs) HDR_SIZE DPUMESH_SLOT_SIZE of
        (rc, Some header_json, Some body) \<Rightarrow>
          let (rq', cx') = read_header_fields cx (blank_request d) header_json
          in Some (rq'\<lparr>rq_body := Some body, rq_body_len := length body\<rparr>, cx')
      | _ \<Rightarrow> None) = Some (rq, cx')"
      using assms True by (auto simp: decode_request_def Let_def bind_eq_Some_conv)
    then obtain j rq' where "read_header_fields cx (blank_request d) j = (rq', cx')"
      by (auto split: prod.splits option.splits)
    then show ?thesis using read_header_fields_bufs by metis
  next
    case False
    then show ?thesis using assms True by (auto simp: decode_request_def Let_def bufs_only_refl split: if_splits)
  qed
next
  case False
  then obtain rq1 where "(if sint (header_buf_slot d) \<ge> 0 \<and> header_len d > 0 then do {
        (_, hs) \<leftarrow> bp_read (cx_rx_header cx) (sint (header_buf_slot d)) (read_len (header_len d) HDR_SIZE);
        Some (read_header_fields cx (blank_request d) (cstring hs)) } else Some (blank_request d, cx)) = Some (rq1, cx')"
    using assms by (auto simp: decode_request_def Let_def bind_eq_Some_conv split: if_splits)
  then show ?thesis
    by (auto simp: bind_eq_Some_conv bufs_only_refl split: if_splits dest: read_header_fields_bufs [OF sym])
qed

lemma receive_inv:
  assumes "ctx_inv cx" and "fds_ok cx" and "pp_fds ps = pp_fds (cx_pipes cx)" and "decode_request (cx\<lparr>cx_pipes := ps\<rparr>) d = Some (rq, cx')"
  shows "ctx_inv (store_inbound cx' rq) \<and> fds_ok (store_inbound cx' rq)"
proof -
  obtain m p q where e: "cx' = cx\<lparr>cx_pipes := ps, cx_method_buf := m, cx_path_buf := p, cx_qs_buf := q\<rparr>"
    using decode_request_bufs [OF assms(4)] by (auto simp: bufs_only_def)
  have "fds_ok (store_inbound cx' rq)"
    using assms(2) by (rule fds_ok_cong) (simp_all add: e store_inbound_def writable_cong [OF assms(3)])
  with assms(1) show ?thesis by (simp add: e store_inbound_def ctx_inv_def)
qed

lemma release_inv:
  assumes "ctx_inv cx" and "fds_ok cx"
  shows "ctx_inv (free_rx cx d) \<and> fds_ok (free_rx cx d)"
proof -
  have "fds_ok (free_rx cx d)" using assms(2) by (rule fds_ok_cong) (simp_all add: free_rx_def Let_def)
  with free_rx_used(3) [OF assms(1)] show ?thesis by simp
qed

lemma worker_step_inv:
  assumes "worker_step cx cx'" and "ctx_inv cx" and "fds_ok cx"
  shows "ctx_inv cx' \<and> fds_ok cx'"
  using assms(1)
proof cases
  case (step_request msg r w rc out)
  with dpumesh_write_outcome [OF assms(2) step_request(3)] write_request_fds [OF assms(2,3)] show ?thesis by blast
next
  case (step_respond msg rc out)
  with dpumesh_write_outcome [OF assms(2) step_respond(2)] write_response_fds [OF assms(2,3)] show ?thesis by blast
next
  case step_poll
  then show ?thesis by (rule poller_inv [OF assms(2,3)])
next
  case (step_response fd k rc rs)
  then show ?thesis using read_response_inv [OF assms(2,3)] by blast
next
  case (step_skip desc ps)
  have "fds_ok (cx\<lparr>cx_pipes := ps\<rparr>)"
    using assms(3) by (rule fds_ok_cong) (simp_all add: writable_cong [OF pipe_read_fds [OF step_skip(2)]])
  with assms(2) step_skip(1) show ?thesis by (simp add: ctx_inv_def)
next
  case (step_receive desc ps rq cx1)
  with receive_inv [OF assms(2,3) pipe_read_fds [OF step_receive(2)]] show ?thesis by blast
next
  case (step_release desc)
  with release_inv [OF assms(2,3)] show ?thesis by simp
next
  case step_mesh
  then obtain th tb rh rb tq rq where
      eq: "cx' = cx\<lparr>cx_tx_header := th, cx_tx_body := tb, cx_rx_header := rh, cx_rx_body := rb, cx_tx_sq := tq, cx_rx_sq := rq\<rparr>"
    unfolding mesh_change_def by blast
  have "fds_ok cx'" using assms(3) by (rule fds_ok_cong) (simp_all add: eq)
  with step_mesh show ?thesis unfolding mesh_change_def by blast
qed

lemma worker_reach_keeps: "worker_reach cx0 cx \<Longrightarrow> ctx_inv cx0 \<Longrightarrow> fds_ok cx0 \<Longrightarrow> ctx_inv cx \<and> fds_ok cx"
  by (induction rule: worker_reach.induct) (auto dest: worker_step_inv)

lemma worker_reach_trans: "worker_reach cx1 cx2 \<Longrightarrow> worker_reach cx0 cx1 \<Longrightarrow> worker_reach cx0 cx2"
  by (induction rule: worker_reach.induct) (auto intro: reach_step)

text \<open>No step changes the worker's name or lets a static text buffer hold more than its array.\<close>

definition texts_kept :: "dpumesh_ctx \<Rightarrow> dpumesh_ctx \<Rightarrow> bool" where
  "texts_kept cx cx' \<longleftrightarrow> cx_worker_id cx' = cx_worker_id cx \<and> (bufs_bounded cx \<longrightarrow> bufs_bounded cx')"

lemma texts_same:
  "cx_worker_id cx' = cx_worker_id cx \<Longrightarrow> cx_method_buf cx' = cx_method_buf cx \<Longrightarrow> cx_path_buf cx' = cx_path_buf cx \<Longrightarrow>
     cx_qs_buf cx' = cx_qs_buf cx \<Longrightarrow> texts_kept cx cx'"
  by (simp add: texts_kept_def bufs_bounded_def)

lemma deliver_texts: "poller_deliver cx d = Some cx' \<Longrightarrow> texts_kept cx cx'"
  by (auto simp: poller_deliver_def Let_def bind_eq_Some_conv texts_kept_def bufs_bounded_def split: if_splits)

lemma poller_texts:
  assumes "dpumesh_poller_step cx = Some cx'"
  shows "texts_kept cx cx'"
proof (cases "\<exists>d sq. cx_poller_running cx \<and> dr_get (cx_rx_sq cx) = Some (Some d, sq)")
  case False
  then have "cx' = cx" using assms by (auto simp: dpumesh_poller_step_def bind_eq_Some_conv split: if_splits option.splits)
  then show ?thesis by (simp add: texts_same)
next
  case True
  then obtain d sq where sq: "dr_get (cx_rx_sq cx) = Some (Some d, sq)" "cx_poller_running cx" by blast
  then have "poller_deliver (cx\<lparr>cx_rx_sq := sq\<rparr>) d = Some cx'" using assms by (simp add: dpumesh_poller_step_def)
  from deliver_texts [OF this] show ?thesis by (simp add: texts_kept_def bufs_bounded_def)
qed

lemma worker_step_texts:
  assumes "worker_step cx cx'" and "ctx_inv cx"
  shows "texts_kept cx cx'"
  using assms(1)
proof cases
  case (step_request msg r w rc out)
  obtain th tb sq where "cx' = (with_response_pipe cx r w)\<lparr>cx_tx_header := th, cx_tx_body := tb, cx_tx_sq := sq\<rparr>"
    using request_write_frame [OF assms(2) step_request(1,3)] by blast
  then show ?thesis by (intro texts_same) (simp_all add: with_response_pipe_def)
next
  case (step_respond msg rc out)
  have "m_type msg \<noteq> DPUMESH_MSG_REQUEST" using step_respond(1) by (simp add: DPUMESH_MSG_REQUEST_def DPUMESH_MSG_RESPONSE_def)
  then obtain ib th tb sq where "cx' = cx\<lparr>cx_inbound := ib, cx_tx_header := th, cx_tx_body := tb, cx_tx_sq := sq\<rparr>"
    using response_write_frame [OF assms(2) _ step_respond(2)] by blast
  then show ?thesis by (intro texts_same) simp_all
next
  case step_poll
  then show ?thesis by (rule poller_texts)
next
  case (step_response fd k rc rs)
  show ?thesis
  proof (cases "pipe_contents fd (cx_pipes cx)")
    case Nil
    then have "cx' = cx" using step_response(3) by (simp add: dpumesh_read_response_def pipe_contents_empty)
    then show ?thesis by (simp add: texts_same)
  next
    case (Cons d ds)
    obtain ps where "cx' = free_rx (cx\<lparr>cx_pipes := pipe_close fd ps\<rparr>) d" using read_response_exact [OF Cons step_response(3)] by blast
    then show ?thesis by (intro texts_same) (simp_all add: free_rx_def Let_def)
  qed
next
  case (step_skip desc ps)
  then show ?thesis by (intro texts_same) simp_all
next
  case (step_receive desc ps rq cx1)
  obtain m p q where e: "cx1 = (cx\<lparr>cx_pipes := ps\<rparr>)\<lparr>cx_method_buf := m, cx_path_buf := p, cx_qs_buf := q\<rparr>"
    using decode_request_bufs [OF step_receive(3)] unfolding bufs_only_def by blast
  have "bufs_bounded cx \<longrightarrow> bufs_bounded cx1" using decode_bounded [OF step_receive(3)] by (simp add: bufs_bounded_def)
  then show ?thesis using step_receive(1) by (simp add: texts_kept_def store_inbound_def bufs_bounded_def e)
next
  case (step_release desc)
  then show ?thesis by (intro texts_same) (simp_all add: free_rx_def Let_def)
next
  case step_mesh
  then obtain th tb rh rb tq rq where
      eq: "cx' = cx\<lparr>cx_tx_header := th, cx_tx_body := tb, cx_rx_header := rh, cx_rx_body := rb, cx_tx_sq := tq, cx_rx_sq := rq\<rparr>"
    unfolding mesh_change_def by blast
  then show ?thesis by (intro texts_same) simp_all
qed

lemma worker_reach_serving: "worker_reach cx0 cx \<Longrightarrow> serving cx0 \<Longrightarrow> fds_ok cx0 \<Longrightarrow> serving cx"
proof (induction rule: worker_reach.induct)
  case (reach_step cx cx1 cx2)
  then have "ctx_inv cx1" "ctx_inv cx2" using worker_reach_keeps [OF worker_reach.reach_step [OF reach_step(1,2)]]
      worker_reach_keeps [OF reach_step(1)] by (auto simp: serving_def)
  with reach_step worker_step_texts [OF reach_step(2)] show ?case by (auto simp: serving_def texts_kept_def)
qed

text \<open>A whole run of \<open>dpumesh_read\<close> is a sequence of these steps when its callback is one, and keeps what the
  callback keeps of the caller's state.\<close>

lemma dpumesh_read_reach:
  assumes "dpumesh_read fuel on_req s cx = Some (n, s', cx')" and "keeps s"
    and "\<And>rq s cx s' cx'. keeps s \<Longrightarrow> on_req rq s cx = Some (s', cx') \<Longrightarrow> keeps s' \<and> worker_reach cx cx'"
  shows "keeps s' \<and> worker_reach cx cx'"
  using assms(1,2)
proof (induction fuel arbitrary: s cx n)
  case (Suc fuel)
  obtain x ps where x: "pipe_read (cx_notify_fd cx) (cx_pipes cx) = (x, ps)" by (rule prod.exhaust)
  show ?case
  proof (cases x)
    case None
    then show ?thesis using Suc.prems x by (simp add: reach_refl)
  next
    case d: (Some d)
    show ?thesis
    proof (cases "valid d = 1")
      case False
      then have r: "keeps s' \<and> worker_reach (cx\<lparr>cx_pipes := ps\<rparr>) cx'" using Suc x d by simp
      with worker_reach_trans [OF conjunct2 [OF r] reach_step [OF reach_refl step_skip [OF x [unfolded d]]]]
      show ?thesis by simp
    next
      case True
      then obtain rq cx1 s2 cx2 m where r: "decode_request (cx\<lparr>cx_pipes := ps\<rparr>) d = Some (rq, cx1)"
          "on_req rq s (store_inbound cx1 rq) = Some (s2, cx2)" "dpumesh_read fuel on_req s2 (free_rx cx2 d) = Some (m, s', cx')"
        using Suc.prems x d by (auto simp: bind_eq_Some_conv)
      note r0 = reach_step [OF reach_refl step_receive [OF x [unfolded d] r(1)]]
      note k = assms(3) [OF Suc.prems(2) r(2)]
      note r1 = worker_reach_trans [OF conjunct2 [OF k] r0]
      note r2 = Suc.IH [OF r(3) conjunct1 [OF k]]
      from r2 worker_reach_trans [OF conjunct2 [OF r2] reach_step [OF r1 step_release]] show ?thesis by simp
    qed
  qed
qed simp

section \<open>Initialisation\<close>

text \<open>The shared memory objects have the sizes the library gives them.\<close>

definition host_wf :: "host \<Rightarrow> bool" where
  "host_wf h \<longleftrightarrow> (\<forall>path bm d. h_pools h path = Some (bm, d) \<longrightarrow> length d = DPUMESH_NUM_SLOTS * DPUMESH_SLOT_SIZE)
     \<and> (\<forall>path dr. h_rings h path = Some dr \<longrightarrow> length (dr_descs dr) = DPUMESH_MAX_DESCRIPTORS)"

lemma init_then_Some:
  "init_then f g h = (Some y, h') \<longleftrightarrow> (\<exists>x h1. f h = (Some x, h1) \<and> g x h1 = (Some y, h'))"
  by (auto simp: init_then_def split: prod.splits option.splits)

lemma init_pool_ok:
  assumes "init_pool ie i name h = (Some bp, h')" and "host_wf h"
  shows "pool_ok bp \<and> bp_used bp = {} \<and> host_wf h' \<and> h_pipes h' = h_pipes h"
proof -
  let ?path = "bp_shm_path (bp_handle (shm_prefix (h_prefix h)) (fst (snprintf 128 name)))"
  let ?d = "case h_pools h ?path of None \<Rightarrow> replicate (DPUMESH_NUM_SLOTS * DPUMESH_SLOT_SIZE) NUL | Some (_, d) \<Rightarrow> d"
  have d: "length ?d = DPUMESH_NUM_SLOTS * DPUMESH_SLOT_SIZE"
    using assms(2) by (auto simp: host_wf_def split: option.splits)
  from assms(1) have bp: "bp_num_slots bp = DPUMESH_NUM_SLOTS" "bp_slot_size bp = DPUMESH_SLOT_SIZE"
      "bp_bitmap bp = replicate DPUMESH_NUM_SLOTS 0" "bp_data bp = ?d"
      "h' = h\<lparr>h_pools := (h_pools h)(?path \<mapsto> (replicate DPUMESH_NUM_SLOTS 0, ?d))\<rparr>"
    by (auto simp: init_pool_def bp_init_def bp_create_def bp_open_def Let_def bp_handle_def split: if_splits)
  have "pool_ok bp" using bp(1-4) d by (simp add: pool_ok_def bp_inv_def DPUMESH_SLOT_SIZE_def)
  moreover have "bp_used bp = {}" using bp(3) by (auto simp: bp_used_def)
  moreover have "host_wf h'" using bp(5) d assms(2) by (auto simp: host_wf_def split: if_splits)
  ultimately show ?thesis using bp(5) by simp
qed

lemma init_ring_ok:
  assumes "init_ring ie i name h = (Some dr, h')" and "host_wf h"
  shows "dr_inv dr \<and> dr_list dr = [] \<and> host_wf h' \<and> h_pipes h' = h_pipes h"
proof -
  let ?path = "dr_shm_path (h_prefix h) (fst (snprintf 128 name))"
  let ?d = "case h_rings h ?path of None \<Rightarrow> replicate DPUMESH_MAX_DESCRIPTORS zero_descriptor | Some dr \<Rightarrow> dr_descs dr"
  have d: "length ?d = DPUMESH_MAX_DESCRIPTORS" using assms(2) by (auto simp: host_wf_def split: option.splits)
  from assms(1) have dr: "dr = dr_reset ?d" "h' = h\<lparr>h_rings := (h_rings h)(?path \<mapsto> dr_reset ?d)\<rparr>"
    by (auto simp: init_ring_def dr_init_def Let_def split: if_splits)
  have "dr_inv dr" "dr_list dr = []" "host_wf h'"
    using d assms(2) by (auto simp: dr dr_inv_def dr_list_def dr_reset_def DPUMESH_MAX_DESCRIPTORS_def host_wf_def)
  then show ?thesis using dr(2) by simp
qed

text \<open>Every call the initialisation makes on the machine succeeds.\<close>

definition init_calls_ok :: "init_env \<Rightarrow> bool" where
  "init_calls_ok ie \<longleftrightarrow> ie_calloc ie \<and> fo_lock (ie_counter ie) \<and> ie_pipe ie \<noteq> None \<and> ie_thread ie
     \<and> (\<forall>i \<in> {0, 1, 2, 3}. 0 \<le> be_create_fd (ie_pool ie i) \<and> be_truncate_ok (ie_pool ie i) \<and> be_create_map_ok (ie_pool ie i)
          \<and> 0 \<le> be_open_fd (ie_pool ie i) \<and> be_map_ok (ie_pool ie i))
     \<and> (\<forall>i \<in> {0, 1}. 0 \<le> de_create_fd (ie_ring ie i) \<and> de_truncate_ok (ie_ring ie i) \<and> de_create_map_ok (ie_ring ie i)
          \<and> 0 \<le> de_open_fd (ie_ring ie i) \<and> de_map_ok (ie_ring ie i))"

lemma init_then_ex:
  assumes "\<exists>x h1. f h = (Some x, h1)" and "\<And>x h1. f h = (Some x, h1) \<Longrightarrow> \<exists>y h'. g x h1 = (Some y, h')"
  shows "\<exists>y h'. init_then f g h = (Some y, h')"
  using assms by (fastforce simp: init_then_Some)

lemma init_pool_ex:
  assumes "init_calls_ok ie" and "i \<in> {0, 1, 2, 3}"
  shows "\<exists>bp h'. init_pool ie i name h = (Some bp, h')"
  using assms by (auto simp: init_calls_ok_def init_pool_def bp_init_def bp_create_def bp_open_def bp_handle_def Let_def)

lemma init_ring_ex:
  assumes "init_calls_ok ie" and "i \<in> {0, 1}"
  shows "\<exists>dr h'. init_ring ie i name h = (Some dr, h')"
  using assms by (auto simp: init_calls_ok_def init_ring_def dr_init_def Let_def)

lemma init_pipe_ex: "init_calls_ok ie \<Longrightarrow> \<exists>p h'. init_pipe ie h = (Some p, h')"
  by (auto simp: init_calls_ok_def init_pipe_def)

lemma dpumesh_init_ex:
  assumes "init_calls_ok ie" and "0 \<le> fst (pod_registry_alloc_id (ie_counter ie) (h_files h))"
  shows "\<exists>cx h'. dpumesh_init ie app_name worker_num h = (Some cx, h')"
  using assms unfolding dpumesh_init_def Let_def
  by (auto simp del: append.simps simp: init_calls_ok_def [of ie] split: prod.splits
    intro!: init_then_ex init_pool_ex init_ring_ex init_pipe_ex)

text \<open>The calls behind a successful initialisation, and the context they make.\<close>

lemma dpumesh_init_Some:
  assumes "dpumesh_init ie app_name worker_num h = (Some cx, h')"
  obtains pod fs' txh h1 txb h2 rxh h3 rxb h4 txq h5 rxq h6 pf h7 where
        "init_pool ie 0 (app_name @ ''_tx_header'') (h\<lparr>h_files := fs'\<rparr>) = (Some txh, h1)"
        "init_pool ie 1 (app_name @ ''_tx_body'') h1 = (Some txb, h2)"
        "init_pool ie 2 (app_name @ ''_rx_header'') h2 = (Some rxh, h3)"
        "init_pool ie 3 (app_name @ ''_rx_body'') h3 = (Some rxb, h4)"
        "init_ring ie 0 (''pod_'' @ show_int pod @ ''_tx_sq'') h4 = (Some txq, h5)"
        "init_ring ie 1 (''pod_'' @ show_int pod @ ''_rx_sq'') h5 = (Some rxq, h6)"
        "init_pipe ie h6 = (Some pf, h7)"
        "cx_tx_header cx = txh" "cx_tx_body cx = txb" "cx_rx_header cx = rxh" "cx_rx_body cx = rxb"
        "cx_tx_sq cx = txq" "cx_rx_sq cx = rxq" "cx_notify_fd cx = fst pf" "cx_notify_write_fd cx = snd pf"
        "cx_response_pipe_fds cx = replicate DPUMESH_MAX_PENDING (-1)" "length (cx_inbound cx) = DPUMESH_MAX_PENDING"
        "cx_poller_running cx" "cx_pipes cx = h_pipes h7"
        "cx_method_buf cx = [] \<and> cx_path_buf cx = [] \<and> cx_qs_buf cx = [] \<and> length (cx_worker_id cx) < 128"
  using assms
  unfolding dpumesh_init_def Let_def
  apply (simp only: init_then_Some split_paired_Ex prod.case split: if_split_asm prod.split_asm)
  apply simp_all
  apply (elim exE conjE)
  subgoal premises prems using prems(2-) by - (rule prems(1), assumption+, auto simp: snprintf_def min_less_iff_disj)
  done

lemma dpumesh_init_fds:
  assumes "dpumesh_init ie app_name worker_num h = (Some cx, h')" and "ie_pipe ie = Some (r, w)"
  shows "cx_notify_fd cx = r \<and> cx_notify_write_fd cx = w \<and> cx_response_pipe_fds cx = replicate DPUMESH_MAX_PENDING (-1)"
  by (rule dpumesh_init_Some [OF assms(1)]) (use assms(2) in \<open>auto simp: init_pipe_def\<close>)

text \<open>A context that holds nothing yet: no slot of the four pools is in use, no descriptor is queued, no
  response is awaited and the notify pipe is empty.\<close>

definition starts_empty :: "dpumesh_ctx \<Rightarrow> bool" where
  "starts_empty cx \<longleftrightarrow> bp_used (cx_tx_header cx) = {} \<and> bp_used (cx_tx_body cx) = {}
     \<and> bp_used (cx_rx_header cx) = {} \<and> bp_used (cx_rx_body cx) = {}
     \<and> dr_list (cx_tx_sq cx) = [] \<and> dr_list (cx_rx_sq cx) = []
     \<and> (\<forall>fd \<in> set (cx_response_pipe_fds cx). fd = -1) \<and> pipe_contents (cx_notify_fd cx) (cx_pipes cx) = []"

lemma dpumesh_init_ok:
  assumes "dpumesh_init ie app_name worker_num h = (Some cx, h')" and "host_wf h" and "ie_pipe ie = Some (r, w)" and "r \<noteq> w"
  shows "ctx_inv cx \<and> fds_ok cx \<and> tx_free cx \<and> starts_empty cx \<and> cx_poller_running cx \<and> cx_notify_fd cx = r \<and> serving cx"
proof -
  from assms(1) obtain pod fs' txh h1 txb h2 rxh h3 rxb h4 txq h5 rxq h6 pf h7 where
      st: "init_pool ie 0 (app_name @ ''_tx_header'') (h\<lparr>h_files := fs'\<rparr>) = (Some txh, h1)"
        "init_pool ie 1 (app_name @ ''_tx_body'') h1 = (Some txb, h2)"
        "init_pool ie 2 (app_name @ ''_rx_header'') h2 = (Some rxh, h3)"
        "init_pool ie 3 (app_name @ ''_rx_body'') h3 = (Some rxb, h4)"
        "init_ring ie 0 (''pod_'' @ show_int pod @ ''_tx_sq'') h4 = (Some txq, h5)"
        "init_ring ie 1 (''pod_'' @ show_int pod @ ''_rx_sq'') h5 = (Some rxq, h6)"
        "init_pipe ie h6 = (Some pf, h7)"
      and cx: "cx_tx_header cx = txh" "cx_tx_body cx = txb" "cx_rx_header cx = rxh" "cx_rx_body cx = rxb"
        "cx_tx_sq cx = txq" "cx_rx_sq cx = rxq" "cx_notify_fd cx = fst pf" "cx_notify_write_fd cx = snd pf"
        "cx_response_pipe_fds cx = replicate DPUMESH_MAX_PENDING (-1)" "length (cx_inbound cx) = DPUMESH_MAX_PENDING"
        "cx_poller_running cx" "cx_pipes cx = h_pipes h7"
        "cx_method_buf cx = [] \<and> cx_path_buf cx = [] \<and> cx_qs_buf cx = [] \<and> length (cx_worker_id cx) < 128"
    by (rule dpumesh_init_Some)
  have h0: "host_wf (h\<lparr>h_files := fs'\<rparr>)" using assms(2) by (simp add: host_wf_def)
  note i1 = init_pool_ok [OF st(1) h0]
  note i2 = init_pool_ok [OF st(2) conjunct1 [OF conjunct2 [OF conjunct2 [OF i1]]]]
  note i3 = init_pool_ok [OF st(3) conjunct1 [OF conjunct2 [OF conjunct2 [OF i2]]]]
  note i4 = init_pool_ok [OF st(4) conjunct1 [OF conjunct2 [OF conjunct2 [OF i3]]]]
  note i5 = init_ring_ok [OF st(5) conjunct1 [OF conjunct2 [OF conjunct2 [OF i4]]]]
  note i6 = init_ring_ok [OF st(6) conjunct1 [OF conjunct2 [OF conjunct2 [OF i5]]]]
  have pf: "pf = (r, w)" "h_pipes h7 = pipe_open r w (h_pipes h6)" using st(7) assms(3) by (auto simp: init_pipe_def)
  have inv: "ctx_inv cx" using i1 i2 i3 i4 i5 i6 cx by (simp add: ctx_inv_def)
  have fds: "fds_ok cx" using cx pf assms(4) by (simp add: fds_ok_def writable_def pipe_open_def)
  have "(0::int) \<in> bp_slots bp" if "pool_ok bp" for bp using that by (simp add: pool_ok_def bp_slots_def DPUMESH_NUM_SLOTS_def)
  then have "tx_free cx" using i1 i2 i5 cx by (auto simp: tx_free_def)
  moreover have "starts_empty cx"
    using i1 i2 i3 i4 i5 i6 cx pf assms(4) by (auto simp: starts_empty_def pipe_contents_def pipe_open_def)
  moreover have "serving cx" using inv cx(13) by (simp add: serving_def bufs_bounded_def)
  ultimately show ?thesis using inv fds cx(7,11) pf(1) by simp
qed

text \<open>A worker that \<open>dpumesh_init\<close> sets up on shared memory of the right sizes, with a fresh notify
  pipe, starts well formed: its pools and rings are empty and well formed, no response is awaited,
  and every state it can reach from there keeps the pools, rings and descriptors well formed.\<close>

theorem dpumesh_init_worker:
  assumes "dpumesh_init ie app_name worker_num h = (Some cx, h')" and "host_wf h" and "ie_pipe ie = Some (r, w)" and "r \<noteq> w"
  shows "ctx_inv cx \<and> fds_ok cx \<and> tx_free cx \<and> starts_empty cx \<and> cx_poller_running cx \<and> cx_notify_fd cx = r
    \<and> (\<forall>cx'. worker_reach cx cx' \<longrightarrow> ctx_inv cx' \<and> fds_ok cx')"
  using dpumesh_init_ok [OF assms] worker_reach_keeps by blast

definition demo_env :: init_env where
  "demo_env = \<lparr>ie_calloc = True, ie_counter = files_ok, ie_registry = files_ok,
     ie_pool = (\<lambda>_. \<lparr>be_create_fd = 3, be_truncate_ok = True, be_create_map_ok = True, be_open_fd = 3, be_map_ok = True\<rparr>),
     ie_ring = (\<lambda>_. \<lparr>de_create_fd = 3, de_truncate_ok = True, de_create_map_ok = True, de_open_fd = 3, de_map_ok = True\<rparr>),
     ie_pipe = Some (4, 5), ie_thread = True\<rparr>"

definition demo_host :: host where
  "demo_host = \<lparr>h_prefix = None, h_pools = Map.empty, h_rings = Map.empty,
     h_files = \<lparr>pf_counter = None, pf_registry = None\<rparr>, h_pipes = no_pipes\<rparr>"

theorem dpumesh_init_worker_witness:
  "\<exists>cx h'. dpumesh_init demo_env ''id'' 1 demo_host = (Some cx, h') \<and> ctx_inv cx \<and> fds_ok cx
    \<and> starts_empty cx \<and> cx_notify_fd cx = 4"
proof -
  have "init_calls_ok demo_env" by (simp add: init_calls_ok_def demo_env_def files_ok_def)
  moreover have "0 \<le> fst (pod_registry_alloc_id (ie_counter demo_env) (h_files demo_host))"
    by (simp add: pod_registry_alloc_id_def demo_env_def demo_host_def files_ok_def)
  ultimately obtain cx h' where c: "dpumesh_init demo_env ''id'' 1 demo_host = (Some cx, h')"
    using dpumesh_init_ex by blast
  moreover have "host_wf demo_host" by (simp add: host_wf_def demo_host_def)
  moreover have "ie_pipe demo_env = Some (4, 5)" by (simp add: demo_env_def)
  ultimately show ?thesis using dpumesh_init_worker [of demo_env "''id''" 1 demo_host cx h' 4 5] by auto
qed

section \<open>Properties\<close>

text \<open>C11. In every state a worker can reach the pools, rings and tables are well formed, and the
  registered response descriptors are open write ends of pipes, pairwise different and different from
  the notify pipe: the poller never writes to or closes a descriptor that is not its own.\<close>

theorem worker_reach_inv:
  assumes "worker_reach cx0 cx" and "ctx_inv cx0" and "fds_ok cx0"
  shows "ctx_inv cx \<and> fds_ok cx"
  using assms by (rule worker_reach_keeps)

theorem worker_reach_inv_witness:
  "\<exists>cx. worker_reach demo_ctx cx \<and> cx_next_req_id cx = 2 \<and> ctx_inv cx \<and> fds_ok cx"
proof -
  have fresh: "fresh_fds demo_ctx 5 6" by (simp add: fresh_fds_def demo_ctx_def pipe_open_def no_pipes_def)
  have fds: "fds_ok demo_ctx"
    by (simp add: fds_ok_def demo_ctx_def writable_def pipe_open_def no_pipes_def)
  obtain cx where w: "dpumesh_write demo_ctx demo_msg True (Some (5, 6)) = Some (0, cx, Some 5)"
      and f: "cx = (with_response_pipe demo_ctx 5 6)\<lparr>cx_tx_header := cx_tx_header cx, cx_tx_body := cx_tx_body cx,
        cx_tx_sq := cx_tx_sq cx\<rparr>"
    using write_request_queued [OF demo_ctx_inv demo_ctx_free demo_msg_body(3) demo_msg_ok(2) demo_msg_body(1), of 5 6]
    by blast
  have r: "worker_reach demo_ctx cx"
    by (rule reach_step [OF reach_refl step_request [OF demo_msg_body(3) fresh w]])
  moreover have "cx_next_req_id cx = 2"
    using arg_cong [OF f, of cx_next_req_id] by (simp add: with_response_pipe_def demo_ctx_def)
  ultimately show ?thesis using worker_reach_inv [OF r demo_ctx_inv fds] by blast
qed

lemma tx_enqueue_oversized:
  assumes "ctx_inv cx" and "tx_free cx" and "length hdr < HDR_SIZE"
    and "m_body msg = Some body" and "DPUMESH_SLOT_SIZE < m_body_len msg" and "m_body_len msg < 2 ^ 31"
  shows "\<exists>cx' d. tx_enqueue cx rid fl hdr (length hdr) msg = Some (0, cx')
    \<and> dr_list (cx_tx_sq cx') = dr_list (cx_tx_sq cx) @ [d] \<and> unat (body_len d) = m_body_len msg
    \<and> bp_data (cx_tx_body cx') = bp_data (cx_tx_body cx)"
proof -
  have ok: "pool_ok (cx_tx_header cx)" "pool_ok (cx_tx_body cx)" "dr_inv (cx_tx_sq cx)"
    using assms(1) by (simp_all add: ctx_inv_def)
  have free: "bp_used (cx_tx_header cx) \<noteq> bp_slots (cx_tx_header cx)"
      "bp_used (cx_tx_body cx) \<noteq> bp_slots (cx_tx_body cx)" "length (dr_list (cx_tx_sq cx)) < 512"
    using assms(2) by (simp_all add: tx_free_def)
  have lh: "length hdr \<le> DPUMESH_SLOT_SIZE" "length hdr \<le> length (hdr @ [NUL])"
    using assms(3) by (simp_all add: DPUMESH_SLOT_SIZE_def HDR_SIZE_def)
  obtain hs th th1 where h: "bp_alloc (cx_tx_header cx) = (hs, th)" "0 \<le> hs"
      "bp_write th hs (hdr @ [NUL]) (length hdr) = Some (int (length hdr), th1)"
    by (rule alloc_write_slot [OF ok(1) free(1) lh])
  obtain bs tb where b: "bp_alloc (cx_tx_body cx) = (bs, tb)" by (rule prod.exhaust)
  have bs: "0 \<le> bs" using pool_ok_bp_inv [OF ok(2)] b free(2) by (cases rule: pool.alloc_cases) auto
  have tb: "bp_slot_size tb = DPUMESH_SLOT_SIZE" "bp_data tb = bp_data (cx_tx_body cx)"
    using pool_ok_alloc [OF ok(2) b] b by (auto simp: pool_ok_def bp_alloc_def split: option.splits)
  have "i32 (int (m_body_len msg)) = int (m_body_len msg)" using assms(6) by (simp add: in_i32_def)
  then have w: "bp_write tb bs body (m_body_len msg) = Some (-1, tb)"
    using assms(5) tb(1) by (simp add: bp_write_def)
  let ?d = "tx_descriptor cx rid fl hs (length hdr) bs (m_body_len msg)"
  obtain sq where sq: "dr_put (cx_tx_sq cx) ?d = Some (0, sq)" "dr_list sq = dr_list (cx_tx_sq cx) @ [?d]"
    using ok(3) free(3) by (cases rule: dr_put_cases [where d = ?d]) auto
  have hb: "has_body msg" "0 < m_body_len msg" using assms(4,5) by (auto simp: has_body_def)
  have "tx_enqueue cx rid fl hdr (length hdr) msg = Some (0, cx\<lparr>cx_tx_header := th1, cx_tx_body := tb, cx_tx_sq := sq\<rparr>)"
    using h b bs w sq(1) hb assms(4) by (simp add: tx_enqueue_def)
  moreover have "unat (body_len ?d) = m_body_len msg"
    using assms(6) by (simp add: tx_descriptor_def unat_of_nat take_bit_nat_eq_self)
  ultimately show ?thesis using sq(2) tb(2) by (intro exI [of _ "cx\<lparr>cx_tx_header := th1, cx_tx_body := tb, cx_tx_sq := sq\<rparr>"] exI [of _ ?d]) simp
qed

text \<open>A body longer than a slot is reported as sent: the write into the slot is refused and ignored,
  so the queued descriptor announces the full length over what the slot held before.\<close>

theorem oversized_body_queued:
  assumes "ctx_inv cx" and "tx_free cx" and "m_type msg = DPUMESH_MSG_RESPONSE"
    and "m_orig_index msg < DPUMESH_MAX_PENDING" and "length (header_text (answer_header cx msg)) < HDR_SIZE"
    and "m_body msg = Some body" and "DPUMESH_SLOT_SIZE < m_body_len msg" and "m_body_len msg < 2 ^ 31"
  shows "\<exists>cx' d. dpumesh_write cx msg False None = Some (0, cx', None)
    \<and> dr_list (cx_tx_sq cx') = dr_list (cx_tx_sq cx) @ [d] \<and> unat (body_len d) = m_body_len msg
    \<and> bp_data (cx_tx_body cx') = bp_data (cx_tx_body cx)"
proof -
  let ?h = "header_text (answer_header cx msg)" and ?ib = "cx_inbound cx ! m_orig_index msg"
  let ?cx = "cx\<lparr>cx_inbound := (cx_inbound cx)[m_orig_index msg := ?ib\<lparr>ib_active := False\<rparr>]\<rparr>"
  have h: "response_header cx msg ?ib = (?h, length ?h)"
    using assms(5) by (simp add: response_header_def serialize_header_def snprintf_def nullable_def
      answer_header_def Let_def)
  have idx: "m_orig_index msg < length (cx_inbound cx)" using assms(1,4) by (simp add: ctx_inv_def)
  have inv: "ctx_inv ?cx" "tx_free ?cx" using assms(1,2) by (simp_all add: ctx_inv_def tx_free_def)
  obtain cx' d where e: "tx_enqueue ?cx (ib_req_id ?ib) (answer_flags cx msg) ?h (length ?h) msg = Some (0, cx')"
      "dr_list (cx_tx_sq cx') = dr_list (cx_tx_sq ?cx) @ [d]" "unat (body_len d) = m_body_len msg"
      "bp_data (cx_tx_body cx') = bp_data (cx_tx_body ?cx)"
    using tx_enqueue_oversized [OF inv assms(5-8)] by blast
  then have "dpumesh_write cx msg False None = Some (0, cx', None)"
    using idx assms(3) h by (simp add: dpumesh_write_def Let_def answer_flags_def DPUMESH_MSG_REQUEST_def
      DPUMESH_MSG_RESPONSE_def)
  with e(2-4) show ?thesis by auto
qed

definition huge_answer :: dpumesh_msg where
  "huge_answer = demo_answer\<lparr>m_body := Some [], m_body_len := DPUMESH_SLOT_SIZE + 1\<rparr>"

theorem oversized_body_queued_witness:
  "\<exists>cx' (d :: sw_descriptor). dpumesh_write demo_ctx huge_answer False None = Some (0, cx', None)
     \<and> dr_list (cx_tx_sq cx') = [d] \<and> unat (body_len d) = DPUMESH_SLOT_SIZE + 1 \<and> bp_data (cx_tx_body cx') = bp_data (cx_tx_body demo_ctx)"
proof -
  have h: "answer_header demo_ctx huge_answer = answer_header demo_ctx demo_answer"
    by (simp add: answer_header_def huge_answer_def)
  have a: "m_type huge_answer = DPUMESH_MSG_RESPONSE" "m_orig_index huge_answer < DPUMESH_MAX_PENDING"
      "m_body huge_answer = Some []" "DPUMESH_SLOT_SIZE < m_body_len huge_answer" "m_body_len huge_answer < 2 ^ 31"
    using demo_answer_ok(1,2) by (simp_all add: huge_answer_def DPUMESH_SLOT_SIZE_def)
  have "length (header_text (answer_header demo_ctx huge_answer)) < HDR_SIZE"
    unfolding h by (rule demo_answer_ok(4))
  from oversized_body_queued [OF demo_ctx_inv demo_ctx_free a(1,2) this a(3-5)]
  obtain cx' d where r: "dpumesh_write demo_ctx huge_answer False None = Some (0, cx', None)"
      "dr_list (cx_tx_sq cx') = dr_list (cx_tx_sq demo_ctx) @ [d]" "unat (body_len d) = m_body_len huge_answer" "bp_data (cx_tx_body cx') = bp_data (cx_tx_body demo_ctx)"
    by blast
  have "m_body_len huge_answer = DPUMESH_SLOT_SIZE + 1" by (simp add: huge_answer_def)
  moreover have "dr_list (cx_tx_sq demo_ctx) = []" by (simp add: demo_ctx_def dr_reset_ok(2))
  ultimately show ?thesis using r by (intro exI [of _ cx'] exI [of _ d]) simp
qed

text \<open>A request whose header lacks the method, path and query is delivered with those of the request
  decoded before it, since the static buffers keep their text.\<close>

theorem stale_request_fields:
  assumes "received cx d ''{}'' body" and "flags d AND 0x0F \<noteq> CASE_INGRESS" and "body \<noteq> []"
    and "length body < DPUMESH_SLOT_SIZE"
  shows "\<exists>rq cx'. decode_request cx d = Some (rq, cx') \<and> rq_method rq = Some (cx_method_buf cx)
    \<and> rq_path rq = Some (cx_path_buf cx) \<and> rq_query_string rq = Some (cx_qs_buf cx)"
proof -
  have pos: "header_len d > 0" "body_len d > 0"
    using assms(1,3) by (simp_all add: received_def word_less_nat_alt)
  have len: "read_len (header_len d) HDR_SIZE = length ''{}''" "read_len (body_len d) DPUMESH_SLOT_SIZE = length body"
    using assms(1,4) by (auto simp: received_def read_len_def HDR_SIZE_def)
  have c: "cstring ''{}'' = ''{}''" by (simp add: cstring_def)
  have g: "json_get_into old ''{}'' ''method'' n = old" "json_get_into old ''{}'' ''path'' n = old"
      "json_get_into old ''{}'' ''query_string'' n = old" for old n
    by (simp_all add: json_get_into_def json_get_str_def after_key_def key_pattern_def snprintf_def)
  show ?thesis
    using assms(1,2) pos
    by (simp add: decode_request_def Let_def case_flag_blank received_def len c read_header_fields_def g)
qed

theorem stale_request_fields_witness:
  "\<exists>cx d rq cx'. cx_path_buf cx = ''/old'' \<and> decode_request cx d = Some (rq, cx') \<and> rq_path rq = Some ''/old''"
proof -
  have e: "bp_inv empty_pool" "(0::int) < int (bp_num_slots empty_pool)" "2 \<le> bp_slot_size empty_pool"
    using empty_pool_ok by (simp_all add: pool_ok_def DPUMESH_NUM_SLOTS_def DPUMESH_SLOT_SIZE_def)
  obtain hp where hp: "bp_read hp 0 2 = Some (2, ''{}'')"
    using bp_write_slot [OF e(1) _ e(2,3), of "''{}''"] by auto
  have "1 \<le> bp_slot_size empty_pool" using e(3) by simp
  then obtain bp where bp: "bp_read bp 0 1 = Some (1, ''b'')"
    using bp_write_slot [OF e(1) _ e(2), of 1 "''b''"] by auto
  let ?cx = "demo_ctx\<lparr>cx_rx_header := hp, cx_rx_body := bp, cx_path_buf := ''/old''\<rparr>"
  let ?d = "zero_descriptor\<lparr>header_len := 2, body_len := 1, flags := 3, valid := 1\<rparr>"
  have "bp_read hp 0 (Suc (Suc 0)) = Some (2, ''{}'')" using hp by (simp add: numeral_2_eq_2)
  then have "received ?cx ?d ''{}'' ''b''" using bp by (simp add: received_def zero_descriptor_def)
  moreover have "flags ?d AND 0x0F \<noteq> CASE_INGRESS" by (simp add: CASE_INGRESS_def)
  moreover have "length ''b'' < DPUMESH_SLOT_SIZE" by (simp add: DPUMESH_SLOT_SIZE_def)
  ultimately obtain rq cx' where "decode_request ?cx ?d = Some (rq, cx')" "rq_path rq = Some (cx_path_buf ?cx)"
    using stale_request_fields [of ?cx ?d "''b''"] by blast
  then show ?thesis by (intro exI [of _ ?cx] exI [of _ ?d] exI [of _ rq] exI [of _ cx']) simp
qed

end
