(* ===== verification/Lifecycle.thy ===== *)
theory Lifecycle
  imports Dpumesh_Machine "HOL-Library.Multiset"
begin

text \<open>
  What a process holds while \<open>dpumesh_init\<close> and \<open>dpumesh_destroy\<close> run: its open descriptors, its mappings
  and its contexts on the heap. The six shared objects of a context (four pools, two rings) are created,
  opened and released in the same way by \<open>bp_init\<close>, \<open>dr_init\<close>, \<open>bp_destroy\<close> and \<open>dr_destroy\<close>; the two ends of
  the notify pipe are opened last. \<open>None\<close> is a release of what is not held, and a call that returns a
  descriptor in use or a negative one as if it were new, which the kernel never does. The results of the
  functions agree with \<open>Dpumesh\<close>, where the contents of the objects and of the pipes are.
\<close>

section \<open>Processes\<close>

record process =
  pr_fds :: "int set"
  pr_maps :: "string multiset"
  pr_contexts :: nat

definition sys_open :: "int \<Rightarrow> process \<Rightarrow> process option" where
  "sys_open fd p = (if fd < 0 \<or> fd \<in> pr_fds p then None else Some (p\<lparr>pr_fds := insert fd (pr_fds p)\<rparr>))"

definition sys_close :: "int \<Rightarrow> process \<Rightarrow> process option" where
  "sys_close fd p = (if fd \<in> pr_fds p then Some (p\<lparr>pr_fds := pr_fds p - {fd}\<rparr>) else None)"

definition sys_mmap :: "string \<Rightarrow> process \<Rightarrow> process" where
  "sys_mmap path p = p\<lparr>pr_maps := add_mset path (pr_maps p)\<rparr>"

definition sys_munmap :: "string \<Rightarrow> process \<Rightarrow> process option" where
  "sys_munmap path p = (if path \<in># pr_maps p then Some (p\<lparr>pr_maps := pr_maps p - {#path#}\<rparr>) else None)"

definition free_context :: "process \<Rightarrow> process option" where
  "free_context p = (case pr_contexts p of 0 \<Rightarrow> None | Suc n \<Rightarrow> Some (p\<lparr>pr_contexts := n\<rparr>))"

section \<open>Shared objects\<close>

text \<open>What the calls for one object return, and the handle that \<open>buffer_pool_t\<close> and \<open>desc_ring_t\<close> keep.\<close>

record object_env =
  oe_create_fd :: int
  oe_truncate_ok :: bool
  oe_create_map_ok :: bool
  oe_lock_fd :: int
  oe_open_fd :: int
  oe_map_ok :: bool

record object_handle =
  oh_path :: string
  oh_fd :: int
  oh_mapped :: bool

definition object_create :: "object_env \<Rightarrow> string \<Rightarrow> process \<Rightarrow> (bool \<times> process) option" where
  "object_create env path p =
     (if oe_create_fd env < 0 then Some (False, p)
      else do {
        p1 \<leftarrow> sys_open (oe_create_fd env) p;
        if \<not> oe_truncate_ok env \<or> \<not> oe_create_map_ok env then do {
          p2 \<leftarrow> sys_close (oe_create_fd env) p1;
          Some (False, p2)
        }
        else do {
          p2 \<leftarrow> sys_munmap path (sys_mmap path p1);
          p3 \<leftarrow> sys_close (oe_create_fd env) p2;
          if 0 \<le> oe_lock_fd env then do {
            p4 \<leftarrow> sys_open (oe_lock_fd env) p3;
            p5 \<leftarrow> sys_close (oe_lock_fd env) p4;
            Some (True, p5)
          }
          else Some (True, p3)
        }
      })"

definition object_open :: "object_env \<Rightarrow> bool \<Rightarrow> string \<Rightarrow> process \<Rightarrow> (object_handle option \<times> process) option" where
  "object_open env exists path p =
     (if \<not> exists \<or> oe_open_fd env < 0 then Some (None, p)
      else do {
        p1 \<leftarrow> sys_open (oe_open_fd env) p;
        if oe_map_ok env then Some (Some \<lparr>oh_path = path, oh_fd = oe_open_fd env, oh_mapped = True\<rparr>, sys_mmap path p1)
        else do {
          p2 \<leftarrow> sys_close (oe_open_fd env) p1;
          Some (None, p2)
        }
      })"

definition object_init :: "object_env \<Rightarrow> bool \<Rightarrow> bool \<Rightarrow> string \<Rightarrow> process \<Rightarrow> (object_handle option \<times> process) option" where
  "object_init env create exists path p =
     (if create then do {
        (ok, p1) \<leftarrow> object_create env path p;
        if ok then object_open env True path p1 else Some (None, p1)
      }
      else object_open env exists path p)"

definition object_destroy :: "object_handle \<Rightarrow> process \<Rightarrow> process option" where
  "object_destroy oh p = do {
     p1 \<leftarrow> (if oh_mapped oh then sys_munmap (oh_path oh) p else Some p);
     if 0 \<le> oh_fd oh then sys_close (oh_fd oh) p1 else Some p1
   }"

text \<open>The pools and the rings. The descriptor of the lock file is what their environments leave open.\<close>

definition pool_env :: "bp_env \<Rightarrow> int \<Rightarrow> object_env" where
  "pool_env env lf = \<lparr>oe_create_fd = be_create_fd env, oe_truncate_ok = be_truncate_ok env,
     oe_create_map_ok = be_create_map_ok env, oe_lock_fd = lf, oe_open_fd = be_open_fd env, oe_map_ok = be_map_ok env\<rparr>"

definition ring_env :: "dr_env \<Rightarrow> int \<Rightarrow> object_env" where
  "ring_env env lf = \<lparr>oe_create_fd = de_create_fd env, oe_truncate_ok = de_truncate_ok env,
     oe_create_map_ok = de_create_map_ok env, oe_lock_fd = lf, oe_open_fd = de_open_fd env, oe_map_ok = de_map_ok env\<rparr>"

definition bp_init_os :: "string option \<Rightarrow> bp_env \<Rightarrow> int \<Rightarrow> shm_pools \<Rightarrow> string \<Rightarrow> bool \<Rightarrow> process
    \<Rightarrow> (object_handle option \<times> process) option" where
  "bp_init_os pfx env lf shm name create =
     (let path = bp_shm_path (bp_handle (shm_prefix pfx) name)
      in object_init (pool_env env lf) create (shm path \<noteq> None) path)"

definition dr_init_os :: "string option \<Rightarrow> dr_env \<Rightarrow> int \<Rightarrow> shm_rings \<Rightarrow> string \<Rightarrow> bool \<Rightarrow> process
    \<Rightarrow> (object_handle option \<times> process) option" where
  "dr_init_os pfx env lf shm name create =
     (let path = dr_shm_path pfx name in object_init (ring_env env lf) create (shm path \<noteq> None) path)"

definition bp_destroy :: "object_handle \<Rightarrow> process \<Rightarrow> process option" where
  "bp_destroy = object_destroy"

definition dr_destroy :: "object_handle \<Rightarrow> process \<Rightarrow> process option" where
  "dr_destroy = object_destroy"

lemmas sys_defs = sys_open_def sys_close_def sys_mmap_def sys_munmap_def

text \<open>The creation keeps nothing; the opening keeps one descriptor and one mapping, or nothing.\<close>

lemma object_create_keeps: "object_create env path p = Some (ok, p') \<Longrightarrow>
    p' = p \<and> (ok \<longleftrightarrow> 0 \<le> oe_create_fd env \<and> oe_truncate_ok env \<and> oe_create_map_ok env)"
  by (auto simp: object_create_def sys_defs bind_eq_Some_conv split: if_splits)

lemma object_open_keeps: "object_open env exists path p = Some (r, p') \<Longrightarrow>
    (r = None \<and> p' = p \<and> \<not> (exists \<and> 0 \<le> oe_open_fd env \<and> oe_map_ok env))
    \<or> (r = Some \<lparr>oh_path = path, oh_fd = oe_open_fd env, oh_mapped = True\<rparr> \<and> exists \<and> 0 \<le> oe_open_fd env \<and> oe_map_ok env
      \<and> oe_open_fd env \<notin> pr_fds p
      \<and> p' = p\<lparr>pr_fds := insert (oe_open_fd env) (pr_fds p), pr_maps := add_mset path (pr_maps p)\<rparr>)"
  by (auto simp: object_open_def sys_defs bind_eq_Some_conv split: if_splits)

definition object_calls_ok :: "object_env \<Rightarrow> bool" where
  "object_calls_ok env \<longleftrightarrow> 0 \<le> oe_create_fd env \<and> oe_truncate_ok env \<and> oe_create_map_ok env \<and> 0 \<le> oe_open_fd env \<and> oe_map_ok env"

definition handle_of :: "object_env \<times> string \<Rightarrow> object_handle" where
  "handle_of c = \<lparr>oh_path = snd c, oh_fd = oe_open_fd (fst c), oh_mapped = True\<rparr>"

lemma object_init_keeps:
  assumes "object_init env True exists path p = Some (r, p')"
  shows "(r = None \<and> p' = p \<and> \<not> object_calls_ok env)
    \<or> (r = Some (handle_of (env, path)) \<and> object_calls_ok env \<and> oe_open_fd env \<notin> pr_fds p
      \<and> p' = p\<lparr>pr_fds := insert (oe_open_fd env) (pr_fds p), pr_maps := add_mset path (pr_maps p)\<rparr>)"
proof -
  obtain ok p1 where c: "object_create env path p = Some (ok, p1)"
      "(if ok then object_open env True path p1 else Some (None, p1)) = Some (r, p')"
    using assms by (auto simp: object_init_def bind_eq_Some_conv)
  note k = object_create_keeps [OF c(1)]
  show ?thesis
  proof (cases ok)
    case True
    then have "object_open env True path p = Some (r, p')" using c(2) k by simp
    from object_open_keeps [OF this] True k show ?thesis unfolding object_calls_ok_def handle_of_def by auto
  qed (use c(2) k in \<open>auto simp: object_calls_ok_def\<close>)
qed

text \<open>The results are those of \<open>bp_init\<close> and \<open>dr_init\<close>.\<close>

lemma bp_init_os_result:
  "bp_init_os pfx env lf shm name create p = Some (r, p') \<Longrightarrow>
     fst (bp_init pfx env shm name create) = (if r = None then -1 else 0)
     \<and> (\<forall>oh. r = Some oh \<longrightarrow> oh_path oh = bp_shm_path (fst (snd (bp_init pfx env shm name create)))
          \<and> oh_fd oh = bp_shm_fd (fst (snd (bp_init pfx env shm name create))) \<and> bp_mapped (fst (snd (bp_init pfx env shm name create))))"
  by (auto simp: bp_init_os_def object_init_def object_create_def object_open_def bp_init_def bp_create_def bp_open_def bp_handle_def
      pool_env_def sys_defs Let_def bind_eq_Some_conv split: if_splits option.splits)

lemma dr_init_os_result:
  "dr_init_os pfx env lf shm name create p = Some (r, p') \<Longrightarrow>
     fst (dr_init pfx env shm name create) = (if r = None then -1 else 0)"
  by (auto simp: dr_init_os_def object_init_def object_create_def object_open_def dr_init_def ring_env_def sys_defs Let_def
      bind_eq_Some_conv split: if_splits option.splits)

section \<open>Contexts\<close>

text \<open>The calls of \<open>dpumesh_init\<close> for the six objects, in order; they all create their object.\<close>

definition pool_path :: "string option \<Rightarrow> string \<Rightarrow> string \<Rightarrow> string" where
  "pool_path pfx app_name sfx = bp_shm_path (bp_handle (shm_prefix pfx) (fst (snprintf 128 (app_name @ sfx))))"

definition ring_path :: "string option \<Rightarrow> int \<Rightarrow> string \<Rightarrow> string" where
  "ring_path pfx pod sfx = dr_shm_path pfx (fst (snprintf 128 (''pod_'' @ show_int pod @ sfx)))"

definition object_calls :: "init_env \<Rightarrow> (nat \<Rightarrow> int) \<Rightarrow> string option \<Rightarrow> string \<Rightarrow> int \<Rightarrow> (object_env \<times> string) list" where
  "object_calls ie lf pfx app_name pod =
     map (\<lambda>(i, sfx). (pool_env (ie_pool ie i) (lf i), pool_path pfx app_name sfx))
       [(0, ''_tx_header''), (1, ''_tx_body''), (2, ''_rx_header''), (3, ''_rx_body'')]
     @ map (\<lambda>(i, sfx). (ring_env (ie_ring ie i) (lf (4 + i)), ring_path pfx pod sfx))
       [(0, ''_tx_sq''), (1, ''_rx_sq'')]"

fun init_objects :: "(object_env \<times> string) list \<Rightarrow> process \<Rightarrow> (object_handle list option \<times> process) option" where
  "init_objects [] p = Some (Some [], p)"
| "init_objects ((env, path) # cs) p = do {
     (r, p1) \<leftarrow> object_init env True True path p;
     case r of
       None \<Rightarrow> Some (None, p1)
     | Some oh \<Rightarrow> do { (rs, p2) \<leftarrow> init_objects cs p1; Some (map_option ((#) oh) rs, p2) }
   }"

text \<open>The notify pipe and the thread; when one of them fails the context is freed.\<close>

definition init_notify_os :: "init_env \<Rightarrow> object_handle list \<Rightarrow> process \<Rightarrow> (object_handle list option \<times> process) option" where
  "init_notify_os ie hs p =
     (case ie_pipe ie of
        None \<Rightarrow> do { p1 \<leftarrow> free_context p; Some (None, p1) }
      | Some (r, w) \<Rightarrow> do {
          p1 \<leftarrow> sys_open r p;
          p2 \<leftarrow> sys_open w p1;
          if \<not> ie_thread ie then do { p3 \<leftarrow> free_context p2; Some (None, p3) } else Some (Some hs, p2)
        })"

definition dpumesh_init_os :: "init_env \<Rightarrow> (nat \<Rightarrow> int) \<Rightarrow> string \<Rightarrow> host \<Rightarrow> process
    \<Rightarrow> (object_handle list option \<times> process) option" where
  "dpumesh_init_os ie lf app_name h p =
     (if \<not> ie_calloc ie then Some (None, p)
      else
        let p1 = p\<lparr>pr_contexts := Suc (pr_contexts p)\<rparr>;
            (pod, fs) = pod_registry_alloc_id (ie_counter ie) (h_files h)
        in if pod < 0 then do { p2 \<leftarrow> free_context p1; Some (None, p2) }
           else do {
             (hs, p2) \<leftarrow> init_objects (object_calls ie lf (h_prefix h) app_name pod) p1;
             case hs of
               None \<Rightarrow> do { p3 \<leftarrow> free_context p2; Some (None, p3) }
             | Some hs \<Rightarrow> init_notify_os ie hs p2
           })"

fun release_all :: "(process \<Rightarrow> process option) list \<Rightarrow> process \<Rightarrow> process option" where
  "release_all [] p = Some p"
| "release_all (f # fs) p = do { p1 \<leftarrow> f p; release_all fs p1 }"

text \<open>\<open>dpumesh_destroy\<close> of a context whose objects have the handles \<open>hs\<close>: the notify pipe and the write ends
  of the awaited responses, then the objects, then the context.\<close>

definition pipe_fds_of :: "dpumesh_ctx \<Rightarrow> int list" where
  "pipe_fds_of cx = filter (\<lambda>fd. 0 \<le> fd) (cx_notify_fd cx # cx_notify_write_fd cx # cx_response_pipe_fds cx)"

definition dpumesh_destroy_os :: "object_handle list \<Rightarrow> dpumesh_ctx \<Rightarrow> process \<Rightarrow> (sw_descriptor pipes \<times> process) option" where
  "dpumesh_destroy_os hs cx p = do {
     let ps = dpumesh_destroy cx;
     p1 \<leftarrow> release_all (map sys_close (pipe_fds_of cx)) p;
     p2 \<leftarrow> release_all (map bp_destroy (take 4 hs) @ map dr_destroy (drop 4 hs)) p1;
     p3 \<leftarrow> free_context p2;
     Some (ps, p3)
   }"

section \<open>Lemmas\<close>

text \<open>What a run over the objects keeps: everything up to the first object that cannot be set up.\<close>

definition opened :: "(object_env \<times> string) list \<Rightarrow> (object_env \<times> string) list" where
  "opened cs = takeWhile (\<lambda>c. object_calls_ok (fst c)) cs"

definition keeping :: "(object_env \<times> string) list \<Rightarrow> process \<Rightarrow> process" where
  "keeping cs p = p\<lparr>pr_fds := pr_fds p \<union> oe_open_fd ` fst ` set cs, pr_maps := pr_maps p + mset (map snd cs)\<rparr>"

lemma init_objects_keeps:
  "init_objects cs p = Some (r, p') \<Longrightarrow>
     p' = keeping (opened cs) p \<and> r = (if opened cs = cs then Some (map handle_of cs) else None)
     \<and> distinct (map (oe_open_fd \<circ> fst) (opened cs)) \<and> (\<forall>c \<in> set (opened cs). oe_open_fd (fst c) \<notin> pr_fds p \<and> 0 \<le> oe_open_fd (fst c))"
proof (induction cs arbitrary: p r)
  case (Cons c cs)
  obtain env path where c: "c = (env, path)" by (rule prod.exhaust)
  obtain r1 p1 where i: "object_init env True True path p = Some (r1, p1)" using Cons.prems c by (auto simp: bind_eq_Some_conv)
  from object_init_keeps [OF i] show ?case
  proof (elim disjE conjE)
    assume "r1 = None" "p1 = p" "\<not> object_calls_ok env"
    then show ?thesis using Cons.prems c i by (simp add: opened_def keeping_def)
  next
    assume f: "r1 = Some (handle_of (env, path))" "object_calls_ok env" "oe_open_fd env \<notin> pr_fds p"
      "p1 = p\<lparr>pr_fds := insert (oe_open_fd env) (pr_fds p), pr_maps := add_mset path (pr_maps p)\<rparr>"
    then obtain rs where rs: "init_objects cs p1 = Some (rs, p')" "r = map_option ((#) (handle_of (env, path))) rs"
      using Cons.prems c i by (auto simp: bind_eq_Some_conv)
    have o: "opened (c # cs) = c # opened cs" using f(2) c by (simp add: opened_def)
    have "0 \<le> oe_open_fd env" using f(2) by (simp add: object_calls_ok_def)
    with Cons.IH [OF rs(1)] f rs(2) c show ?thesis unfolding o by (auto simp: keeping_def) force
  qed
qed (simp add: opened_def keeping_def)

lemma free_context_Suc: "free_context (p\<lparr>pr_contexts := Suc n\<rparr>) = Some (p\<lparr>pr_contexts := n\<rparr>)"
  by (simp add: free_context_def)

lemma destroy_kept:
  assumes "0 \<le> oe_open_fd (fst c)" and "oe_open_fd (fst c) \<notin> pr_fds p"
  shows "object_destroy (handle_of c) (keeping [c] p) = Some p"
  using assms by (simp add: object_destroy_def handle_of_def keeping_def sys_defs)

lemma keeping_Cons: "keeping (c # cs) p = keeping [c] (keeping cs p)"
  by (simp add: keeping_def Un_assoc Un_commute)

lemma release_kept:
  assumes "distinct (map (oe_open_fd \<circ> fst) cs)" and "\<forall>c \<in> set cs. oe_open_fd (fst c) \<notin> pr_fds p \<and> 0 \<le> oe_open_fd (fst c)"
  shows "release_all (map (object_destroy \<circ> handle_of) cs) (keeping cs p) = Some p"
  using assms
proof (induction cs)
  case (Cons c cs)
  have "oe_open_fd (fst c) \<notin> pr_fds (keeping cs p)" using Cons.prems by (auto simp: keeping_def)
  then have "object_destroy (handle_of c) (keeping (c # cs) p) = Some (keeping cs p)"
    using Cons.prems(2) by (subst keeping_Cons) (intro destroy_kept; simp)
  then show ?case using Cons by simp
qed (simp add: keeping_def)

text \<open>The initialisation of the processes and that of the contents fail together.\<close>

lemma init_then_None:
  "(fst (f h) = None \<longleftrightarrow> \<not> P) \<Longrightarrow> (\<And>x h. fst (g x h) = None \<longleftrightarrow> \<not> Q) \<Longrightarrow> fst (init_then f g h) = None \<longleftrightarrow> \<not> (P \<and> Q)"
  by (cases "f h"; cases "fst (f h)") (auto simp: init_then_def)

lemma init_pool_None: "fst (init_pool ie i name h) = None \<longleftrightarrow> \<not> object_calls_ok (pool_env (ie_pool ie i) lf)"
  by (auto simp: init_pool_def bp_init_def bp_create_def bp_open_def bp_handle_def object_calls_ok_def pool_env_def Let_def)

lemma init_ring_None: "fst (init_ring ie i name h) = None \<longleftrightarrow> \<not> object_calls_ok (ring_env (ie_ring ie i) lf)"
  by (auto simp: init_ring_def dr_init_def object_calls_ok_def ring_env_def Let_def)

lemma init_pipe_None: "fst (init_pipe ie h) = None \<longleftrightarrow> \<not> ie_pipe ie \<noteq> None"
  by (auto simp: init_pipe_def split: option.split)

lemma dpumesh_init_None:
  assumes "pod_registry_alloc_id (ie_counter ie) (h_files h) = (pod, fs)"
  shows "fst (dpumesh_init ie app_name n h) = None \<longleftrightarrow>
    \<not> (ie_calloc ie \<and> 0 \<le> pod \<and> opened (object_calls ie lf (h_prefix h) app_name pod) = object_calls ie lf (h_prefix h) app_name pod
       \<and> ie_pipe ie \<noteq> None \<and> ie_thread ie)"
proof -
  let ?P = "\<lambda>i. object_calls_ok (pool_env (ie_pool ie i) (lf i))"
  let ?R = "\<lambda>i. object_calls_ok (ring_env (ie_ring ie i) (lf (4 + i)))"
  have o: "opened (object_calls ie lf (h_prefix h) app_name pod) = object_calls ie lf (h_prefix h) app_name pod
      \<longleftrightarrow> ?P 0 \<and> ?P 1 \<and> ?P 2 \<and> ?P 3 \<and> ?R 0 \<and> ?R 1"
    by (simp add: opened_def object_calls_def takeWhile_eq_all_conv conj_ac del: append.simps)
  show ?thesis
  proof (cases "ie_calloc ie \<and> 0 \<le> pod")
    case True
    obtain r fs' where reg: "pod_registry_register (ie_registry ie) fs (fst (snprintf 128 (app_name @ ''-worker-'' @ show_int n))) pod app_name = (r, fs')"
      by (rule prod.exhaust)
    have "fst (dpumesh_init ie app_name n h) = None \<longleftrightarrow>
        \<not> (?P 0 \<and> ?P 1 \<and> ?P 2 \<and> ?P 3 \<and> ?R 0 \<and> ?R 1 \<and> ie_pipe ie \<noteq> None \<and> ie_thread ie)"
      using True unfolding dpumesh_init_def Let_def assms prod.case reg
      by (simp del: append.simps not_None_eq de_Morgan_conj)
        (intro init_then_None init_pool_None init_ring_None init_pipe_None; simp split: prod.split)
    with True o show ?thesis by auto
  next
    case False
    then show ?thesis by (auto simp: dpumesh_init_def assms)
  qed
qed

text \<open>Closing a list of held descriptors, and what is left of the pipes when a context is destroyed.\<close>

lemma close_all:
  assumes "distinct fds" and "set fds \<inter> F = {}"
  shows "release_all (map sys_close fds) (p\<lparr>pr_fds := F \<union> set fds\<rparr>) = Some (p\<lparr>pr_fds := F\<rparr>)"
  using assms
proof (induction fds)
  case (Cons fd fds)
  then have "sys_close fd (p\<lparr>pr_fds := F \<union> set (fd # fds)\<rparr>) = Some (p\<lparr>pr_fds := F \<union> set fds\<rparr>)"
    by (auto simp: sys_close_def)
  with Cons show ?case by simp
qed simp

lemma map_of_fold_close:
  "map_of (pp_fds (fold (\<lambda>fd ps. if fd \<ge> 0 then pipe_close fd ps else ps) xs ps)) fd
     = (if 0 \<le> fd \<and> fd \<in> set xs then None else map_of (pp_fds ps) fd)"
  by (induction xs arbitrary: ps) (auto simp: map_of_pipe_close)

lemma map_of_destroy:
  "map_of (pp_fds (dpumesh_destroy cx)) fd = (if fd \<in> set (pipe_fds_of cx) then None else map_of (pp_fds (cx_pipes cx)) fd)"
proof -
  have "fd \<in> set (pipe_fds_of cx) \<longleftrightarrow> 0 \<le> fd \<and> fd \<in> set (cx_notify_fd cx # cx_notify_write_fd cx # cx_response_pipe_fds cx)"
    unfolding pipe_fds_of_def set_filter by blast
  then show ?thesis unfolding dpumesh_destroy_def map_of_fold_close by simp
qed

lemma init_notify_done:
  "init_notify_os ie hs p = Some (Some hs', p') \<Longrightarrow> hs' = hs \<and> ie_thread ie \<and>
     (\<exists>r w. ie_pipe ie = Some (r, w) \<and> 0 \<le> r \<and> 0 \<le> w \<and> r \<noteq> w \<and> {r, w} \<inter> pr_fds p = {} \<and> p' = p\<lparr>pr_fds := {r, w} \<union> pr_fds p\<rparr>)"
  by (auto simp: init_notify_os_def sys_open_def bind_eq_Some_conv insert_commute split: if_splits option.splits)

lemma init_notify_failed:
  "init_notify_os ie hs p = Some (None, p') \<Longrightarrow> (ie_pipe ie = None \<or> \<not> ie_thread ie) \<and>
     (\<exists>n. pr_contexts p = Suc n \<and> p' = p\<lparr>pr_contexts := n, pr_fds := pr_fds p \<union> (case ie_pipe ie of Some (r, w) \<Rightarrow> {r, w} | None \<Rightarrow> {})\<rparr>)"
  by (auto simp: init_notify_os_def sys_open_def free_context_def bind_eq_Some_conv insert_commute split: if_splits option.splits nat.splits)

lemma init_os_steps:
  assumes "dpumesh_init_os ie lf app_name h p = Some (Some hs, p1)"
    and "pod_registry_alloc_id (ie_counter ie) (h_files h) = (pod, fs)"
  obtains p2 where
    "init_objects (object_calls ie lf (h_prefix h) app_name pod) (p\<lparr>pr_contexts := Suc (pr_contexts p)\<rparr>) = Some (Some hs, p2)"
    "0 \<le> pod" "ie_calloc ie" "init_notify_os ie hs p2 = Some (Some hs, p1)"
  using assms by (auto simp: dpumesh_init_os_def Let_def bind_eq_Some_conv split: if_splits option.splits dest: init_notify_done)

section \<open>Properties\<close>

text \<open>C23. A worker that \<open>dpumesh_init\<close> sets up holds eight new descriptors, those of six shared objects and
  the two ends of the notify pipe, six mappings and a context. \<open>dpumesh_destroy\<close> gives back exactly
  these, together with the write ends of the responses that are still awaited then: nothing is closed,
  unmapped or freed twice, and the process holds again what it held before. Of the pipes, exactly these
  ends are closed.\<close>

theorem init_destroy_balanced:
  assumes "dpumesh_init_os ie lf app_name h p = Some (Some hs, p1)"
  shows "\<exists>r w cx0 h'. ie_pipe ie = Some (r, w) \<and> dpumesh_init ie app_name n h = (Some cx0, h')
    \<and> cx_notify_fd cx0 = r \<and> cx_notify_write_fd cx0 = w \<and> set (cx_response_pipe_fds cx0) = {-1}
    \<and> length hs = 6 \<and> pr_contexts p1 = Suc (pr_contexts p) \<and> size (pr_maps p1) = size (pr_maps p) + 6
    \<and> distinct (r # w # map oh_fd hs) \<and> set (r # w # map oh_fd hs) \<inter> pr_fds p = {}
    \<and> pr_fds p1 = set (r # w # map oh_fd hs) \<union> pr_fds p
    \<and> (\<forall>cx W. cx_notify_fd cx = r \<and> cx_notify_write_fd cx = w \<and> W = filter (\<lambda>fd. 0 \<le> fd) (cx_response_pipe_fds cx)
         \<and> distinct W \<and> set W \<inter> pr_fds p1 = {}
         \<longrightarrow> dpumesh_destroy_os hs cx (p1\<lparr>pr_fds := pr_fds p1 \<union> set W\<rparr>) = Some (dpumesh_destroy cx, p)
           \<and> (\<forall>fd. map_of (pp_fds (dpumesh_destroy cx)) fd = (if fd \<in> {r, w} \<union> set W then None else map_of (pp_fds (cx_pipes cx)) fd)))"
proof -
  let ?p = "p\<lparr>pr_contexts := Suc (pr_contexts p)\<rparr>"
  obtain pod fs where pod: "pod_registry_alloc_id (ie_counter ie) (h_files h) = (pod, fs)" by (rule prod.exhaust)
  let ?cs = "object_calls ie lf (h_prefix h) app_name pod"
  obtain p2 where s: "init_objects ?cs ?p = Some (Some hs, p2)" "0 \<le> pod" "ie_calloc ie" "init_notify_os ie hs p2 = Some (Some hs, p1)"
    by (rule init_os_steps [OF assms pod])
  obtain r w where i: "init_objects ?cs ?p = Some (Some hs, p2)" "0 \<le> pod" "ie_calloc ie" "ie_pipe ie = Some (r, w)" "ie_thread ie"
      and rw: "0 \<le> r" "0 \<le> w" "r \<noteq> w" "{r, w} \<inter> pr_fds p2 = {}" "p1 = p2\<lparr>pr_fds := {r, w} \<union> pr_fds p2\<rparr>"
    using s(1-3) init_notify_done [OF s(4)] by auto
  from init_objects_keeps [OF i(1)] have k: "opened ?cs = ?cs" "hs = map handle_of ?cs" "p2 = keeping ?cs ?p"
      "distinct (map (oe_open_fd \<circ> fst) ?cs)" "\<forall>c \<in> set ?cs. oe_open_fd (fst c) \<notin> pr_fds ?p \<and> 0 \<le> oe_open_fd (fst c)"
    by (auto split: if_splits)
  have l: "length ?cs = 6" by (simp add: object_calls_def)
  have hs: "map oh_fd hs = map (oe_open_fd \<circ> fst) ?cs" using k(2) by (simp add: handle_of_def)
  have fds: "pr_fds p2 = pr_fds p \<union> set (map oh_fd hs)" unfolding hs k(3) by (simp add: keeping_def image_comp)
  have new: "set (map oh_fd hs) \<inter> pr_fds p = {}" unfolding hs using k(5) by auto
  obtain cx0 h' where c0: "dpumesh_init ie app_name n h = (Some cx0, h')"
    using dpumesh_init_None [OF pod, of app_name n lf] k(1) i by (cases "dpumesh_init ie app_name n h") auto
  have "map bp_destroy (take 4 hs) @ map dr_destroy (drop 4 hs) = map object_destroy hs"
    by (simp add: bp_destroy_def dr_destroy_def flip: map_append)
  with release_kept [OF k(4,5)] k(2,3) have rel: "release_all (map bp_destroy (take 4 hs) @ map dr_destroy (drop 4 hs)) p2 = Some ?p"
    by simp
  have destroy: "\<forall>cx W. cx_notify_fd cx = r \<and> cx_notify_write_fd cx = w \<and> W = filter (\<lambda>fd. 0 \<le> fd) (cx_response_pipe_fds cx)
         \<and> distinct W \<and> set W \<inter> pr_fds p1 = {}
         \<longrightarrow> dpumesh_destroy_os hs cx (p1\<lparr>pr_fds := pr_fds p1 \<union> set W\<rparr>) = Some (dpumesh_destroy cx, p)
           \<and> (\<forall>fd. map_of (pp_fds (dpumesh_destroy cx)) fd = (if fd \<in> {r, w} \<union> set W then None else map_of (pp_fds (cx_pipes cx)) fd))"
  proof (intro allI impI)
    fix cx :: dpumesh_ctx and W
    assume a: "cx_notify_fd cx = r \<and> cx_notify_write_fd cx = w \<and> W = filter (\<lambda>fd. 0 \<le> fd) (cx_response_pipe_fds cx)
      \<and> distinct W \<and> set W \<inter> pr_fds p1 = {}"
    have f: "pipe_fds_of cx = r # w # W" using a rw(1,2) by (simp add: pipe_fds_of_def)
    have d: "distinct (r # w # W)" "set (r # w # W) \<inter> pr_fds p2 = {}" using a rw(3-5) by auto
    have e: "p1\<lparr>pr_fds := pr_fds p1 \<union> set W\<rparr> = p2\<lparr>pr_fds := pr_fds p2 \<union> set (r # w # W)\<rparr>"
      by (simp add: rw(5) insert_commute Un_commute)
    have "release_all (map sys_close (pipe_fds_of cx)) (p1\<lparr>pr_fds := pr_fds p1 \<union> set W\<rparr>) = Some p2"
      unfolding f e close_all [OF d] by simp
    then show "dpumesh_destroy_os hs cx (p1\<lparr>pr_fds := pr_fds p1 \<union> set W\<rparr>) = Some (dpumesh_destroy cx, p)
        \<and> (\<forall>fd. map_of (pp_fds (dpumesh_destroy cx)) fd = (if fd \<in> {r, w} \<union> set W then None else map_of (pp_fds (cx_pipes cx)) fd))"
      by (simp add: dpumesh_destroy_os_def rel free_context_Suc map_of_destroy f)
  qed
  have c: "cx_notify_fd cx0 = r" "cx_notify_write_fd cx0 = w" "set (cx_response_pipe_fds cx0) = {-1}"
    using dpumesh_init_fds [OF c0 i(4)] by (simp_all add: DPUMESH_MAX_PENDING_def)
  have d: "distinct (r # w # map oh_fd hs)" "set (r # w # map oh_fd hs) \<inter> pr_fds p = {}"
    "pr_fds p1 = set (r # w # map oh_fd hs) \<union> pr_fds p"
    using rw(3-5) fds new k(4) hs by auto
  have n: "length hs = 6" "pr_contexts p1 = Suc (pr_contexts p)" "size (pr_maps p1) = size (pr_maps p) + 6"
    using k(2,3) rw(5) l by (simp_all add: keeping_def)
  show ?thesis
    by (intro exI [of _ r] exI [of _ w] exI [of _ cx0] exI [of _ h'] conjI) (fact i(4) c0 c n d destroy)+
qed

definition demo_locks :: "nat \<Rightarrow> int" where
  "demo_locks i = 20"

definition six_pools :: init_env where
  "six_pools = demo_env\<lparr>
     ie_pool := (\<lambda>i. \<lparr>be_create_fd = 20, be_truncate_ok = True, be_create_map_ok = True, be_open_fd = 3 + int i, be_map_ok = True\<rparr>),
     ie_ring := (\<lambda>i. \<lparr>de_create_fd = 20, de_truncate_ok = True, de_create_map_ok = True, de_open_fd = 7 + int i, de_map_ok = i = 0\<rparr>),
     ie_pipe := Some (9, 10)\<rparr>"

definition stdio :: process where
  "stdio = \<lparr>pr_fds = {0, 1, 2}, pr_maps = {#}, pr_contexts = 0\<rparr>"

lemmas init_eval = dpumesh_init_os_def init_notify_os_def pod_registry_alloc_id_def files_ok_def demo_host_def demo_env_def six_pools_def stdio_def
  demo_locks_def object_calls_def object_init_def object_create_def object_open_def pool_env_def ring_env_def sys_defs free_context_def

text \<open>A worker that is destroyed while it waits for a response, whose write end is 12.\<close>

theorem init_destroy_balanced_witness:
  "\<exists>hs p1 cx0. dpumesh_init_os (six_pools\<lparr>ie_ring := \<lambda>i. (ie_ring six_pools i)\<lparr>de_map_ok := True\<rparr>\<rparr>) demo_locks ''id'' demo_host stdio = Some (Some hs, p1)
    \<and> pr_fds p1 = {0, 1, 2, 3, 4, 5, 6, 7, 8, 9, 10} \<and> cx_notify_fd cx0 = 9
    \<and> dpumesh_destroy_os hs (cx0\<lparr>cx_response_pipe_fds := [-1, 12, -1]\<rparr>) (p1\<lparr>pr_fds := pr_fds p1 \<union> {12}\<rparr>)
      = Some (dpumesh_destroy (cx0\<lparr>cx_response_pipe_fds := [-1, 12, -1]\<rparr>), stdio)"
proof -
  let ?ie = "six_pools\<lparr>ie_ring := \<lambda>i. (ie_ring six_pools i)\<lparr>de_map_ok := True\<rparr>\<rparr>"
  obtain hs p1 where i: "dpumesh_init_os ?ie demo_locks ''id'' demo_host stdio = Some (Some hs, p1)"
    "pr_fds p1 = {0, 1, 2, 3, 4, 5, 6, 7, 8, 9, 10}"
    by (auto simp: init_eval Let_def)
  have pipe: "ie_pipe ?ie = Some (9, 10)" by (simp add: six_pools_def)
  from init_destroy_balanced [OF i(1), of 0] obtain r w and cx0 :: dpumesh_ctx where b: "ie_pipe ?ie = Some (r, w)" "cx_notify_fd cx0 = r" "cx_notify_write_fd cx0 = w"
    "\<forall>cx W. cx_notify_fd cx = r \<and> cx_notify_write_fd cx = w \<and> W = filter (\<lambda>fd. 0 \<le> fd) (cx_response_pipe_fds cx)
       \<and> distinct W \<and> set W \<inter> pr_fds p1 = {} \<longrightarrow> dpumesh_destroy_os hs cx (p1\<lparr>pr_fds := pr_fds p1 \<union> set W\<rparr>) = Some (dpumesh_destroy cx, stdio)
         \<and> (\<forall>fd. map_of (pp_fds (dpumesh_destroy cx)) fd = (if fd \<in> {r, w} \<union> set W then None else map_of (pp_fds (cx_pipes cx)) fd))"
    apply (elim exE conjE)
    subgoal premises prems for r w cx0 by (rule prems(1) [OF prems(2,4,5,13)])
    done
  have c: "r = 9" "w = 10" "cx_notify_fd cx0 = 9" "cx_notify_write_fd cx0 = 10" using b(1-3) pipe by simp_all
  have "dpumesh_destroy_os hs (cx0\<lparr>cx_response_pipe_fds := [-1, 12, -1]\<rparr>) (p1\<lparr>pr_fds := pr_fds p1 \<union> set [12]\<rparr>)
      = Some (dpumesh_destroy (cx0\<lparr>cx_response_pipe_fds := [-1, 12, -1]\<rparr>), stdio)"
    by (rule conjunct1 [OF b(4) [rule_format]]) (simp add: c i(2))
  with i c(3) show ?thesis by auto
qed

text \<open>C39. A failed \<open>dpumesh_init\<close> frees the context and nothing else: the objects it had set up before the call
  that failed stay open and mapped, and so does the notify pipe when it is the creation of the thread
  that fails, without anything left that refers to them.\<close>

theorem failed_init_leaks:
  assumes "dpumesh_init_os ie lf app_name h p = Some (None, p1)"
    and "pod_registry_alloc_id (ie_counter ie) (h_files h) = (pod, fs)" and "0 \<le> pod" and "ie_calloc ie"
  shows "pr_contexts p1 = pr_contexts p
    \<and> pr_fds p1 = pr_fds p \<union> oe_open_fd ` fst ` set (opened (object_calls ie lf (h_prefix h) app_name pod))
        \<union> (case ie_pipe ie of
             Some (r, w) \<Rightarrow> if opened (object_calls ie lf (h_prefix h) app_name pod) = object_calls ie lf (h_prefix h) app_name pod
               then {r, w} else {}
           | None \<Rightarrow> {})
    \<and> pr_maps p1 = pr_maps p + mset (map snd (opened (object_calls ie lf (h_prefix h) app_name pod)))
    \<and> fst (dpumesh_init ie app_name n h) = None"
proof -
  let ?p = "p\<lparr>pr_contexts := Suc (pr_contexts p)\<rparr>"
  let ?cs = "object_calls ie lf (h_prefix h) app_name pod"
  let ?new = "case ie_pipe ie of Some (r, w) \<Rightarrow> if opened ?cs = ?cs then {r, w} else {} | None \<Rightarrow> {}"
  obtain hs p2 where i: "init_objects ?cs ?p = Some (hs, p2)"
      "(case hs of None \<Rightarrow> do { p3 \<leftarrow> free_context p2; Some (None, p3) } | Some hs \<Rightarrow> init_notify_os ie hs p2) = Some (None, p1)"
    using assms by (auto simp: dpumesh_init_os_def Let_def bind_eq_Some_conv simp del: not_None_eq split_paired_Ex split_paired_All split: if_splits)
  note k = init_objects_keeps [OF i(1)]
  have p1: "p1 = (keeping (opened ?cs) p)\<lparr>pr_fds := pr_fds (keeping (opened ?cs) p) \<union> ?new\<rparr>
      \<and> (opened ?cs \<noteq> ?cs \<or> ie_pipe ie = None \<or> \<not> ie_thread ie)"
  proof (cases "opened ?cs = ?cs")
    case True
    then have "init_notify_os ie (map handle_of ?cs) p2 = Some (None, p1)" "p2 = keeping ?cs ?p" using i(2) k by simp_all
    with True init_notify_failed [of ie "map handle_of ?cs" p2 p1] show ?thesis by (auto simp: keeping_def split: option.split)
  next
    case False
    then have "p1 = keeping (opened ?cs) p" using i(2) k by (simp add: keeping_def free_context_def)
    with False show ?thesis by (simp add: keeping_def split: option.split)
  qed
  then have "fst (dpumesh_init ie app_name n h) = None" using dpumesh_init_None [OF assms(2), of app_name n lf] by blast
  with p1 show ?thesis by (simp add: keeping_def)
qed

theorem failed_init_leaks_witness:
  "\<exists>p1. dpumesh_init_os six_pools demo_locks ''id'' demo_host stdio = Some (None, p1)
    \<and> pr_contexts p1 = 0 \<and> pr_fds p1 = {0, 1, 2, 3, 4, 5, 6, 7} \<and> size (pr_maps p1) = 5"
proof -
  obtain p1 where i: "dpumesh_init_os six_pools demo_locks ''id'' demo_host stdio = Some (None, p1)"
    by (simp add: init_eval Let_def)
  have a: "pod_registry_alloc_id (ie_counter six_pools) (h_files demo_host)
      = (1, \<lparr>pf_counter = Some (show_int 1), pf_registry = None\<rparr>)"
    by (simp add: init_eval Let_def)
  have o: "opened (object_calls six_pools demo_locks (h_prefix demo_host) ''id'' 1)
      = take 5 (object_calls six_pools demo_locks (h_prefix demo_host) ''id'' 1)"
    by (simp add: init_eval opened_def object_calls_ok_def)
  have "oe_open_fd ` fst ` set (take 5 (object_calls six_pools demo_locks (h_prefix demo_host) ''id'' 1)) = {3, 4, 5, 6, 7}"
    "length (take 5 (object_calls six_pools demo_locks (h_prefix demo_host) ''id'' 1)) = 5"
    by (simp_all add: init_eval)
  moreover have "length (object_calls six_pools demo_locks (h_prefix demo_host) ''id'' 1) = 6" by (simp add: object_calls_def)
  then have "take 5 (object_calls six_pools demo_locks (h_prefix demo_host) ''id'' 1) \<noteq> object_calls six_pools demo_locks (h_prefix demo_host) ''id'' 1"
    by (simp add: take_all_iff)
  ultimately show ?thesis
    using failed_init_leaks [OF i a, unfolded o] i by (auto simp: six_pools_def demo_env_def stdio_def)
qed

section \<open>Write ends that are lost\<close>

text \<open>What a step does to the descriptors of the pipes and to the table of the awaited responses.\<close>

definition fds_step :: "dpumesh_ctx \<Rightarrow> dpumesh_ctx \<Rightarrow> bool" where
  "fds_step cx cx' \<longleftrightarrow> cx_notify_fd cx' = cx_notify_fd cx \<and> cx_notify_write_fd cx' = cx_notify_write_fd cx
     \<and> (let tab = cx_response_pipe_fds cx; ps = cx_pipes cx; tab' = cx_response_pipe_fds cx'; fds' = pp_fds (cx_pipes cx')
        in (fds' = pp_fds ps \<and> tab' = tab)
         \<or> (\<exists>r w i. fresh_fds cx r w \<and> fds' = pp_fds (pipe_open r w ps) \<and> tab' = tab[i := w])
         \<or> (\<exists>i < length tab. 0 \<le> tab ! i \<and> fds' = pp_fds (pipe_close (tab ! i) ps) \<and> tab' = tab[i := -1])
         \<or> (\<exists>fd k. map_of (pp_fds ps) fd = Some (Read_End k) \<and> fds' = pp_fds (pipe_close fd ps) \<and> tab' = tab))"

lemma fds_step_same:
  "cx_notify_fd cx' = cx_notify_fd cx \<Longrightarrow> cx_notify_write_fd cx' = cx_notify_write_fd cx \<Longrightarrow>
     pp_fds (cx_pipes cx') = pp_fds (cx_pipes cx) \<Longrightarrow> cx_response_pipe_fds cx' = cx_response_pipe_fds cx \<Longrightarrow> fds_step cx cx'"
  by (simp add: fds_step_def Let_def)

lemma poller_fds_step:
  assumes "ctx_inv cx" and "dpumesh_poller_step cx = Some cx'"
  shows "fds_step cx cx'"
proof (cases "\<exists>d sq. cx_poller_running cx \<and> dr_get (cx_rx_sq cx) = Some (Some d, sq)")
  case False
  then have "cx' = cx" using assms(2) by (auto simp: dpumesh_poller_step_def bind_eq_Some_conv split: if_splits option.splits)
  then show ?thesis by (simp add: fds_step_same)
next
  case True
  then obtain d sq where sq: "dr_get (cx_rx_sq cx) = Some (Some d, sq)" "cx_poller_running cx" by blast
  let ?cx = "cx\<lparr>cx_rx_sq := sq\<rparr>" and ?k = "pending_index (req_id d)"
  have d: "poller_deliver ?cx d = Some cx'" using assms(2) sq by (simp add: dpumesh_poller_step_def)
  show ?thesis
  proof (cases "valid d = 1 \<and> is_response d \<and> 0 \<le> cx_response_pipe_fds ?cx ! ?k")
    case True
    obtain ps where ps: "pipe_write (cx_response_pipe_fds ?cx ! ?k) d (cx_pipes ?cx) = Some ps"
        "cx' = ?cx\<lparr>cx_pipes := pipe_close (cx_response_pipe_fds ?cx ! ?k) ps,
          cx_response_pipe_fds := (cx_response_pipe_fds ?cx)[?k := -1]\<rparr>"
      using d True by (auto simp: poller_deliver_def Let_def bind_eq_Some_conv)
    have "?k < length (cx_response_pipe_fds cx)" using assms(1) pending_index_less by (simp add: ctx_inv_def)
    moreover have "pp_fds ps = pp_fds (cx_pipes cx)" using pipe_fds_write [OF ps(1)] by simp
    ultimately show ?thesis using True ps(2) by (auto simp: fds_step_def pipe_close_def Let_def)
  next
    case False
    from poller_deliver_other [OF d False] show ?thesis
      by (elim disjE exE conjE) (auto intro!: fds_step_same dest: pipe_fds_write)
  qed
qed

lemma response_fds_step:
  assumes "map_of (pp_fds (cx_pipes cx)) fd = Some (Read_End k)" and "dpumesh_read_response cx fd = Some (rc, rs, cx')"
  shows "fds_step cx cx'"
proof (cases "pipe_contents fd (cx_pipes cx)")
  case Nil
  then have "cx' = cx" using assms(2) by (simp add: dpumesh_read_response_def pipe_contents_empty)
  then show ?thesis by (simp add: fds_step_same)
next
  case (Cons d ds)
  from read_response_exact [OF this assms(2)] assms(1) show ?thesis
    by (auto simp: fds_step_def free_rx_def pipe_close_def Let_def)
qed

lemma worker_step_fds:
  assumes "worker_step cx cx'" and "ctx_inv cx"
  shows "fds_step cx cx'"
  using assms(1)
proof cases
  case (step_request msg r w rc out)
  from request_write_frame [OF assms(2) step_request(1,3)] obtain th tb sq where
    f: "cx' = (with_response_pipe cx r w)\<lparr>cx_tx_header := th, cx_tx_body := tb, cx_tx_sq := sq\<rparr>" by blast
  show ?thesis
    unfolding fds_step_def Let_def
    by (intro conjI disjI2 disjI1 exI [of _ r] exI [of _ w] exI [of _ "pending_index (cx_next_req_id cx)"] step_request(2))
      (simp_all add: f with_response_pipe_def)
next
  case (step_respond msg rc out)
  have "m_type msg \<noteq> DPUMESH_MSG_REQUEST" using step_respond(1) by (simp add: DPUMESH_MSG_REQUEST_def DPUMESH_MSG_RESPONSE_def)
  from response_write_frame [OF assms(2) this step_respond(2)] show ?thesis by (auto intro!: fds_step_same)
next
  case step_poll
  with assms(2) show ?thesis by (rule poller_fds_step)
next
  case (step_response fd k rc rs)
  then show ?thesis by (intro response_fds_step)
next
  case (step_skip desc ps)
  then show ?thesis using pipe_read_fds [OF step_skip(2)] by (intro fds_step_same) auto
next
  case (step_receive desc ps rq cx1)
  with decode_request_bufs [OF step_receive(3)] pipe_read_fds [OF step_receive(2)] show ?thesis
    by (auto intro!: fds_step_same simp: store_inbound_def bufs_only_def)
next
  case (step_release desc)
  then show ?thesis by (intro fds_step_same) (simp_all add: free_rx_def Let_def)
next
  case step_mesh
  then obtain th tb rh rb tq rq where
      eq: "cx' = cx\<lparr>cx_tx_header := th, cx_tx_body := tb, cx_rx_header := rh, cx_rx_body := rb, cx_tx_sq := tq, cx_rx_sq := rq\<rparr>"
    unfolding mesh_change_def by blast
  then show ?thesis by (intro fds_step_same) simp_all
qed

text \<open>An open write end that nothing refers to stays that way.\<close>

definition orphan :: "dpumesh_ctx \<Rightarrow> int \<Rightarrow> bool" where
  "orphan cx fd \<longleftrightarrow> 0 \<le> fd \<and> writable (cx_pipes cx) fd \<and> fd \<notin> set (cx_response_pipe_fds cx)
     \<and> fd \<noteq> cx_notify_fd cx \<and> fd \<noteq> cx_notify_write_fd cx"

lemma set_update_orphan: "fd \<notin> set xs \<Longrightarrow> fd \<noteq> x \<Longrightarrow> fd \<notin> set (xs[i := x])"
  using set_update_subset_insert [of xs i x] by blast

lemma orphan_step:
  assumes "fds_step cx cx'" and "orphan cx fd"
  shows "orphan cx' fd"
proof -
  have o: "0 \<le> fd" "writable (cx_pipes cx) fd" "fd \<notin> set (cx_response_pipe_fds cx)" "fd \<noteq> cx_notify_fd cx" "fd \<noteq> cx_notify_write_fd cx"
    using assms(2) by (simp_all add: orphan_def)
  have n: "cx_notify_fd cx' = cx_notify_fd cx" "cx_notify_write_fd cx' = cx_notify_write_fd cx" using assms(1) by (simp_all add: fds_step_def)
  from assms(1) consider "pp_fds (cx_pipes cx') = pp_fds (cx_pipes cx)" "cx_response_pipe_fds cx' = cx_response_pipe_fds cx"
    | r w i where "fresh_fds cx r w" "pp_fds (cx_pipes cx') = pp_fds (pipe_open r w (cx_pipes cx))"
        "cx_response_pipe_fds cx' = (cx_response_pipe_fds cx)[i := w]"
    | i where "i < length (cx_response_pipe_fds cx)" "pp_fds (cx_pipes cx') = pp_fds (pipe_close (cx_response_pipe_fds cx ! i) (cx_pipes cx))"
        "cx_response_pipe_fds cx' = (cx_response_pipe_fds cx)[i := -1]"
    | x k where "map_of (pp_fds (cx_pipes cx)) x = Some (Read_End k)" "pp_fds (cx_pipes cx') = pp_fds (pipe_close x (cx_pipes cx))"
        "cx_response_pipe_fds cx' = cx_response_pipe_fds cx"
    unfolding fds_step_def Let_def by blast
  then show ?thesis
  proof cases
    case 1
    then show ?thesis using o n by (simp add: orphan_def writable_cong [OF 1(1)])
  next
    case (2 r w i)
    have "fd \<noteq> w" "fd \<noteq> r" "r \<noteq> w" using 2(1) o(2) by (auto simp: fresh_fds_def writable_def)
    then show ?thesis
      using o n 2(3) set_update_orphan [OF o(3), of w i] by (simp add: orphan_def writable_cong [OF 2(2)] writable_open)
  next
    case (3 i)
    have "fd \<noteq> cx_response_pipe_fds cx ! i" using o(3) 3(1) nth_mem by blast
    then show ?thesis
      using o n 3(3) set_update_orphan [OF o(3), of "-1" i] by (simp add: orphan_def writable_cong [OF 3(2)] writable_close)
  next
    case (4 x k)
    have "fd \<noteq> x" using 4(1) o(2) by (auto simp: writable_def)
    then show ?thesis using o n 4(3) by (simp add: orphan_def writable_cong [OF 4(2)] writable_close)
  qed
qed

lemma orphan_reach: "worker_reach cx0 cx \<Longrightarrow> ctx_inv cx0 \<Longrightarrow> fds_ok cx0 \<Longrightarrow> orphan cx0 fd \<Longrightarrow> orphan cx fd"
proof (induction rule: worker_reach.induct)
  case (reach_step cx cx1 cx2)
  then have "ctx_inv cx1" using worker_reach_keeps by blast
  with reach_step worker_step_fds orphan_step show ?case by blast
qed

lemma writable_fold_close:
  "writable (fold (\<lambda>fd ps. if fd \<ge> 0 then pipe_close fd ps else ps) xs ps) fd \<longleftrightarrow> writable ps fd \<and> \<not> (0 \<le> fd \<and> fd \<in> set xs)"
  by (induction xs arbitrary: ps) (auto simp: writable_close)

lemma orphan_destroy: "orphan cx fd \<Longrightarrow> writable (dpumesh_destroy cx) fd"
  by (simp add: dpumesh_destroy_def writable_fold_close orphan_def del: fold_simps fold.simps)

text \<open>C40. A request whose number is 256 after that of a request still unanswered takes over its entry in the
  table of response pipes: the write end of the earlier one is open and recorded nowhere, in every later
  state of the worker and even after \<open>dpumesh_destroy\<close>, so its caller is never woken.\<close>

theorem overwritten_response_leaks:
  assumes "ctx_inv cx" and "fds_ok cx" and "\<not> writable (cx_pipes cx) (cx_notify_fd cx)"
    and "cx_response_pipe_fds cx ! pending_index (cx_next_req_id cx) = fd" and "0 \<le> fd"
    and "m_type msg = DPUMESH_MSG_REQUEST" and "fresh_fds cx r w"
    and "dpumesh_write cx msg True (Some (r, w)) = Some (rc, cx', out)" and "worker_reach cx' cx''"
  shows "writable (cx_pipes cx'') fd \<and> fd \<notin> set (cx_response_pipe_fds cx'') \<and> writable (dpumesh_destroy cx'') fd"
proof -
  let ?k = "pending_index (cx_next_req_id cx)" and ?tab = "cx_response_pipe_fds cx"
  have k: "?k < length ?tab" using assms(1) pending_index_less by (simp add: ctx_inv_def)
  have fd: "writable (cx_pipes cx) fd" "fd \<noteq> cx_notify_write_fd cx" "\<forall>j < length ?tab. ?tab ! j = fd \<longrightarrow> j = ?k"
    using assms(2,4,5) k by (auto simp: fds_ok_def Let_def)
  have new: "fd \<noteq> w" "fd \<noteq> r" "r \<noteq> w" using assms(7) fd(1) by (auto simp: fresh_fds_def writable_def)
  have "fd \<notin> set (?tab[?k := w])" using fd(3) new(1) k by (auto simp: in_set_conv_nth nth_list_update)
  then have "orphan cx' fd"
    using request_write_frame [OF assms(1,6,8)] fd new assms(3,5) by (auto simp: orphan_def with_response_pipe_def writable_open)
  moreover have "worker_step cx cx'" using assms(6-8) by (rule step_request)
  with assms(1,2) have "ctx_inv cx'" "fds_ok cx'" using worker_step_inv by blast+
  ultimately have "orphan cx'' fd" using orphan_reach [OF assms(9)] by blast
  then show ?thesis using orphan_destroy by (simp add: orphan_def)
qed

definition overtaken_ctx :: dpumesh_ctx where
  "overtaken_ctx = (with_response_pipe busy_ctx 5 6)\<lparr>cx_next_req_id := 257\<rparr>"

theorem overwritten_response_leaks_witness:
  "\<exists>cx'. dpumesh_write overtaken_ctx demo_msg True (Some (7, 8)) = Some (-1, cx', Some 7)
    \<and> writable (cx_pipes cx') 6 \<and> writable (dpumesh_destroy cx') 6"
proof -
  have b: "cx_pipes busy_ctx = pipe_open 3 4 no_pipes" "cx_next_req_id busy_ctx = 1" "cx_notify_fd busy_ctx = 3"
      "cx_response_pipe_fds busy_ctx = replicate DPUMESH_MAX_PENDING (-1)" "cx_notify_write_fd busy_ctx = 4"
    by (simp_all add: busy_ctx_def demo_ctx_def)
  have "fds_ok busy_ctx" by (simp add: fds_ok_def Let_def b writable_def pipe_open_def no_pipes_def)
  moreover have "fresh_fds busy_ctx 5 6" by (simp add: fresh_fds_def b pipe_open_def no_pipes_def)
  ultimately have "fds_ok (with_response_pipe busy_ctx 5 6)" by (rule fds_ok_register)
  then have f: "fds_ok overtaken_ctx" by (rule fds_ok_cong) (simp_all add: overtaken_ctx_def)
  have c: "ctx_inv overtaken_ctx"
    using busy_ctx_inv by (rule ctx_inv_tx_cong) (simp_all add: overtaken_ctx_def with_response_pipe_def)
  have n: "\<not> writable (cx_pipes overtaken_ctx) (cx_notify_fd overtaken_ctx)" "fresh_fds overtaken_ctx 7 8"
    by (simp_all add: overtaken_ctx_def with_response_pipe_def b writable_def fresh_fds_def pipe_open_def no_pipes_def)
  have e: "cx_response_pipe_fds overtaken_ctx ! pending_index (cx_next_req_id overtaken_ctx) = 6"
    by (simp add: overtaken_ctx_def with_response_pipe_def b pending_index_def DPUMESH_MAX_PENDING_def del: replicate.simps)
  have "bp_used (cx_tx_header overtaken_ctx) = bp_slots (cx_tx_header overtaken_ctx)"
    by (simp add: overtaken_ctx_def with_response_pipe_def busy_ctx_def full_pool_ok(2))
  from write_refused [OF c this demo_msg_body(3), of 7 8]
  obtain cx' where w: "dpumesh_write overtaken_ctx demo_msg True (Some (7, 8)) = Some (-1, cx', Some 7)" by blast
  from overwritten_response_leaks [OF c f n(1) e _ demo_msg_body(3) n(2) w reach_refl] w show ?thesis by simp
qed

end
