(* ===== verification/Tcp_Handler.thy ===== *)
theory Tcp_Handler
  imports Http_Parse
begin

text \<open>
  The event loop callbacks of \<open>common/tcp_handler.c\<close>. A server is the heap of its connections, the heap
  of the handler contexts the services hang on them, and the bytes written to each socket. What the
  operating system returns is an argument of a callback (\<open>io_result\<close>) or, for calls made inside other
  functions, the next entry of a list of outcomes in the state: \<open>t_mem\<close> for \<open>calloc\<close> and \<open>t_net\<close> for
  \<open>getaddrinfo\<close>, \<open>socket\<close> and \<open>connect\<close>, of which \<open>t_dialed\<close> records each socket with the host and the
  port it is connected to. An access to a freed connection is \<open>None\<close>.

  The event of a connection is the callback it is registered for; libevent calls a callback only
  while its event is registered. The last callback is the one of \<open>dpumesh_handler.c\<close>, which shares the
  connection type. Setting up the listening socket and the dispatch loop itself are
  libevent and kernel calls and are not modelled.
\<close>

definition BUF_SIZE :: nat where "BUF_SIZE = 8192"

datatype conn_cb = On_Client_Read | On_Client_Write | On_Upstream_Connect | On_Upstream_Write | On_Upstream_Read
  | On_Upstream_Response

record conn =
  c_fd :: int
  c_ev :: "conn_cb option"
  c_rbuf :: "char list"
  c_rlen :: nat
  c_wbuf :: "char list"
  c_wlen :: nat
  c_wpos :: nat
  c_handler_ctx :: "nat option"
  c_client_conn :: "nat option"

text \<open>\<open>getaddrinfo\<close> fails, \<open>socket\<close> fails, \<open>connect\<close> fails on the new socket, or the socket connects.\<close>

datatype net_result = Unresolved | No_Socket | Refused int | Connecting int

record 'x tcp =
  t_conns :: "nat \<Rightarrow> conn option"
  t_next :: nat
  t_ctxs :: "nat \<Rightarrow> 'x option"
  t_next_ctx :: nat
  t_mem :: "bool list"
  t_net :: "net_result list"
  t_dialed :: "(int \<times> string \<times> string) list"
  t_sent :: "int \<Rightarrow> char list"
  t_closed :: "int list"

datatype io_result = Io_Error | Io_Again | Io_Data "char list" | Io_Wrote nat

type_synonym 'x request_handler = "nat \<Rightarrow> http_request \<Rightarrow> 'x tcp \<Rightarrow> 'x tcp option"
type_synonym 'x upstream_handler = "nat \<Rightarrow> http_response \<Rightarrow> 'x tcp \<Rightarrow> 'x tcp option"

section \<open>Memory\<close>

text \<open>The outcome of the next \<open>calloc\<close>: after the listed outcomes all succeed.\<close>

definition calloc_ok :: "'x tcp \<Rightarrow> bool \<times> 'x tcp" where
  "calloc_ok st = (case t_mem st of [] \<Rightarrow> (True, st) | b # bs \<Rightarrow> (b, st\<lparr>t_mem := bs\<rparr>))"

definition blank_conn :: "int \<Rightarrow> conn" where
  "blank_conn fd = \<lparr>c_fd = fd, c_ev = None, c_rbuf = replicate BUF_SIZE NUL, c_rlen = 0,
     c_wbuf = replicate BUF_SIZE NUL, c_wlen = 0, c_wpos = 0, c_handler_ctx = None, c_client_conn = None\<rparr>"

definition conn_alloc :: "int \<Rightarrow> 'x tcp \<Rightarrow> nat option \<times> 'x tcp" where
  "conn_alloc fd st =
     (let (ok, st1) = calloc_ok st
      in if \<not> ok then (None, st1)
         else (Some (t_next st1),
               st1\<lparr>t_conns := (t_conns st1)(t_next st1 \<mapsto> blank_conn fd), t_next := Suc (t_next st1)\<rparr>))"

definition conn_free :: "nat \<Rightarrow> 'x tcp \<Rightarrow> 'x tcp option" where
  "conn_free a st =
     map_option (\<lambda>c. st\<lparr>t_conns := (t_conns st)(a := None),
                        t_closed := (if c_fd c \<ge> 0 then c_fd c # t_closed st else t_closed st)\<rparr>)
       (t_conns st a)"

definition put_conn :: "nat \<Rightarrow> conn \<Rightarrow> 'x tcp \<Rightarrow> 'x tcp" where
  "put_conn a c st = st\<lparr>t_conns := (t_conns st)(a \<mapsto> c)\<rparr>"

text \<open>Storing a text with its NUL at the start of an array.\<close>

definition store_text :: "char list \<Rightarrow> string \<Rightarrow> char list" where
  "store_text buf s = s @ NUL # drop (Suc (length s)) buf"

section \<open>Responding\<close>

definition conn_start_response :: "nat \<Rightarrow> int \<Rightarrow> string \<Rightarrow> nat \<Rightarrow> 'x tcp \<Rightarrow> 'x tcp option" where
  "conn_start_response a status body body_len st =
     map_option (\<lambda>c. let (txt, n) = http_format_response BUF_SIZE status body body_len
       in put_conn a (c\<lparr>c_wbuf := store_text (c_wbuf c) txt, c_wlen := n, c_wpos := 0,
                         c_ev := Some On_Client_Write\<rparr>) st)
       (t_conns st a)"

text \<open>\<open>write(fd, wbuf + wpos, remaining)\<close> of a connection: at most the remaining bytes go out.\<close>

definition conn_write :: "conn \<Rightarrow> nat \<Rightarrow> 'x tcp \<Rightarrow> (nat \<times> 'x tcp) option" where
  "conn_write c k st =
     (let remaining = c_wlen c - c_wpos c; n = min k remaining
      in if length (c_wbuf c) < c_wpos c + remaining then None
         else Some (n, st\<lparr>t_sent := (t_sent st)(c_fd c := t_sent st (c_fd c) @ take n (drop (c_wpos c) (c_wbuf c)))\<rparr>))"

definition on_client_write_cb :: "nat \<Rightarrow> io_result \<Rightarrow> 'x tcp \<Rightarrow> 'x tcp option" where
  "on_client_write_cb a io st = do {
     c \<leftarrow> t_conns st a;
     case io of
       Io_Wrote k \<Rightarrow> do {
         (n, st1) \<leftarrow> conn_write c k st;
         let c' = c\<lparr>c_wpos := c_wpos c + n\<rparr>;
         let st2 = put_conn a c' st1;
         if c_wpos c' \<ge> c_wlen c' then conn_free a st2 else Some st2
       }
     | Io_Again \<Rightarrow> Some st
     | _ \<Rightarrow> conn_free a st
   }"

section \<open>Inbound requests\<close>

text \<open>\<open>read(fd, rbuf + rlen, sizeof(rbuf) - rlen - 1)\<close> of the bytes that are there, with the NUL stored
  after them; \<open>None\<close> when it returns 0.\<close>

definition conn_read :: "conn \<Rightarrow> char list \<Rightarrow> conn option" where
  "conn_read c bs =
     (let d = take (BUF_SIZE - c_rlen c - 1) bs
      in if d = [] then None
         else Some (c\<lparr>c_rbuf := take (c_rlen c) (c_rbuf c) @ d @ NUL # drop (c_rlen c + length d + 1) (c_rbuf c),
                     c_rlen := c_rlen c + length d\<rparr>))"

definition on_client_read_cb :: "'x request_handler \<Rightarrow> nat \<Rightarrow> io_result \<Rightarrow> 'x tcp \<Rightarrow> 'x tcp option" where
  "on_client_read_cb handler a io st = do {
     c \<leftarrow> t_conns st a;
     case (case io of Io_Data bs \<Rightarrow> conn_read c bs | _ \<Rightarrow> None) of
       None \<Rightarrow> conn_free a st
     | Some c' \<Rightarrow> do {
         let st1 = put_conn a c' st;
         (ret, req) \<leftarrow> http_parse_request (c_rbuf c') (c_rlen c');
         if ret = 1 then Some st1
         else if ret < 0 then
           conn_start_response a 400 (error_text ''bad request'') 23 st1
         else handler a req st1
       }
   }"

text \<open>\<open>on_accept_cb\<close> for the sockets the calls of \<open>accept\<close> return before one fails.\<close>

fun on_accept_cb :: "int list \<Rightarrow> 'x tcp \<Rightarrow> 'x tcp" where
  "on_accept_cb [] st = st"
| "on_accept_cb (cfd # cfds) st =
     (case conn_alloc cfd st of
        (None, st1) \<Rightarrow> on_accept_cb cfds (st1\<lparr>t_closed := cfd # t_closed st1\<rparr>)
      | (Some a, st1) \<Rightarrow>
          on_accept_cb cfds (put_conn a ((blank_conn cfd)\<lparr>c_ev := Some On_Client_Read\<rparr>) st1))"

section \<open>Upstream requests\<close>

definition upstream_text :: "string \<Rightarrow> string \<Rightarrow> string \<Rightarrow> string" where
  "upstream_text meth path host =
     meth @ '' '' @ path @ '' HTTP/1.1'' @ CRLF @ ''Host: '' @ host @ CRLF @ ''Connection: close'' @ CRLF @ CRLF"

text \<open>The service \<open>getaddrinfo\<close> is asked for: the port, printed into eight bytes.\<close>

definition port_text :: "int \<Rightarrow> string" where
  "port_text port = fst (snprintf 8 (show_int port))"

definition conn_start_upstream :: "nat \<Rightarrow> string \<Rightarrow> int \<Rightarrow> string \<Rightarrow> string \<Rightarrow> nat \<Rightarrow> 'x tcp \<Rightarrow> (int \<times> 'x tcp) option" where
  "conn_start_upstream client host port meth path hctx st =
     (case t_net st of
        Connecting fd # ns \<Rightarrow> do {
          _ \<leftarrow> t_conns st client;
          let (r, st1) = conn_alloc fd (st\<lparr>t_net := ns, t_dialed := t_dialed st @ [(fd, host, port_text port)]\<rparr>);
          case r of
            None \<Rightarrow> Some (-1, st1\<lparr>t_closed := fd # t_closed st1\<rparr>)
          | Some u \<Rightarrow>
              let (txt, n) = snprintf BUF_SIZE (upstream_text meth path host)
              in Some (0, put_conn u ((blank_conn fd)\<lparr>c_client_conn := Some client, c_handler_ctx := Some hctx,
                   c_wbuf := store_text (replicate BUF_SIZE NUL) txt, c_wlen := n, c_wpos := 0,
                   c_ev := Some On_Upstream_Connect\<rparr>) st1)
        }
      | Refused fd # ns \<Rightarrow>
          Some (-1, st\<lparr>t_net := ns, t_dialed := t_dialed st @ [(fd, host, port_text port)], t_closed := fd # t_closed st\<rparr>)
      | _ # ns \<Rightarrow> Some (-1, st\<lparr>t_net := ns\<rparr>)
      | [] \<Rightarrow> Some (-1, st))"

text \<open>The answer to the client of a failed upstream connection.\<close>

definition fail_client :: "conn \<Rightarrow> string \<Rightarrow> nat \<Rightarrow> 'x tcp \<Rightarrow> 'x tcp option" where
  "fail_client uc msg len st =
     (case c_client_conn uc of
        None \<Rightarrow> Some st
      | Some client \<Rightarrow> conn_start_response client 502 (error_text msg) len st)"

definition on_upstream_connect_cb :: "nat \<Rightarrow> bool \<Rightarrow> 'x tcp \<Rightarrow> 'x tcp option" where
  "on_upstream_connect_cb u connected st = do {
     uc \<leftarrow> t_conns st u;
     if \<not> connected then do {
       st1 \<leftarrow> fail_client uc ''upstream connect failed'' 35 st;
       conn_free u st1
     }
     else Some (put_conn u (uc\<lparr>c_ev := Some On_Upstream_Write\<rparr>) st)
   }"

definition on_upstream_write_cb :: "nat \<Rightarrow> io_result \<Rightarrow> 'x tcp \<Rightarrow> 'x tcp option" where
  "on_upstream_write_cb u io st = do {
     uc \<leftarrow> t_conns st u;
     case io of
       Io_Wrote k \<Rightarrow> do {
         (n, st1) \<leftarrow> conn_write uc k st;
         let uc' = uc\<lparr>c_wpos := c_wpos uc + n\<rparr>;
         Some (put_conn u (if c_wpos uc' \<ge> c_wlen uc' then uc'\<lparr>c_rlen := 0, c_ev := Some On_Upstream_Read\<rparr> else uc') st1)
       }
     | Io_Again \<Rightarrow> Some st
     | _ \<Rightarrow> do { st1 \<leftarrow> fail_client uc ''upstream write failed'' 33 st; conn_free u st1 }
   }"

definition on_upstream_read_cb :: "'x upstream_handler \<Rightarrow> nat \<Rightarrow> io_result \<Rightarrow> 'x tcp \<Rightarrow> 'x tcp option" where
  "on_upstream_read_cb handler u io st = do {
     uc \<leftarrow> t_conns st u;
     case io of
       Io_Data bs \<Rightarrow>
         (case conn_read uc bs of
            None \<Rightarrow> do {
              let uc' = uc\<lparr>c_rbuf := (c_rbuf uc)[c_rlen uc := NUL]\<rparr>;
              let st1 = put_conn u uc' st;
              (ret, resp) \<leftarrow> http_parse_response (c_rbuf uc') (c_rlen uc');
              st2 \<leftarrow> (if ret = 0 then handler u resp st1 else fail_client uc' ''upstream closed'' 27 st1);
              conn_free u st2
            }
          | Some uc' \<Rightarrow> do {
              let st1 = put_conn u uc' st;
              (ret, resp) \<leftarrow> http_parse_response (c_rbuf uc') (c_rlen uc');
              if ret = 1 then Some st1
              else do {
                st2 \<leftarrow> (if ret < 0 then fail_client uc' ''upstream bad response'' 33 st1 else handler u resp st1);
                conn_free u st2
              }
            })
     | Io_Again \<Rightarrow> Some st
     | _ \<Rightarrow> do { st1 \<leftarrow> fail_client uc ''upstream read failed'' 32 st; conn_free u st1 }
   }"

section \<open>Runs of callbacks\<close>

fun run_writes :: "nat \<Rightarrow> io_result list \<Rightarrow> 'x tcp \<Rightarrow> 'x tcp option" where
  "run_writes a [] st = Some st"
| "run_writes a (io # ios) st = do { st1 \<leftarrow> on_client_write_cb a io st; run_writes a ios st1 }"

fun run_reads :: "'x request_handler \<Rightarrow> nat \<Rightarrow> io_result list \<Rightarrow> 'x tcp \<Rightarrow> 'x tcp option" where
  "run_reads handler a [] st = Some st"
| "run_reads handler a (io # ios) st = do { st1 \<leftarrow> on_client_read_cb handler a io st; run_reads handler a ios st1 }"

text \<open>Progress of writing: the socket would block or takes some bytes.\<close>

fun wrote :: "io_result \<Rightarrow> nat" where
  "wrote (Io_Wrote k) = k"
| "wrote _ = 0"

definition progress :: "io_result \<Rightarrow> bool" where
  "progress io \<longleftrightarrow> io = Io_Again \<or> (\<exists>k > 0. io = Io_Wrote k)"

lemma t_conns_put [simp]: "t_conns (put_conn a c st) b = (if b = a then Some c else t_conns st b)"
  by (simp add: put_conn_def)

lemma put_conn_frame [simp]: "t_sent (put_conn a c st) = t_sent st" "t_closed (put_conn a c st) = t_closed st"
  by (simp_all add: put_conn_def)

lemma length_store_text: "length s < length buf \<Longrightarrow> length (store_text buf s) = length buf"
  by (simp add: store_text_def)

lemma client_write_wrote:
  assumes "t_conns st a = Some c" and "c_wlen c \<le> length (c_wbuf c)" and "c_wpos c + k \<le> c_wlen c"
  shows "on_client_write_cb a (Io_Wrote k) st =
    (let st1 = put_conn a (c\<lparr>c_wpos := c_wpos c + k\<rparr>)
           (st\<lparr>t_sent := (t_sent st)(c_fd c := t_sent st (c_fd c) @ take k (drop (c_wpos c) (c_wbuf c)))\<rparr>)
     in if c_wpos c + k = c_wlen c then conn_free a st1 else Some st1)"
  using assms by (auto simp: on_client_write_cb_def conn_write_def Let_def min_def)

lemma run_writes_all:
  assumes "t_conns st a = Some c" and "c_wlen c \<le> length (c_wbuf c)" and "c_wpos c \<le> c_wlen c" and "0 \<le> c_fd c"
    and "ios \<noteq> []" and "last ios \<noteq> Io_Again" and "\<forall>io \<in> set ios. progress io"
    and "c_wpos c + sum_list (map wrote ios) = c_wlen c"
  shows "\<exists>st'. run_writes a ios st = Some st' \<and> t_conns st' a = None \<and> c_fd c \<in> set (t_closed st')
    \<and> t_sent st' (c_fd c) = t_sent st (c_fd c) @ take (c_wlen c - c_wpos c) (drop (c_wpos c) (c_wbuf c))"
  using assms
proof (induction ios arbitrary: st c)
  case (Cons io ios)
  have "progress io" using Cons.prems(7) by simp
  then consider "io = Io_Again" | k where "io = Io_Wrote k" "0 < k" by (auto simp: progress_def)
  then show ?case
  proof cases
    case 1
    with Cons.prems have "ios \<noteq> []" by auto
    have "on_client_write_cb a io st = Some st" using 1 Cons.prems(1) by (simp add: on_client_write_cb_def)
    with Cons.IH [OF Cons.prems(1-4) \<open>ios \<noteq> []\<close>] Cons.prems(6-8) \<open>ios \<noteq> []\<close> 1 show ?thesis by simp
  next
    case (2 k)
    let ?c = "c\<lparr>c_wpos := c_wpos c + k\<rparr>"
    let ?st = "st\<lparr>t_sent := (t_sent st)(c_fd c := t_sent st (c_fd c) @ take k (drop (c_wpos c) (c_wbuf c)))\<rparr>"
    have k: "c_wpos c + k \<le> c_wlen c" using Cons.prems(8) 2 by simp
    note step = client_write_wrote [OF Cons.prems(1,2) k]
    show ?thesis
    proof (cases "ios = []")
      case True
      then have "c_wpos c + k = c_wlen c" using Cons.prems(8) 2 by simp
      moreover from this have "c_wlen c - c_wpos c = k" by simp
      ultimately show ?thesis using True step 2 Cons.prems(4) by (auto simp: Let_def conn_free_def)
    next
      case False
      have pos: "0 < sum_list (map wrote ios)"
      proof -
        have l: "last ios \<in> set ios" "last ios \<noteq> Io_Again" using False Cons.prems(6) by simp_all
        with Cons.prems(7) have "progress (last ios)" by simp
        with l(2) have "0 < wrote (last ios)" by (auto simp: progress_def)
        moreover have "wrote (last ios) \<in> set (map wrote ios)" using l(1) by simp
        ultimately show ?thesis using member_le_sum_list [of "wrote (last ios)" "map wrote ios"] by linarith
      qed
      then have ne: "c_wpos c + k \<noteq> c_wlen c" using Cons.prems(8) 2 by simp
      have s: "on_client_write_cb a io st = Some (put_conn a ?c ?st)" using step ne 2 by (simp add: Let_def)
      have "\<exists>st'. run_writes a ios (put_conn a ?c ?st) = Some st' \<and> t_conns st' a = None \<and> c_fd ?c \<in> set (t_closed st')
          \<and> t_sent st' (c_fd ?c) = t_sent (put_conn a ?c ?st) (c_fd ?c)
            @ take (c_wlen ?c - c_wpos ?c) (drop (c_wpos ?c) (c_wbuf ?c))"
        using Cons.prems False k 2 by (intro Cons.IH) auto
      moreover have "take (c_wlen c - c_wpos c) (drop (c_wpos c) (c_wbuf c))
          = take k (drop (c_wpos c) (c_wbuf c)) @ take (c_wlen c - (c_wpos c + k)) (drop (c_wpos c + k) (c_wbuf c))"
        using k take_add [of k "c_wlen c - (c_wpos c + k)" "drop (c_wpos c) (c_wbuf c)"] by (simp add: add.commute)
      ultimately show ?thesis using s by simp
    qed
  qed
qed simp

section \<open>Properties\<close>

text \<open>C14. A response started on a connection is sent completely however the socket splits the writes:
  when the accepted pieces add up to the text, exactly the formatted response has gone out, and the
  connection is closed and freed.\<close>

theorem response_sent:
  assumes "t_conns st a = Some c" and "length (c_wbuf c) = BUF_SIZE" and "0 \<le> c_fd c"
    and "http_format_response BUF_SIZE status body body_len = (txt, n)" and "n < BUF_SIZE"
    and "ios \<noteq> []" and "last ios \<noteq> Io_Again" and "\<forall>io \<in> set ios. progress io" and "sum_list (map wrote ios) = n"
  shows "\<exists>st1 st2. conn_start_response a status body body_len st = Some st1 \<and> run_writes a ios st1 = Some st2
    \<and> t_sent st2 (c_fd c) = t_sent st (c_fd c) @ txt \<and> t_conns st2 a = None \<and> c_fd c \<in> set (t_closed st2)"
proof -
  let ?c = "c\<lparr>c_wbuf := store_text (c_wbuf c) txt, c_wlen := n, c_wpos := 0, c_ev := Some On_Client_Write\<rparr>"
  have len: "length txt = n"
    using assms(4,5) by (auto simp: http_format_response_def snprintf_def)
  have st1: "conn_start_response a status body body_len st = Some (put_conn a ?c st)"
    using assms(1,4) by (simp add: conn_start_response_def)
  have "\<exists>st2. run_writes a ios (put_conn a ?c st) = Some st2 \<and> t_conns st2 a = None \<and> c_fd ?c \<in> set (t_closed st2)
      \<and> t_sent st2 (c_fd ?c) = t_sent (put_conn a ?c st) (c_fd ?c) @ take (c_wlen ?c - c_wpos ?c) (drop (c_wpos ?c) (c_wbuf ?c))"
    using assms len by (intro run_writes_all) (auto simp: length_store_text)
  with st1 len show ?thesis by (auto simp: store_text_def)
qed

definition demo_tcp :: "unit tcp" where
  "demo_tcp = \<lparr>t_conns = [0 \<mapsto> (blank_conn 7)\<lparr>c_ev := Some On_Client_Read\<rparr>], t_next = 1, t_ctxs = Map.empty,
     t_next_ctx = 0, t_mem = [], t_net = [], t_dialed = [], t_sent = (\<lambda>_. []), t_closed = []\<rparr>"

theorem response_sent_witness:
  "\<exists>st1 st2. conn_start_response 0 200 ''ok'' 2 demo_tcp = Some st1
     \<and> run_writes 0 [Io_Again, Io_Wrote (snd (http_format_response BUF_SIZE 200 ''ok'' 2))] st1 = Some st2
     \<and> t_sent st2 7 = fst (http_format_response BUF_SIZE 200 ''ok'' 2)"
proof -
  obtain t n where tn: "http_format_response BUF_SIZE 200 ''ok'' 2 = (t, n)" by (rule prod.exhaust)
  have n: "n < BUF_SIZE" "length t = n"
    using http_format_response_length [of 200 2 "''ok''" t n] tn by (simp_all add: BUF_SIZE_def in_i32_def)
  have "0 < n" using tn n by (auto simp: http_format_response_def snprintf_def)
  then have p: "\<forall>io \<in> set [Io_Again, Io_Wrote n]. progress io" by (simp add: progress_def)
  have c: "t_conns demo_tcp 0 = Some ((blank_conn 7)\<lparr>c_ev := Some On_Client_Read\<rparr>)" by (simp add: demo_tcp_def)
  let ?c = "(blank_conn 7)\<lparr>c_ev := Some On_Client_Read\<rparr>"
  have "length (c_wbuf ?c) = BUF_SIZE" "0 \<le> c_fd ?c" "[Io_Again, Io_Wrote n] \<noteq> []"
      "last [Io_Again, Io_Wrote n] \<noteq> Io_Again" "sum_list (map wrote [Io_Again, Io_Wrote n]) = n"
    by (simp_all add: blank_conn_def)
  from response_sent [OF c this(1,2) tn n(1) this(3,4) p this(5)]
  have "\<exists>st1 st2. conn_start_response 0 200 ''ok'' 2 demo_tcp = Some st1
      \<and> run_writes 0 [Io_Again, Io_Wrote n] st1 = Some st2 \<and> t_sent st2 (c_fd ?c) = t_sent demo_tcp (c_fd ?c) @ t"
    by blast
  moreover have "c_fd ?c = 7" "t_sent demo_tcp 7 = []" by (simp_all add: blank_conn_def demo_tcp_def)
  ultimately show ?thesis unfolding tn fst_conv snd_conv by simp
qed

text \<open>The read buffer after some bytes of a message have arrived.\<close>

definition holds :: "conn \<Rightarrow> string \<Rightarrow> bool" where
  "holds c msg \<longleftrightarrow> c_rlen c = length msg \<and> length (c_rbuf c) = BUF_SIZE \<and> length msg < BUF_SIZE
     \<and> (\<exists>pad. c_rbuf c = recv_buf msg pad)"

lemma holds_blank: "holds (blank_conn fd) []"
proof -
  have "BUF_SIZE = Suc (BUF_SIZE - 1)" by (simp add: BUF_SIZE_def)
  then have "replicate BUF_SIZE NUL = NUL # replicate (BUF_SIZE - 1) NUL" by (metis replicate_Suc)
  then show ?thesis by (auto simp: holds_def blank_conn_def BUF_SIZE_def)
qed

lemma conn_read_holds:
  assumes "holds c msg" and "d \<noteq> []" and "length (msg @ d) < BUF_SIZE"
  shows "\<exists>c'. conn_read c d = Some c' \<and> holds c' (msg @ d) \<and> c' = c\<lparr>c_rbuf := c_rbuf c', c_rlen := c_rlen c'\<rparr>"
proof -
  obtain pad where pad: "c_rbuf c = recv_buf msg pad" "c_rlen c = length msg" "length (c_rbuf c) = BUF_SIZE"
    using assms(1) by (auto simp: holds_def)
  have "take (BUF_SIZE - c_rlen c - 1) d = d" using assms(3) pad(2) by simp
  then show ?thesis using assms pad by (simp add: conn_read_def Let_def holds_def)
qed

lemma put_conn_put: "put_conn a c' (put_conn a c st) = put_conn a c' st"
  by (simp add: put_conn_def)

lemma client_read_data:
  assumes "t_conns st a = Some c" and "conn_read c d = Some c'" and "http_parse_request (c_rbuf c') (c_rlen c') = Some (ret, req)"
    and "0 \<le> ret"
  shows "on_client_read_cb handler a (Io_Data d) st
    = (if ret = 1 then Some (put_conn a c' st) else handler a req (put_conn a c' st))"
  using assms by (simp add: on_client_read_cb_def Let_def)

lemma run_reads_pieces:
  assumes "head_ok (request_line m path q) hs cl hs'" and "target_ok m path q" and "announced cl = length body"
    and msg: "msg = msg_head (request_line m path q) hs cl hs' @ body" and "length msg < BUF_SIZE"
  shows "t_conns st a = Some c \<Longrightarrow> holds c got \<Longrightarrow> got @ concat ds = msg \<Longrightarrow> ds \<noteq> [] \<Longrightarrow> [] \<notin> set ds \<Longrightarrow>
    \<exists>c'. run_reads handler a (map Io_Data ds) st = handler a (parsed_request m path q body) (put_conn a c' st)
      \<and> holds c' msg"
proof (induction ds arbitrary: c got st)
  case (Cons d ds)
  have "length (got @ d) < BUF_SIZE" using Cons.prems(3) assms(5) by (auto simp: dest: arg_cong [of _ _ length])
  moreover have "d \<noteq> []" using Cons.prems(5) by auto
  ultimately obtain c1 where c1: "conn_read c d = Some c1" "holds c1 (got @ d)"
    using conn_read_holds [OF Cons.prems(2)] by blast
  then obtain pad where pad: "c_rbuf c1 = recv_buf (got @ d) pad" "c_rlen c1 = length (got @ d)"
    by (auto simp: holds_def)
  show ?case
  proof (cases "ds = []")
    case True
    then have "got @ d = msg" using Cons.prems(3) by simp
    with http_parse_request_head [OF assms(1,2), of body pad] assms(3) pad
    have "http_parse_request (c_rbuf c1) (c_rlen c1) = Some (0, parsed_request m path q body)"
      by (simp add: msg)
    from client_read_data [OF Cons.prems(1) c1(1) this, of handler] True c1(2) \<open>got @ d = msg\<close>
    show ?thesis
      by (intro exI [of _ c1]) (cases "handler a (parsed_request m path q body) (put_conn a c1 st)"; simp)
  next
    case False
    let ?n = "length (got @ d)"
    have "concat ds \<noteq> []" using False Cons.prems(5) by (cases ds) auto
    then have n: "?n < length msg" "take ?n msg = got @ d" using Cons.prems(3) by (auto simp flip: Cons.prems(3))
    from request_prefix_incomplete [OF assms(1-4) n(1), of pad] pad
    obtain req where r: "http_parse_request (c_rbuf c1) (c_rlen c1) = Some (1, req)" unfolding n(2) by auto
    have s: "on_client_read_cb handler a (Io_Data d) st = Some (put_conn a c1 st)"
      using client_read_data [OF Cons.prems(1) c1(1) r, of handler] by simp
    have "\<exists>c'. run_reads handler a (map Io_Data ds) (put_conn a c1 st)
        = handler a (parsed_request m path q body) (put_conn a c' (put_conn a c1 st)) \<and> holds c' msg"
      using Cons.prems(3,5) False c1(2) by (intro Cons.IH [of _ c1 "got @ d"]) auto
    with s show ?thesis by (simp add: put_conn_put)
  qed
qed simp

text \<open>C13. A request that arrives in any number of pieces is handed to the service exactly once, after
  its last byte, parsed into its method, path, query and body; before that the connection only waits
  for more.\<close>

theorem request_in_pieces:
  assumes "t_conns st a = Some c" and "holds c []" and "head_ok (request_line m path q) hs cl hs'"
    and "target_ok m path q" and "announced cl = length body"
    and "concat ds = msg_head (request_line m path q) hs cl hs' @ body"
    and "length (concat ds) < BUF_SIZE" and "[] \<notin> set ds"
  shows "\<exists>c'. run_reads handler a (map Io_Data ds) st = handler a (parsed_request m path q body) (put_conn a c' st)
    \<and> holds c' (concat ds)"
proof -
  have "ds \<noteq> []" using assms(6) by (auto simp: msg_head_def)
  then show ?thesis
    using run_reads_pieces [OF assms(3-6,7) assms(1,2) _ _ assms(8)] by simp
qed

theorem request_in_pieces_witness:
  "\<exists>c'. run_reads (\<lambda>a req st. if req_path req = ''/lookup'' then Some st else None) 0
       (map Io_Data [take 9 demo_request, drop 9 demo_request]) demo_tcp = Some (put_conn 0 c' demo_tcp)"
proof -
  let ?c = "(blank_conn 7)\<lparr>c_ev := Some On_Client_Read\<rparr>" and ?ds = "[take 9 demo_request, drop 9 demo_request]"
  have len: "length demo_request < BUF_SIZE" "9 < length demo_request"
    by (simp_all add: demo_request_def msg_head_def request_line_def length_line_def BUF_SIZE_def
        show_nat.simps)
  then have ne: "[] \<notin> set ?ds" by auto
  have c: "t_conns demo_tcp 0 = Some ?c" by (simp add: demo_tcp_def)
  have h: "holds ?c []" using holds_blank [of 7] by (simp add: holds_def blank_conn_def)
  have "concat ?ds = demo_request" by simp
  then have m: "concat ?ds = msg_head (request_line ''GET'' ''/lookup'' (Some ''name=bob'')) [''Host: x''] (Some 2) [] @ ''hi''"
    by (simp only: demo_request_def)
  have l: "length (concat ?ds) < BUF_SIZE" using len by simp
  have "announced (Some 2) = length ''hi''" by (simp add: announced_def)
  from request_in_pieces [OF c h demo_head_ok this m l ne,
      of "\<lambda>a req st. if req_path req = ''/lookup'' then Some st else None"]
  show ?thesis by (auto simp: parsed_request_def)
qed

text \<open>C35. While a request waits for its upstream answer the client's connection is still registered for
  reading. When the client closes it, the connection is freed although the upstream connection still
  points to it, and the failure of the upstream connection then writes to freed memory.\<close>

theorem client_gone_use_after_free:
  assumes "t_conns st a = Some c" and "t_conns st u = Some uc" and "u \<noteq> a" and "c_client_conn uc = Some a"
  shows "\<exists>st'. on_client_read_cb handler a (Io_Data []) st = Some st' \<and> t_conns st' u = Some uc
    \<and> on_upstream_connect_cb u False st' = None \<and> on_upstream_read_cb uhandler u Io_Error st' = None"
  using assms
  by (simp add: on_client_read_cb_def conn_read_def conn_free_def on_upstream_connect_cb_def
      on_upstream_read_cb_def fail_client_def conn_start_response_def)

definition waiting_tcp :: "unit tcp" where
  "waiting_tcp = demo_tcp\<lparr>t_conns := [0 \<mapsto> blank_conn 7, 1 \<mapsto> (blank_conn 8)\<lparr>c_client_conn := Some 0\<rparr>]\<rparr>"

theorem client_gone_use_after_free_witness:
  "\<exists>st'. on_client_read_cb (\<lambda>_ _ _. None) 0 (Io_Data []) waiting_tcp = Some st'
     \<and> on_upstream_connect_cb 1 False st' = None"
  using client_gone_use_after_free [of waiting_tcp 0 "blank_conn 7" 1 "(blank_conn 8)\<lparr>c_client_conn := Some 0\<rparr>"
      "\<lambda>_ _ _. None" "\<lambda>_ _ _. None"]
  by (auto simp: waiting_tcp_def)

text \<open>C36. While a request is being answered by an upstream call, its connection stays registered for reading
  and keeps the request in its buffer. Any further byte of the client makes the parser accept the
  same request again, and the handler starts a second chain of calls for it.\<close>

theorem request_repeated:
  assumes "t_conns st a = Some c" and "holds c msg" and "head_ok (request_line m path q) hs cl hs'"
    and "target_ok m path q" and "announced cl = length body" and "msg = msg_head (request_line m path q) hs cl hs' @ body"
    and "extra \<noteq> []" and "length (msg @ extra) < BUF_SIZE"
  shows "\<exists>c'. on_client_read_cb handler a (Io_Data extra) st = handler a (parsed_request m path q body) (put_conn a c' st)
    \<and> holds c' (msg @ extra)"
proof -
  obtain c' where c': "conn_read c extra = Some c'" "holds c' (msg @ extra)" using conn_read_holds [OF assms(2,7,8)] by blast
  then obtain pad where pad: "c_rbuf c' = recv_buf (msg @ extra) pad" "c_rlen c' = length (msg @ extra)"
    by (auto simp: holds_def)
  with http_parse_request_head [OF assms(3,4), of "body @ extra" pad] assms(5)
  have "http_parse_request (c_rbuf c') (c_rlen c') = Some (0, parsed_request m path q body)"
    by (simp add: assms(6) add.assoc)
  from client_read_data [OF assms(1) c'(1) this, of handler] c'(2) show ?thesis by auto
qed

theorem request_repeated_witness:
  "\<exists>c'. on_client_read_cb (\<lambda>a req st. if req_path req = ''/lookup'' then Some st else None) 0 (Io_Data [LF])
    (put_conn 0 ((blank_conn 7)\<lparr>c_rbuf := recv_buf demo_request (replicate (BUF_SIZE - Suc (length demo_request)) NUL),
       c_rlen := length demo_request\<rparr>) demo_tcp) = Some (put_conn 0 c' demo_tcp)"
proof -
  let ?c = "(blank_conn 7)\<lparr>c_rbuf := recv_buf demo_request (replicate (BUF_SIZE - Suc (length demo_request)) NUL),
    c_rlen := length demo_request\<rparr>"
  have len: "length (demo_request @ [LF]) < BUF_SIZE"
    by (simp add: demo_request_def msg_head_def request_line_def length_line_def BUF_SIZE_def show_nat.simps)
  have c: "t_conns (put_conn 0 ?c demo_tcp) 0 = Some ?c" by simp
  have h: "holds ?c demo_request" using len by (auto simp: holds_def)
  have a: "announced (Some 2) = length ''hi''" by (simp add: announced_def)
  from request_repeated [OF c h demo_head_ok a demo_request_def _ len,
      of "\<lambda>a req st. if req_path req = ''/lookup'' then Some st else None"]
  show ?thesis by (auto simp: parsed_request_def put_conn_put)
qed

end
