(* ===== verification/Services.thy ===== *)
theory Services
  imports Json_Util Tcp_Handler
begin

text \<open>
  The three services: \<open>id_service\<close> and \<open>attend_service\<close>, which answer from a key-value store, and the
  \<open>frontend\<close>, which asks both in turn. The programs exist twice, over TCP (\<open>main.c\<close>) and over the mesh
  (\<open>main_dpumesh.c\<close>), with the same handlers on different transports: the handlers here take the
  transport's operations as arguments. \<open>respond\<close> is given the bytes of the array the body starts at.
\<close>

type_synonym ('c, 's) responder = "'c \<Rightarrow> int \<Rightarrow> string \<Rightarrow> nat \<Rightarrow> 's \<Rightarrow> 's option"

section \<open>Leaf services\<close>

definition is_get :: "http_request \<Rightarrow> string \<Rightarrow> bool" where
  "is_get req path \<longleftrightarrow> cstring (req_method req) = ''GET'' \<and> cstring (req_path req) = path"

definition id_body :: "int \<Rightarrow> string" where
  "id_body v = ''{'' @ [DQ] @ ''id'' @ [DQ] @ '':'' @ show_int v @ ''}''"

definition attend_body :: "int \<Rightarrow> string" where
  "attend_body v = ''{'' @ [DQ] @ ''attended'' @ [DQ] @ '':'' @ (if v \<noteq> 0 then ''true'' else ''false'') @ ''}''"

definition id_handle_request :: "('c, 's) responder \<Rightarrow> kv_store \<Rightarrow> 'c \<Rightarrow> http_request \<Rightarrow> 's \<Rightarrow> 's option" where
  "id_handle_request respond store client req s =
     (if \<not> is_get req ''/id'' then respond client 404 (error_text ''not found'') 20 s
      else case query_get (Some (cstring (req_query req))) (Some ''name'') 64 of
        None \<Rightarrow> respond client 400 (error_text ''missing name'') 23 s
      | Some name \<Rightarrow>
          (case kv_store_get store name of
             None \<Rightarrow> respond client 404 (error_text ''name not found'') 26 s
           | Some v \<Rightarrow> let (body, blen) = snprintf 128 (id_body v) in respond client 200 body blen s))"

definition attend_handle_request :: "('c, 's) responder \<Rightarrow> kv_store \<Rightarrow> 'c \<Rightarrow> http_request \<Rightarrow> 's \<Rightarrow> 's option" where
  "attend_handle_request respond store client req s =
     (if \<not> is_get req ''/attend'' then respond client 404 (error_text ''not found'') 20 s
      else case query_get (Some (cstring (req_query req))) (Some ''id'') 32 of
        None \<Rightarrow> respond client 400 (error_text ''missing id'') 21 s
      | Some id_str \<Rightarrow>
          (case kv_store_get store id_str of
             None \<Rightarrow> respond client 404 (error_text ''id not found'') 23 s
           | Some v \<Rightarrow> let (body, blen) = snprintf 128 (attend_body v) in respond client 200 body blen s))"

section \<open>The frontend\<close>

datatype frontend_stage = STAGE_WAITING_ID | STAGE_WAITING_ATTEND

record frontend_ctx =
  fx_stage :: frontend_stage
  fx_name :: string
  fx_id :: int

text \<open>What the frontend uses of its transport and of the heap: responding, the two upstream calls (with
  the value that goes into the path), the context blocks, and the two pointers of an upstream
  connection.\<close>

record 's fe_ops =
  fo_respond :: "(nat, 's) responder"
  fo_ask_id :: "nat \<Rightarrow> string \<Rightarrow> nat \<Rightarrow> 's \<Rightarrow> (int \<times> 's) option"
  fo_ask_attend :: "nat \<Rightarrow> int \<Rightarrow> nat \<Rightarrow> 's \<Rightarrow> (int \<times> 's) option"
  fo_calloc :: "frontend_ctx \<Rightarrow> 's \<Rightarrow> nat option \<times> 's"
  fo_get :: "nat \<Rightarrow> 's \<Rightarrow> frontend_ctx option"
  fo_put :: "nat \<Rightarrow> frontend_ctx \<Rightarrow> 's \<Rightarrow> 's"
  fo_free :: "nat \<Rightarrow> 's \<Rightarrow> 's option"
  fo_upstream :: "nat \<Rightarrow> 's \<Rightarrow> (nat option \<times> nat option) option"

definition frontend_handle_request :: "'s fe_ops \<Rightarrow> nat \<Rightarrow> http_request \<Rightarrow> 's \<Rightarrow> 's option" where
  "frontend_handle_request ops client req s =
     (if \<not> is_get req ''/lookup'' then fo_respond ops client 404 (error_text ''not found'') 20 s
      else case query_get (Some (cstring (req_query req))) (Some ''name'') 64 of
        None \<Rightarrow> fo_respond ops client 400 (error_text ''missing name'') 23 s
      | Some name \<Rightarrow>
          (case fo_calloc ops \<lparr>fx_stage = STAGE_WAITING_ID, fx_name = fst (snprintf 64 name), fx_id = 0\<rparr> s of
             (None, s1) \<Rightarrow> fo_respond ops client 500 (error_text ''alloc failed'') 23 s1
           | (Some x, s1) \<Rightarrow> do {
               (rc, s2) \<leftarrow> fo_ask_id ops client name x s1;
               if rc < 0 then do {
                 s3 \<leftarrow> fo_free ops x s2;
                 fo_respond ops client 502 (error_text ''upstream failed'') 26 s3
               }
               else Some s2
             }))"

definition lookup_body :: "string \<Rightarrow> int \<Rightarrow> bool \<Rightarrow> string" where
  "lookup_body name i attended =
     ''{'' @ [DQ] @ ''name'' @ [DQ] @ '':'' @ [DQ] @ name @ [DQ] @ '','' @ [DQ] @ ''id'' @ [DQ] @ '':'' @ show_int i
     @ '','' @ [DQ] @ ''attended'' @ [DQ] @ '':'' @ (if attended then ''true'' else ''false'') @ ''}''"

text \<open>The number after \<open>"id":\<close> in a response of the id service.\<close>

definition parse_id :: "string \<Rightarrow> int option" where
  "parse_id body = map_option (\<lambda>p. atoi (drop 5 p)) (strstr body ([DQ] @ ''id'' @ [DQ] @ '':''))"

definition frontend_handle_upstream_response :: "'s fe_ops \<Rightarrow> nat \<Rightarrow> http_response \<Rightarrow> 's \<Rightarrow> 's option" where
  "frontend_handle_upstream_response ops upstream resp s = do {
     ptrs \<leftarrow> fo_upstream ops upstream s;
     case ptrs of
       (Some client, Some x) \<Rightarrow> do {
         ctx \<leftarrow> fo_get ops x s;
         if resp_status_code resp \<noteq> 200 then do {
           s1 \<leftarrow> fo_respond ops client (resp_status_code resp) (resp_body resp) (resp_body_len resp) s;
           fo_free ops x s1
         }
         else (case fx_stage ctx of
           STAGE_WAITING_ID \<Rightarrow>
             (case parse_id (cstring (resp_body resp)) of
                None \<Rightarrow> do {
                  s1 \<leftarrow> fo_respond ops client 502 (error_text ''bad id response'') 26 s;
                  fo_free ops x s1
                }
              | Some i \<Rightarrow> do {
                  let s1 = fo_put ops x (ctx\<lparr>fx_id := i, fx_stage := STAGE_WAITING_ATTEND\<rparr>) s;
                  (rc, s2) \<leftarrow> fo_ask_attend ops client i x s1;
                  if rc < 0 then do {
                    s3 \<leftarrow> fo_respond ops client 502 (error_text ''upstream failed'') 26 s2;
                    fo_free ops x s3
                  }
                  else Some s2
                })
         | STAGE_WAITING_ATTEND \<Rightarrow> do {
             let attended = (strstr (cstring (resp_body resp)) ''true'' \<noteq> None);
             let (body, blen) = snprintf 256 (lookup_body (fx_name ctx) (fx_id ctx) attended);
             s1 \<leftarrow> fo_respond ops client 200 body blen s;
             fo_free ops x s1
           })
       }
     | _ \<Rightarrow> Some s
   }"

section \<open>Over TCP\<close>

text \<open>The body of a response over TCP is printed as a C string.\<close>

definition tcp_respond :: "(nat, 'x tcp) responder" where
  "tcp_respond client status body body_len st = conn_start_response client status (cstring body) body_len st"

record fe_config =
  id_host :: string
  id_port :: int
  attend_host :: string
  attend_port :: int

definition tcp_ctx_calloc :: "'x \<Rightarrow> 'x tcp \<Rightarrow> nat option \<times> 'x tcp" where
  "tcp_ctx_calloc x st =
     (let (ok, st1) = calloc_ok st
      in if \<not> ok then (None, st1)
         else (Some (t_next_ctx st1), st1\<lparr>t_ctxs := (t_ctxs st1)(t_next_ctx st1 \<mapsto> x), t_next_ctx := Suc (t_next_ctx st1)\<rparr>))"

definition tcp_fe_ops :: "fe_config \<Rightarrow> frontend_ctx tcp fe_ops" where
  "tcp_fe_ops cfg =
     \<lparr>fo_respond = tcp_respond,
      fo_ask_id = (\<lambda>client name x. conn_start_upstream client (id_host cfg) (id_port cfg) ''GET''
        (fst (snprintf 256 (''/id?name='' @ name))) x),
      fo_ask_attend = (\<lambda>client i x. conn_start_upstream client (attend_host cfg) (attend_port cfg) ''GET''
        (fst (snprintf 256 (''/attend?id='' @ show_int i))) x),
      fo_calloc = tcp_ctx_calloc,
      fo_get = (\<lambda>x st. t_ctxs st x),
      fo_put = (\<lambda>x ctx st. st\<lparr>t_ctxs := (t_ctxs st)(x \<mapsto> ctx)\<rparr>),
      fo_free = (\<lambda>x st. if t_ctxs st x = None then None else Some (st\<lparr>t_ctxs := (t_ctxs st)(x := None)\<rparr>)),
      fo_upstream = (\<lambda>u st. map_option (\<lambda>uc. (c_client_conn uc, c_handler_ctx uc)) (t_conns st u))\<rparr>"

text \<open>The handlers of the TCP programs.\<close>

definition id_service :: "kv_store \<Rightarrow> 'x request_handler" where
  "id_service store = id_handle_request tcp_respond store"

definition attend_service :: "kv_store \<Rightarrow> 'x request_handler" where
  "attend_service store = attend_handle_request tcp_respond store"

definition frontend :: "fe_config \<Rightarrow> frontend_ctx request_handler" where
  "frontend cfg = frontend_handle_request (tcp_fe_ops cfg)"

definition frontend_upstream :: "fe_config \<Rightarrow> frontend_ctx upstream_handler" where
  "frontend_upstream cfg = frontend_handle_upstream_response (tcp_fe_ops cfg)"

text \<open>The configuration \<open>main\<close> of the frontend reads from its environment.\<close>

definition fe_main_config :: "(string \<Rightarrow> string option) \<Rightarrow> fe_config" where
  "fe_main_config getenv =
     \<lparr>id_host = (case getenv ''ID_SERVICE_HOST'' of None \<Rightarrow> ''127.0.0.1'' | Some h \<Rightarrow> take 255 h),
      id_port = (case getenv ''ID_SERVICE_PORT'' of None \<Rightarrow> 8081 | Some p \<Rightarrow> atoi p),
      attend_host = (case getenv ''ATTEND_SERVICE_HOST'' of None \<Rightarrow> ''127.0.0.1'' | Some h \<Rightarrow> take 255 h),
      attend_port = (case getenv ''ATTEND_SERVICE_PORT'' of None \<Rightarrow> 8082 | Some p \<Rightarrow> atoi p)\<rparr>"

section \<open>The contract of a transport\<close>

text \<open>The replies of the leaf services to a request. The announced lengths of three error bodies are one
  short, so their closing brace is cut off.\<close>

definition id_reply :: "kv_store \<Rightarrow> http_request \<Rightarrow> int \<times> string" where
  "id_reply store req =
     (if \<not> is_get req ''/id'' then (404, butlast (error_text ''not found''))
      else case query_get (Some (cstring (req_query req))) (Some ''name'') 64 of
        None \<Rightarrow> (400, butlast (error_text ''missing name''))
      | Some name \<Rightarrow> (case kv_store_get store name of
          None \<Rightarrow> (404, error_text ''name not found'') | Some v \<Rightarrow> (200, id_body v)))"

definition attend_reply :: "kv_store \<Rightarrow> http_request \<Rightarrow> int \<times> string" where
  "attend_reply store req =
     (if \<not> is_get req ''/attend'' then (404, butlast (error_text ''not found''))
      else case query_get (Some (cstring (req_query req))) (Some ''id'') 32 of
        None \<Rightarrow> (400, butlast (error_text ''missing id''))
      | Some i \<Rightarrow> (case kv_store_get store i of
          None \<Rightarrow> (404, butlast (error_text ''id not found'')) | Some v \<Rightarrow> (200, attend_body v)))"

lemma kv_entries_get_wf: "\<forall>e \<in> set es. entry_wf e \<Longrightarrow> kv_entries_get es k = Some v \<Longrightarrow> in_i32 v"
  by (induction es) (auto simp: entry_wf_def split: if_splits)

lemma kv_get_wf: "kv_store_wf store \<Longrightarrow> kv_store_get store k = Some v \<Longrightarrow> in_i32 v"
  by (auto simp: kv_store_wf_def kv_store_get_def dest: kv_entries_get_wf)

lemma id_body_ok: "in_i32 v \<Longrightarrow> length (id_body v) < 128" "NUL \<notin> set (id_body v)" "id_body v \<noteq> []"
  using length_show_int [of v] by (auto simp: id_body_def)

lemma attend_body_ok: "length (attend_body v) < 128" "NUL \<notin> set (attend_body v)" "attend_body v \<noteq> []"
  by (simp_all add: attend_body_def)

lemma cstring_plain [simp]: "NUL \<notin> set s \<Longrightarrow> cstring s = s"
  by (simp add: cstring_def)

lemma parse_id_body: "in_i32 i \<Longrightarrow> parse_id (id_body i) = Some i"
  by (simp add: parse_id_def id_body_def atoi_show_int isdigit_def digit_val_def)

lemma length_error_text [simp]: "length (error_text msg) = length msg + 12"
  by (simp add: error_text_def)

lemma NUL_error_text [simp]: "NUL \<in> set (error_text msg) \<longleftrightarrow> NUL \<in> set msg"
  by (simp add: error_text_def)

text \<open>A leaf service makes exactly one call to respond, with the reply's status and a text whose announced
  part is the reply's body.\<close>

definition announces :: "int \<times> string \<Rightarrow> string \<Rightarrow> nat \<Rightarrow> bool" where
  "announces r body n \<longleftrightarrow> take n body = snd r \<and> NUL \<notin> set body \<and> 0 < n \<and> n \<le> length body \<and> n < 4096
     \<and> 0 < fst r \<and> fst r < 1000"

lemma announces_error:
  "NUL \<notin> set msg \<Longrightarrow> length msg < 100 \<Longrightarrow> 0 < status \<Longrightarrow> status < 1000 \<Longrightarrow>
     announces (status, butlast (error_text msg)) (error_text msg) (length msg + 11)"
  by (simp add: announces_def butlast_conv_take add.commute)

lemma announces_whole: "NUL \<notin> set body \<Longrightarrow> body \<noteq> [] \<Longrightarrow> length body < 4096 \<Longrightarrow> announces (200, body) body (length body)"
  by (simp add: announces_def)

lemma id_responds:
  assumes "kv_store_wf store"
  obtains body n where "id_handle_request respond store c req s = respond c (fst (id_reply store req)) body n s"
    "announces (id_reply store req) body n"
proof (cases "is_get req ''/id''")
  case False
  with that [of "error_text ''not found''" 20] announces_error [of "''not found''" 404] show ?thesis
    by (simp add: id_handle_request_def id_reply_def)
next
  case get: True
  show ?thesis
  proof (cases "query_get (Some (cstring (req_query req))) (Some ''name'') 64")
    case None
    with get that [of "error_text ''missing name''" 23] announces_error [of "''missing name''" 400] show ?thesis
      by (simp add: id_handle_request_def id_reply_def)
  next
    case name: (Some name)
    show ?thesis
    proof (cases "kv_store_get store name")
      case None
      with get name that [of "error_text ''name not found''" 26] show ?thesis
        by (simp add: id_handle_request_def id_reply_def announces_def)
    next
      case (Some v)
      have b: "length (id_body v) < 128" using id_body_ok(1) [OF kv_get_wf [OF assms Some]] .
      with get name Some that [of "id_body v" "length (id_body v)"] announces_whole [OF id_body_ok(2,3)] show ?thesis
        by (simp add: id_handle_request_def id_reply_def snprintf_def)
    qed
  qed
qed

lemma attend_responds:
  obtains body n where "attend_handle_request respond store c req s = respond c (fst (attend_reply store req)) body n s"
    "announces (attend_reply store req) body n"
proof (cases "is_get req ''/attend''")
  case False
  with that [of "error_text ''not found''" 20] announces_error [of "''not found''" 404] show ?thesis
    by (simp add: attend_handle_request_def attend_reply_def)
next
  case get: True
  show ?thesis
  proof (cases "query_get (Some (cstring (req_query req))) (Some ''id'') 32")
    case None
    with get that [of "error_text ''missing id''" 21] announces_error [of "''missing id''" 400] show ?thesis
      by (simp add: attend_handle_request_def attend_reply_def)
  next
    case i: (Some i)
    show ?thesis
    proof (cases "kv_store_get store i")
      case None
      with get i that [of "error_text ''id not found''" 23] announces_error [of "''id not found''" 404] show ?thesis
        by (simp add: attend_handle_request_def attend_reply_def)
    next
      case (Some v)
      with get i that [of "attend_body v" "length (attend_body v)"] announces_whole [OF attend_body_ok(2,3)] attend_body_ok(1) [of v]
      show ?thesis by (simp add: attend_handle_request_def attend_reply_def snprintf_def)
    qed
  qed
qed

text \<open>What a service relies on: responding on a live connection succeeds, and what then goes out to the
  client is the status and the announced part of the body.\<close>

locale answering =
  fixes respond :: "('c, 's) responder"
    and live :: "'s \<Rightarrow> 'c \<Rightarrow> bool"
    and answer :: "'s \<Rightarrow> 's \<Rightarrow> 'c \<Rightarrow> (int \<times> string) option"
  assumes respond_answers: "live s c \<Longrightarrow> 0 \<le> status \<Longrightarrow> status < 1000 \<Longrightarrow> NUL \<notin> set body \<Longrightarrow>
    0 < n \<Longrightarrow> n \<le> length body \<Longrightarrow> n < 4096 \<Longrightarrow>
    \<exists>s'. respond c status body n s = Some s' \<and> answer s s' c = Some (status, take n body)"
begin

lemma respond_announced:
  assumes "live s c" and "announces r body n"
  shows "\<exists>s'. respond c (fst r) body n s = Some s' \<and> answer s s' c = Some r"
  using respond_answers [OF assms(1), of "fst r" body n] assms(2) by (simp add: announces_def)

lemma id_answers:
  assumes "live s c" and "kv_store_wf store"
  shows "\<exists>s'. id_handle_request respond store c req s = Some s' \<and> answer s s' c = Some (id_reply store req)"
  by (rule id_responds [OF assms(2), of respond c req s]) (auto dest: respond_announced [OF assms(1)])

lemma attend_answers:
  assumes "live s c"
  shows "\<exists>s'. attend_handle_request respond store c req s = Some s' \<and> answer s s' c = Some (attend_reply store req)"
  by (rule attend_responds [of respond store c req s]) (auto dest: respond_announced [OF assms])

end

text \<open>Over TCP a response is ready to be sent when the connection is registered for writing and the bytes
  that will be written are a response the peer's parser accepts.\<close>

definition tcp_live :: "'x tcp \<Rightarrow> nat \<Rightarrow> bool" where
  "tcp_live st a \<longleftrightarrow> (case t_conns st a of None \<Rightarrow> False | Some c \<Rightarrow> length (c_wbuf c) = BUF_SIZE)"

definition tcp_answer :: "'x tcp \<Rightarrow> 'x tcp \<Rightarrow> nat \<Rightarrow> (int \<times> string) option" where
  "tcp_answer st0 st a = do {
     c \<leftarrow> t_conns st a;
     (ret, resp) \<leftarrow> http_parse_response (take (c_wlen c) (c_wbuf c) @ [NUL]) (c_wlen c);
     if c_ev c = Some On_Client_Write \<and> c_wpos c = 0 \<and> c_wlen c < length (c_wbuf c) \<and> ret = 0
     then Some (resp_status_code resp, resp_body resp) else None
   }"

lemma tcp_respond_answers:
  assumes "tcp_live st a" and "in_i32 status" and "NUL \<notin> set body" and "n \<le> length body" and "n < 4096"
  shows "\<exists>st'. tcp_respond a status body n st = Some st' \<and> tcp_answer st st' a = Some (status, take n body)"
proof -
  obtain c where c: "t_conns st a = Some c" using assms(1) by (auto simp: tcp_live_def split: option.splits)
  obtain t m where tm: "http_format_response BUF_SIZE status body n = (t, m)" by (rule prod.exhaust)
  from http_format_response_length [OF assms(2) _ tm [unfolded BUF_SIZE_def]] assms(5)
  have m: "m < BUF_SIZE" "length t = m" by (simp_all add: BUF_SIZE_def)
  with format_parse_response [OF assms(2,4) _ tm] assms(5)
  have "http_parse_response (t @ [NUL]) m = Some (0, parsed_response status (take n body))" by simp
  moreover have "length (store_text (c_wbuf c) t) = BUF_SIZE"
    using assms(1) c m by (simp add: tcp_live_def length_store_text)
  moreover have "take m (store_text (c_wbuf c) t) = t" using m by (simp add: store_text_def)
  moreover have "cstring body = body" using assms(3) by (simp add: cstring_def)
  ultimately show ?thesis
    using c assms(5) m
    by (simp add: tcp_respond_def conn_start_response_def tm tcp_answer_def parsed_response_def BODY_SIZE_def)
qed

interpretation over_tcp: answering tcp_respond tcp_live tcp_answer
  by unfold_locales (rule tcp_respond_answers; simp add: in_i32_def)

section \<open>The leaf services over TCP\<close>

text \<open>C15. Every request to the id service over TCP is answered: the connection is set to send a response
  the client's parser accepts, with the id of the name, or the status and text of the first check
  that fails. The announced lengths of the bodies for a wrong path and a missing name are one short,
  so the client gets them without their closing brace.\<close>

theorem id_service_answers:
  assumes "tcp_live st a" and "kv_store_wf store"
  shows "\<exists>st'. id_service store a req st = Some st' \<and> tcp_answer st st' a = Some (id_reply store req)"
  unfolding id_service_def using assms by (rule over_tcp.id_answers)

theorem id_service_answers_witness:
  "\<exists>st'. id_service \<lparr>entries = []\<rparr> 0 http_request_zero demo_tcp = Some st'
     \<and> tcp_answer demo_tcp st' 0 = Some (404, butlast (error_text ''not found''))"
proof -
  have "tcp_live demo_tcp 0" "kv_store_wf \<lparr>entries = []\<rparr>"
    by (simp_all add: tcp_live_def demo_tcp_def blank_conn_def kv_store_wf_def)
  from id_service_answers [OF this, of http_request_zero] show ?thesis
    by (simp add: id_reply_def is_get_def http_request_zero_def)
qed

text \<open>Every request to the attend service over TCP is answered: with the attendance of the id, or
  with the status and text of the first check that fails, whose closing brace is cut off in all
  three cases.\<close>

theorem attend_service_answers:
  assumes "tcp_live st a"
  shows "\<exists>st'. attend_service store a req st = Some st' \<and> tcp_answer st st' a = Some (attend_reply store req)"
  unfolding attend_service_def using assms by (rule over_tcp.attend_answers)

theorem attend_service_answers_witness:
  "\<exists>st'. attend_service \<lparr>entries = []\<rparr> 0 http_request_zero demo_tcp = Some st'
     \<and> tcp_answer demo_tcp st' 0 = Some (404, butlast (error_text ''not found''))"
proof -
  have "tcp_live demo_tcp 0" by (simp add: tcp_live_def demo_tcp_def blank_conn_def)
  from attend_service_answers [OF this, of "\<lparr>entries = []\<rparr>" http_request_zero] show ?thesis
    by (simp add: attend_reply_def is_get_def http_request_zero_def)
qed

text \<open>How a connection upstream fails: it cannot be established, a write or a read on it fails, or the peer
  closes it before its response is complete.\<close>

datatype upstream_failure = Connect_Fails | Write_Fails | Read_Fails | Peer_Closes

fun run_failure :: "'x upstream_handler \<Rightarrow> nat \<Rightarrow> upstream_failure \<Rightarrow> 'x tcp \<Rightarrow> 'x tcp option" where
  "run_failure g u Connect_Fails = on_upstream_connect_cb u False"
| "run_failure g u Write_Fails = on_upstream_write_cb u Io_Error"
| "run_failure g u Read_Fails = on_upstream_read_cb g u Io_Error"
| "run_failure g u Peer_Closes = on_upstream_read_cb g u (Io_Data [])"

fun failure_text :: "upstream_failure \<Rightarrow> string" where
  "failure_text Connect_Fails = ''upstream connect failed''"
| "failure_text Write_Fails = ''upstream write failed''"
| "failure_text Read_Fails = ''upstream read failed''"
| "failure_text Peer_Closes = ''upstream closed''"

definition cut_short :: "conn \<Rightarrow> bool" where
  "cut_short uc \<longleftrightarrow> (\<exists>ret resp. http_parse_response ((c_rbuf uc)[c_rlen uc := NUL]) (c_rlen uc) = Some (ret, resp) \<and> ret \<noteq> 0)"

text \<open>Every failure answers the client with the text of the failure and frees the connection.\<close>

lemma run_failure_steps:
  assumes "t_conns st u = Some uc" and "f = Peer_Closes \<longrightarrow> cut_short uc"
  obtains uc' where "run_failure g u f st
      = do { st1 \<leftarrow> fail_client uc (failure_text f) (length (error_text (failure_text f))) (put_conn u uc' st); conn_free u st1 }"
    "c_fd uc' = c_fd uc"
proof -
  have same: "put_conn u uc st = st" using assms(1) by (cases st) (simp add: put_conn_def fun_upd_idem)
  have len: "length (error_text ''upstream connect failed'') = 35" "length (error_text ''upstream write failed'') = 33"
      "length (error_text ''upstream read failed'') = 32" "length (error_text ''upstream closed'') = 27"
    by (simp_all add: error_text_def)
  show ?thesis
  proof (cases f)
    case Peer_Closes
    let ?uc = "uc\<lparr>c_rbuf := (c_rbuf uc)[c_rlen uc := NUL]\<rparr>"
    obtain ret resp where "http_parse_response (c_rbuf ?uc) (c_rlen ?uc) = Some (ret, resp)" "ret \<noteq> 0"
      using assms(2) Peer_Closes by (auto simp: cut_short_def)
    then show ?thesis
      using assms(1) Peer_Closes by (intro that [of ?uc]) (simp_all add: on_upstream_read_cb_def conn_read_def fail_client_def Let_def len)
  qed (rule that [of uc], use assms(1) in \<open>simp add: on_upstream_connect_cb_def on_upstream_write_cb_def on_upstream_read_cb_def same len\<close>, simp)+
qed

text \<open>C37. When a connection upstream fails, its client is answered with status 502 and the text of the
  failure, and the connection is closed and freed, but the context it carries is not: no connection
  refers to it any more and nothing will free it.\<close>

theorem upstream_failure_leaks:
  assumes "t_conns st u = Some uc" and "c_client_conn uc = Some a" and "t_conns st a = Some c" and "a \<noteq> u" and "tcp_live st a"
    and "c_handler_ctx uc = Some x" and "t_ctxs st x = Some ctx"
    and "\<forall>b d. t_conns st b = Some d \<longrightarrow> b \<noteq> u \<longrightarrow> c_handler_ctx d \<noteq> Some x"
    and "f = Peer_Closes \<longrightarrow> cut_short uc"
  shows "\<exists>st' c'. run_failure g u f st = Some st' \<and> tcp_answer st st' a = Some (502, error_text (failure_text f))
    \<and> t_conns st' = (t_conns st)(a \<mapsto> c', u := None)
    \<and> t_closed st' = (if 0 \<le> c_fd uc then c_fd uc # t_closed st else t_closed st)
    \<and> t_ctxs st' x = Some ctx \<and> (\<forall>b d. t_conns st' b = Some d \<longrightarrow> c_handler_ctx d \<noteq> Some x)"
proof -
  let ?b = "error_text (failure_text f)"
  obtain uc' where r: "run_failure g u f st
      = do { st1 \<leftarrow> fail_client uc (failure_text f) (length ?b) (put_conn u uc' st); conn_free u st1 }" "c_fd uc' = c_fd uc"
    by (rule run_failure_steps [OF assms(1,9)])
  let ?st = "put_conn u uc' st"
  have b: "cstring ?b = ?b" "NUL \<notin> set ?b" "length ?b < 4096" by (cases f; simp add: error_text_def)+
  have l: "tcp_live ?st a" "in_i32 502" using assms(4,5) by (simp_all add: tcp_live_def put_conn_def in_i32_def)
  from tcp_respond_answers [OF l b(2) order_refl b(3)] obtain st1 where
    st1: "tcp_respond a 502 ?b (length ?b) ?st = Some st1" "tcp_answer ?st st1 a = Some (502, ?b)" by auto
  then obtain c' where c': "st1 = put_conn a c' ?st" "c_handler_ctx c' = c_handler_ctx c"
    using assms(3,4) by (auto simp: tcp_respond_def conn_start_response_def split_beta put_conn_def)
  let ?st' = "st1\<lparr>t_conns := (t_conns st1)(u := None), t_closed := (if 0 \<le> c_fd uc then c_fd uc # t_closed st else t_closed st)\<rparr>"
  have run: "run_failure g u f st = Some ?st'"
    using r st1(1) assms(2,4) b(1) by (simp add: fail_client_def tcp_respond_def conn_free_def c'(1))
  have ans: "tcp_answer st ?st' a = Some (502, ?b)" using st1(2) assms(4) by (simp add: tcp_answer_def)
  have cs: "t_conns ?st' = (t_conns st)(a \<mapsto> c', u := None)" using assms(4) by (auto simp: c'(1) put_conn_def)
  have "t_ctxs ?st' x = Some ctx" using assms(7) by (simp add: c'(1) put_conn_def)
  moreover have "c_handler_ctx d \<noteq> Some x" if "t_conns ?st' b = Some d" for b d
    using that assms(3,4,8) c'(2) by (auto simp: c'(1) put_conn_def split: if_splits)
  ultimately show ?thesis using run ans cs by (intro exI [of _ ?st'] exI [of _ c'] conjI allI impI) simp_all
qed

theorem upstream_failure_leaks_witness:
  "\<exists>st'. run_failure (\<lambda>u resp st. None) 1 Peer_Closes (demo_tcp\<lparr>t_conns := [0 \<mapsto> blank_conn 7,
      1 \<mapsto> (blank_conn 8)\<lparr>c_client_conn := Some 0, c_handler_ctx := Some 0\<rparr>], t_ctxs := [0 \<mapsto> ()]\<rparr>) = Some st'
    \<and> tcp_answer demo_tcp st' 0 = Some (502, error_text ''upstream closed'') \<and> t_conns st' 1 = None \<and> t_closed st' = [8]
    \<and> t_ctxs st' 0 = Some () \<and> (\<forall>b d. t_conns st' b = Some d \<longrightarrow> c_handler_ctx d \<noteq> Some 0)"
proof -
  let ?uc = "(blank_conn 8)\<lparr>c_client_conn := Some 0, c_handler_ctx := Some 0\<rparr>"
  let ?st = "demo_tcp\<lparr>t_conns := [0 \<mapsto> blank_conn 7, 1 \<mapsto> ?uc], t_ctxs := [0 \<mapsto> ()]\<rparr>"
  have "cut_short ?uc"
    by (simp add: cut_short_def blank_conn_def http_parse_response_def find_header_end_def)
  moreover have "tcp_live ?st 0" by (simp add: tcp_live_def blank_conn_def)
  ultimately have "\<exists>st' c'. run_failure (\<lambda>u resp st. None) 1 Peer_Closes ?st = Some st'
      \<and> tcp_answer ?st st' 0 = Some (502, error_text (failure_text Peer_Closes)) \<and> t_conns st' = (t_conns ?st)(0 \<mapsto> c', 1 := None)
      \<and> t_closed st' = (if 0 \<le> c_fd ?uc then c_fd ?uc # t_closed ?st else t_closed ?st)
      \<and> t_ctxs st' 0 = Some () \<and> (\<forall>b d. t_conns st' b = Some d \<longrightarrow> c_handler_ctx d \<noteq> Some 0)"
    by (intro upstream_failure_leaks [where c = "blank_conn 7"]) (simp_all add: blank_conn_def)
  then show ?thesis by (auto simp: demo_tcp_def blank_conn_def tcp_answer_def)
qed

end
