(* ===== verification/Frontend.thy ===== *)
theory Frontend
  imports Services
begin

text \<open>
  What the frontend (\<open>frontend/main.c\<close>, \<open>frontend/main_dpumesh.c\<close>) guarantees over any transport: the
  contract of a transport with upstream calls as a locale, the two-stage call chain proved once inside
  it, and its interpretation on the TCP handler.
\<close>

section \<open>The contract\<close>

text \<open>Names that can be passed on in a request line and in a mesh header.\<close>

definition name_ok :: "string \<Rightarrow> bool" where
  "name_ok name \<longleftrightarrow> length name < 64 \<and> set name \<inter> {NUL, CR, LF, SPC, DQ, CHR ''&''} = {}"

text \<open>The answer the frontend gives on an upstream response: none when it asks the attend service.\<close>

definition frontend_reply :: "frontend_ctx \<Rightarrow> http_response \<Rightarrow> (int \<times> string) option" where
  "frontend_reply ctx resp =
     (if resp_status_code resp \<noteq> 200 then Some (resp_status_code resp, resp_body resp)
      else case fx_stage ctx of
        STAGE_WAITING_ID \<Rightarrow> (case parse_id (cstring (resp_body resp)) of
          None \<Rightarrow> Some (502, butlast (error_text ''bad id response'')) | Some _ \<Rightarrow> None)
      | STAGE_WAITING_ATTEND \<Rightarrow>
          Some (200, lookup_body (fx_name ctx) (fx_id ctx) (strstr (cstring (resp_body resp)) ''true'' \<noteq> None)))"

definition ctx_ok :: "frontend_ctx \<Rightarrow> bool" where
  "ctx_ok ctx \<longleftrightarrow> length (fx_name ctx) < 64 \<and> NUL \<notin> set (fx_name ctx) \<and> in_i32 (fx_id ctx)"

text \<open>A response with a status code of at most three digits and, unless the status is 200, a body.\<close>

definition resp_ok :: "http_response \<Rightarrow> bool" where
  "resp_ok resp \<longleftrightarrow> 0 \<le> resp_status_code resp \<and> resp_status_code resp < 1000 \<and> NUL \<notin> set (resp_body resp)
     \<and> resp_body_len resp = length (resp_body resp) \<and> resp_body_len resp < 4096
     \<and> (resp_status_code resp \<noteq> 200 \<longrightarrow> 0 < resp_body_len resp)"

text \<open>The services the frontend asks.\<close>

datatype callee = Id_Service | Attend_Service

text \<open>The laws: responding and asking keep the context blocks; \<open>calloc\<close>, the assignments to a context and
  \<open>free\<close> act on one block and keep the connections; asking on a connection that is ready sends the
  request to the service (\<open>asked\<close>), and a failed request leaves the client's connection to respond on.\<close>

locale frontend_transport = answering "fo_respond ops" live answer
  for ops :: "'s fe_ops" and live :: "'s \<Rightarrow> nat \<Rightarrow> bool" and answer :: "'s \<Rightarrow> 's \<Rightarrow> nat \<Rightarrow> (int \<times> string) option" +
  fixes ready :: "'s \<Rightarrow> nat \<Rightarrow> bool"
    and asked :: "'s \<Rightarrow> 's \<Rightarrow> nat \<Rightarrow> nat \<Rightarrow> callee \<Rightarrow> string \<Rightarrow> string \<Rightarrow> bool"
  assumes respond_ctx: "fo_respond ops c status body n s = Some s' \<Longrightarrow> fo_get ops x s' = fo_get ops x s"
    and calloc_ok: "fo_calloc ops v s = (Some x, s') \<Longrightarrow> fo_get ops x s' = Some v \<and> (ready s c \<longrightarrow> ready s' c) \<and> (live s c \<longrightarrow> live s' c)"
    and calloc_fail: "fo_calloc ops v s = (None, s') \<Longrightarrow> live s c \<Longrightarrow> live s' c"
    and put_get: "fo_get ops x (fo_put ops x v s) = Some v"
    and put_keeps: "ready s c \<Longrightarrow> ready (fo_put ops x v s) c" "live s c \<Longrightarrow> live (fo_put ops x v s) c"
    and free_ok: "fo_get ops x s = Some v \<Longrightarrow> \<exists>s'. fo_free ops x s = Some s' \<and> fo_get ops x s' = None
      \<and> (\<forall>s0. answer s0 s' c = answer s0 s c) \<and> (live s c \<longrightarrow> live s' c)"
    and ask_id: "ready s c \<Longrightarrow> name_ok name \<Longrightarrow>
      \<exists>s'. fo_ask_id ops c name x s = Some (0, s') \<and> asked s s' c x Id_Service ''/id'' (''name='' @ name)"
    and ask_attend: "ready s c \<Longrightarrow> in_i32 i \<Longrightarrow>
      \<exists>s'. fo_ask_attend ops c i x s = Some (0, s') \<and> asked s s' c x Attend_Service ''/attend'' (''id='' @ show_int i)"
    and ask_id_ctx: "fo_ask_id ops c name x s = Some (rc, s') \<Longrightarrow> fo_get ops y s' = fo_get ops y s"
    and ask_attend_ctx: "fo_ask_attend ops c i x s = Some (rc, s') \<Longrightarrow> fo_get ops y s' = fo_get ops y s"
    and ask_id_fails: "fo_ask_id ops c name x s = Some (rc, s') \<Longrightarrow> rc < 0 \<Longrightarrow> live s c \<Longrightarrow> live s' c"
    and ask_attend_fails: "fo_ask_attend ops c i x s = Some (rc, s') \<Longrightarrow> rc < 0 \<Longrightarrow> live s c \<Longrightarrow> live s' c"
begin

text \<open>Answering and releasing the context, in both orders the code uses.\<close>

lemma respond_free:
  assumes "live s c" and "fo_get ops x s = Some v" and "0 \<le> status" and "status < 1000"
    and "NUL \<notin> set body" and "0 < n" and "n \<le> length body" and "n < 4096"
  shows "\<exists>s'. do { s1 \<leftarrow> fo_respond ops c status body n s; fo_free ops x s1 } = Some s'
    \<and> fo_get ops x s' = None \<and> answer s s' c = Some (status, take n body)"
proof -
  obtain s1 where s1: "fo_respond ops c status body n s = Some s1" "answer s s1 c = Some (status, take n body)"
    using respond_answers [OF assms(1,3-8)] by blast
  then have "fo_get ops x s1 = Some v" using respond_ctx assms(2) by simp
  from free_ok [OF this, of c] s1 show ?thesis by (auto simp: bind_eq_Some_conv)
qed

lemma free_respond:
  assumes "live s c" and "fo_get ops x s = Some v" and "0 \<le> status" and "status < 1000"
    and "NUL \<notin> set body" and "0 < n" and "n \<le> length body" and "n < 4096"
  shows "\<exists>s1 s'. fo_free ops x s = Some s1 \<and> fo_respond ops c status body n s1 = Some s'
    \<and> answer s1 s' c = Some (status, take n body) \<and> fo_get ops x s' = None"
proof -
  obtain s1 where s1: "fo_free ops x s = Some s1" "fo_get ops x s1 = None" "live s1 c"
    using free_ok [OF assms(2)] assms(1) by blast
  from respond_answers [OF s1(3) assms(3-8)] s1 respond_ctx show ?thesis by fastforce
qed

text \<open>Stage one: a lookup asks the id service and leaves a context with the name.\<close>

lemma lookup_asks_id:
  assumes "is_get req ''/lookup''" and "query_get (Some (cstring (req_query req))) (Some ''name'') 64 = Some name"
    and "name_ok name" and "ready s c"
    and "fo_calloc ops \<lparr>fx_stage = STAGE_WAITING_ID, fx_name = name, fx_id = 0\<rparr> s = (Some x, s1)"
  shows "\<exists>s'. frontend_handle_request ops c req s = Some s' \<and> asked s1 s' c x Id_Service ''/id'' (''name='' @ name)
    \<and> fo_get ops x s' = Some \<lparr>fx_stage = STAGE_WAITING_ID, fx_name = name, fx_id = 0\<rparr>"
proof -
  have n: "fst (snprintf 64 name) = name" using assms(3) by (simp add: snprintf_def name_ok_def)
  have "ready s1 c" using calloc_ok [OF assms(5)] assms(4) by blast
  then obtain s' where s': "fo_ask_id ops c name x s1 = Some (0, s')" "asked s1 s' c x Id_Service ''/id'' (''name='' @ name)"
    using ask_id [OF _ assms(3)] by blast
  with ask_id_ctx [OF s'(1)] calloc_ok [OF assms(5)] show ?thesis
    using assms(1,2,5) by (simp add: frontend_handle_request_def n)
qed

text \<open>Stage two: the id is kept and the attend service is asked.\<close>

lemma id_response_asks_attend:
  assumes "fo_upstream ops u s = Some (Some c, Some x)" and "fo_get ops x s = Some ctx" and "fx_stage ctx = STAGE_WAITING_ID"
    and "resp_status_code resp = 200" and "parse_id (cstring (resp_body resp)) = Some i" and "in_i32 i" and "ready s c"
  shows "\<exists>s1 s'. frontend_handle_upstream_response ops u resp s = Some s' \<and> asked s1 s' c x Attend_Service ''/attend'' (''id='' @ show_int i)
    \<and> s1 = fo_put ops x (ctx\<lparr>fx_id := i, fx_stage := STAGE_WAITING_ATTEND\<rparr>) s
    \<and> fo_get ops x s' = Some (ctx\<lparr>fx_id := i, fx_stage := STAGE_WAITING_ATTEND\<rparr>)"
proof -
  let ?v = "ctx\<lparr>fx_id := i, fx_stage := STAGE_WAITING_ATTEND\<rparr>"
  have "ready (fo_put ops x ?v s) c" using assms(7) by (rule put_keeps)
  then obtain s' where s': "fo_ask_attend ops c i x (fo_put ops x ?v s) = Some (0, s')"
      "asked (fo_put ops x ?v s) s' c x Attend_Service ''/attend'' (''id='' @ show_int i)"
    using ask_attend [OF _ assms(6)] by blast
  with ask_attend_ctx [OF s'(1), of x] put_get show ?thesis
    using assms(1-5) by (simp add: frontend_handle_upstream_response_def)
qed

text \<open>The end: the answer is put together and the context released.\<close>

lemma attend_response_answers:
  assumes "fo_upstream ops u s = Some (Some c, Some x)" and "fo_get ops x s = Some ctx" and "fx_stage ctx = STAGE_WAITING_ATTEND"
    and "resp_status_code resp = 200" and "live s c" and "length (fx_name ctx) < 64" and "NUL \<notin> set (fx_name ctx)"
    and "in_i32 (fx_id ctx)"
  shows "\<exists>s'. frontend_handle_upstream_response ops u resp s = Some s' \<and> fo_get ops x s' = None
    \<and> answer s s' c = Some (200, lookup_body (fx_name ctx) (fx_id ctx) (strstr (cstring (resp_body resp)) ''true'' \<noteq> None))"
proof -
  define att where "att = (strstr (cstring (resp_body resp)) ''true'' \<noteq> None)"
  let ?b = "lookup_body (fx_name ctx) (fx_id ctx) att"
  have b: "length ?b < 256" "NUL \<notin> set ?b" "0 < length ?b"
    using assms(6,7) length_show_int [OF assms(8)] by (simp_all add: lookup_body_def)
  have "snprintf 256 ?b = (?b, length ?b)" using b(1) by (simp add: snprintf_def)
  with respond_free [OF assms(5,2) _ _ b(2,3), of 200] b(1)
  show ?thesis
    using assms(1-4) by (simp add: frontend_handle_upstream_response_def del: not_None_eq flip: att_def)
qed

text \<open>Errors: another status of an upstream service is passed on to the client, a response without an id
  and a failed request upstream become a 502; the context is released each time.\<close>

lemma upstream_error_forwarded:
  assumes "fo_upstream ops u s = Some (Some c, Some x)" and "fo_get ops x s = Some ctx"
    and "resp_status_code resp \<noteq> 200" and "0 \<le> resp_status_code resp" and "resp_status_code resp < 1000" and "live s c"
    and "NUL \<notin> set (resp_body resp)" and "resp_body_len resp = length (resp_body resp)" and "0 < resp_body_len resp"
    and "resp_body_len resp < 4096"
  shows "\<exists>s'. frontend_handle_upstream_response ops u resp s = Some s' \<and> fo_get ops x s' = None
    \<and> answer s s' c = Some (resp_status_code resp, resp_body resp)"
  using respond_free [OF assms(6,2,4,5,7), of "resp_body_len resp"] assms by (simp add: frontend_handle_upstream_response_def)

lemma bad_id_response:
  assumes "fo_upstream ops u s = Some (Some c, Some x)" and "fo_get ops x s = Some ctx" and "fx_stage ctx = STAGE_WAITING_ID"
    and "resp_status_code resp = 200" and "parse_id (cstring (resp_body resp)) = None" and "live s c"
  shows "\<exists>s'. frontend_handle_upstream_response ops u resp s = Some s' \<and> fo_get ops x s' = None
    \<and> answer s s' c = Some (502, butlast (error_text ''bad id response''))"
  using respond_free [OF assms(6,2), of 502 "error_text ''bad id response''" 26] assms
  by (simp add: frontend_handle_upstream_response_def butlast_conv_take)

lemma upstream_response_answers:
  assumes "fo_upstream ops u s = Some (Some c, Some x)" and "fo_get ops x s = Some ctx" and "live s c" and "ctx_ok ctx"
    and "resp_ok resp" and "frontend_reply ctx resp = Some r"
  shows "\<exists>s'. frontend_handle_upstream_response ops u resp s = Some s' \<and> fo_get ops x s' = None \<and> answer s s' c = Some r"
proof (cases "resp_status_code resp = 200")
  case ok: True
  show ?thesis
  proof (cases "fx_stage ctx")
    case STAGE_WAITING_ID
    with ok assms(6) have p: "parse_id (cstring (resp_body resp)) = None" "r = (502, butlast (error_text ''bad id response''))"
      by (auto simp: frontend_reply_def split: option.splits)
    from bad_id_response [OF assms(1,2) STAGE_WAITING_ID ok p(1) assms(3)] p(2) show ?thesis by simp
  next
    case STAGE_WAITING_ATTEND
    with ok assms(6) have "r = (200, lookup_body (fx_name ctx) (fx_id ctx) (strstr (cstring (resp_body resp)) ''true'' \<noteq> None))"
      by (simp add: frontend_reply_def)
    with attend_response_answers [OF assms(1,2) STAGE_WAITING_ATTEND ok assms(3)] assms(4) show ?thesis
      by (simp add: ctx_ok_def)
  qed
next
  case False
  with assms(5,6) upstream_error_forwarded [OF assms(1,2) False _ _ assms(3)] show ?thesis
    by (auto simp: frontend_reply_def resp_ok_def)
qed

lemma lookup_upstream_fails:
  assumes "is_get req ''/lookup''" and "query_get (Some (cstring (req_query req))) (Some ''name'') 64 = Some name"
    and "name_ok name" and "live s c"
    and "fo_calloc ops \<lparr>fx_stage = STAGE_WAITING_ID, fx_name = name, fx_id = 0\<rparr> s = (Some x, s1)"
    and "fo_ask_id ops c name x s1 = Some (rc, s2)" and "rc < 0"
  shows "\<exists>s3 s'. frontend_handle_request ops c req s = Some s' \<and> fo_get ops x s' = None
    \<and> fo_free ops x s2 = Some s3 \<and> answer s3 s' c = Some (502, butlast (error_text ''upstream failed''))"
proof -
  have n: "fst (snprintf 64 name) = name" using assms(3) by (simp add: snprintf_def name_ok_def)
  have l: "live s2 c" using calloc_ok [OF assms(5)] assms(4) ask_id_fails [OF assms(6,7)] by blast
  have "fo_get ops x s2 = Some \<lparr>fx_stage = STAGE_WAITING_ID, fx_name = name, fx_id = 0\<rparr>"
    using calloc_ok [OF assms(5)] ask_id_ctx [OF assms(6)] by simp
  from free_respond [OF l this, of 502 "error_text ''upstream failed''" 26] show ?thesis
    using assms(1,2,5,6,7) by (auto simp: frontend_handle_request_def n butlast_conv_take)
qed

lemma attend_upstream_fails:
  assumes "fo_upstream ops u s = Some (Some c, Some x)" and "fo_get ops x s = Some ctx" and "fx_stage ctx = STAGE_WAITING_ID"
    and "resp_status_code resp = 200" and "parse_id (cstring (resp_body resp)) = Some i" and "live s c"
    and "fo_ask_attend ops c i x (fo_put ops x (ctx\<lparr>fx_id := i, fx_stage := STAGE_WAITING_ATTEND\<rparr>) s) = Some (rc, s2)"
    and "rc < 0"
  shows "\<exists>s'. frontend_handle_upstream_response ops u resp s = Some s' \<and> fo_get ops x s' = None
    \<and> answer s2 s' c = Some (502, butlast (error_text ''upstream failed''))"
proof -
  have l: "live s2 c" using put_keeps(2) [OF assms(6)] ask_attend_fails [OF assms(7,8)] by blast
  have g: "fo_get ops x s2 = Some (ctx\<lparr>fx_id := i, fx_stage := STAGE_WAITING_ATTEND\<rparr>)"
    using ask_attend_ctx [OF assms(7)] put_get by simp
  from respond_free [OF l g, of 502 "error_text ''upstream failed''" 26] show ?thesis
    using assms(1-5,7,8) by (simp add: frontend_handle_upstream_response_def butlast_conv_take)
qed

end

section \<open>Over TCP\<close>

text \<open>The upstream connection that carries a request: the next one of the heap, on a socket connected to the
  host and the port of the service.\<close>

fun tcp_peer :: "fe_config \<Rightarrow> callee \<Rightarrow> string \<times> string" where
  "tcp_peer cfg Id_Service = (id_host cfg, port_text (id_port cfg))"
| "tcp_peer cfg Attend_Service = (attend_host cfg, port_text (attend_port cfg))"

definition tcp_asked :: "'x tcp \<Rightarrow> 'x tcp \<Rightarrow> nat \<Rightarrow> nat \<Rightarrow> string \<times> string \<Rightarrow> string \<Rightarrow> string \<Rightarrow> bool" where
  "tcp_asked st st' a x peer path q \<longleftrightarrow> (\<exists>uc hs. t_conns st' = (t_conns st)(t_next st \<mapsto> uc)
     \<and> c_client_conn uc = Some a \<and> c_handler_ctx uc = Some x
     \<and> c_ev uc = Some On_Upstream_Connect \<and> c_wpos uc = 0 \<and> length (c_wbuf uc) = BUF_SIZE \<and> holds uc []
     \<and> take (c_wlen uc) (c_wbuf uc) = msg_head (request_line ''GET'' path (Some q)) hs None []
     \<and> c_wlen uc = length (msg_head (request_line ''GET'' path (Some q)) hs None []) \<and> c_wlen uc < BUF_SIZE
     \<and> head_ok (request_line ''GET'' path (Some q)) hs None [] \<and> target_ok ''GET'' path (Some q)
     \<and> t_net st = Connecting (c_fd uc) # t_net st' \<and> t_dialed st' = t_dialed st @ [(c_fd uc, peer)] \<and> t_sent st' = t_sent st \<and> t_ctxs st' = t_ctxs st
     \<and> t_next st' = Suc (t_next st) \<and> t_mem st' = t_mem st)"

definition cfg_ok :: "fe_config \<Rightarrow> bool" where
  "cfg_ok cfg \<longleftrightarrow> (\<forall>h \<in> {id_host cfg, attend_host cfg}. length h < 256 \<and> set h \<inter> {NUL, CR, LF} = {})"

definition heap_ok :: "'x tcp \<Rightarrow> bool" where
  "heap_ok st \<longleftrightarrow> (\<forall>b. t_conns st b \<noteq> None \<longrightarrow> b < t_next st)"

definition tcp_ready :: "fe_config \<Rightarrow> 'x tcp \<Rightarrow> nat \<Rightarrow> bool" where
  "tcp_ready cfg st a \<longleftrightarrow> cfg_ok cfg \<and> tcp_live st a \<and> heap_ok st \<and> t_mem st = []
     \<and> (\<exists>fd ns. t_net st = Connecting fd # ns)"

lemma upstream_head_ok:
  assumes "length path < 64" and "length q < 128" and "path \<noteq> []" and "length h < 256" and "set h \<inter> {NUL, CR, LF} = {}"
    and "set path \<inter> {NUL, CR, LF, SPC, CHR ''?''} = {}" and "set q \<inter> {NUL, CR, LF, SPC} = {}"
  shows "head_ok (request_line ''GET'' path (Some q)) [''Host: '' @ h, ''Connection: close''] None []"
    and "target_ok ''GET'' path (Some q)"
    and "length (msg_head (request_line ''GET'' path (Some q)) [''Host: '' @ h, ''Connection: close''] None []) < BUF_SIZE"
proof -
  have "other_line ''Connection: close''" by code_simp
  moreover have "other_line (''Host: '' @ h)" by (simp add: other_line_def eq_nocase_def tolower_def)
  moreover have "other_line (request_line ''GET'' path (Some q))"
    by (simp add: other_line_def request_line_def eq_nocase_def tolower_def)
  ultimately show "head_ok (request_line ''GET'' path (Some q)) [''Host: '' @ h, ''Connection: close''] None []"
    using assms(5-7) by (simp add: head_ok_def announced_def) (simp add: line_ok_def request_line_def)
  show "target_ok ''GET'' path (Some q)" using assms by (simp add: target_ok_def)
  show "length (msg_head (request_line ''GET'' path (Some q)) [''Host: '' @ h, ''Connection: close''] None []) < BUF_SIZE"
    using assms(1,2,4) by (simp add: msg_head_def request_line_def BUF_SIZE_def)
qed

lemma start_upstream_asks:
  assumes "tcp_ready cfg st a" and "length path < 64" and "length q < 128" and "path \<noteq> []" and "length h < 256"
    and "set h \<inter> {NUL, CR, LF} = {}"
    and "set path \<inter> {NUL, CR, LF, SPC, CHR ''?''} = {}" and "set q \<inter> {NUL, CR, LF, SPC} = {}"
  shows "\<exists>st'. conn_start_upstream a h port ''GET'' (fst (snprintf 256 (path @ ''?'' @ q))) x st = Some (0, st')
    \<and> tcp_asked st st' a x (h, port_text port) path q"
proof -
  let ?t = "msg_head (request_line ''GET'' path (Some q)) [''Host: '' @ h, ''Connection: close''] None []"
  note ok = upstream_head_ok [OF assms(2-8)]
  obtain fd ns c where st: "t_net st = Connecting fd # ns" "t_mem st = []" "t_conns st a = Some c"
    using assms(1) by (cases "t_net st") (auto simp: tcp_ready_def tcp_live_def split: option.splits)
  have p: "fst (snprintf 256 (path @ ''?'' @ q)) = path @ ''?'' @ q" using assms(2,3) by (simp add: snprintf_def)
  have t: "upstream_text ''GET'' (path @ ''?'' @ q) h = ?t"
    by (simp add: upstream_text_def msg_head_def request_line_def)
  let ?uc = "(blank_conn fd)\<lparr>c_client_conn := Some a, c_handler_ctx := Some x,
    c_wbuf := store_text (replicate BUF_SIZE NUL) ?t, c_wlen := length ?t, c_wpos := 0, c_ev := Some On_Upstream_Connect\<rparr>"
  let ?st = "st\<lparr>t_net := ns, t_dialed := t_dialed st @ [(fd, h, port_text port)], t_conns := (t_conns st)(t_next st \<mapsto> ?uc), t_next := Suc (t_next st)\<rparr>"
  have s: "snprintf BUF_SIZE ?t = (?t, length ?t)" using ok(3) by (simp add: snprintf_def)
  have r: "conn_start_upstream a h port ''GET'' (fst (snprintf 256 (path @ ''?'' @ q))) x st = Some (0, ?st)"
    unfolding p t conn_start_upstream_def s using st
    by (simp add: conn_alloc_def calloc_ok_def put_conn_def t s del: append.simps)
  have h: "holds ?uc []" using holds_blank [of fd] by (simp add: holds_def blank_conn_def)
  have "length (c_wbuf ?uc) = BUF_SIZE" using ok(3) by (simp add: length_store_text)
  then have "tcp_asked st ?st a x (h, port_text port) path q"
    unfolding tcp_asked_def using ok st(1) h
    by (intro exI [of _ ?uc] exI [of _ "[''Host: '' @ h, ''Connection: close'']"])
      (simp add: store_text_def blank_conn_def)
  with r show ?thesis by blast
qed

lemma show_int_chars: "c \<in> set (show_int v) \<Longrightarrow> isdigit c \<or> c = CHR ''-''"
  by (auto simp: show_int_def isdigit_show_nat split: if_splits)

lemma show_int_no [simp]:
  "NUL \<notin> set (show_int v)" "CR \<notin> set (show_int v)" "LF \<notin> set (show_int v)" "SPC \<notin> set (show_int v)"
  "DQ \<notin> set (show_int v)" "CHR ''&'' \<notin> set (show_int v)"
  using show_int_chars [of _ v] by (auto dest!: show_int_chars simp: isdigit_def digit_val_def)

lemma tcp_respond_frame: "tcp_respond c status body n st = Some st' \<Longrightarrow> t_ctxs st' = t_ctxs st"
  by (auto simp: tcp_respond_def conn_start_response_def put_conn_def split_beta)

lemma start_upstream_frame:
  assumes "conn_start_upstream a h port m path x st = Some (rc, st')"
  shows "t_ctxs st' = t_ctxs st" and "rc < 0 \<Longrightarrow> t_conns st' = t_conns st"
  using assms
  by (auto simp: conn_start_upstream_def conn_alloc_def calloc_ok_def put_conn_def Let_def split_beta
      split: list.splits net_result.splits option.splits if_splits bind_splits)

lemma tcp_ctx_calloc_frame:
  assumes "tcp_ctx_calloc v st = (r, st')"
  shows "tcp_live st' a = tcp_live st a" and "tcp_ready cfg st a \<Longrightarrow> tcp_ready cfg st' a"
    and "r = Some x \<Longrightarrow> t_ctxs st' x = Some v"
  using assms
  by (auto simp: tcp_ctx_calloc_def calloc_ok_def tcp_live_def tcp_ready_def heap_ok_def split: list.splits if_splits)

interpretation fe_tcp: frontend_transport "tcp_fe_ops cfg" tcp_live tcp_answer "tcp_ready cfg" "\<lambda>s s' c x cl. tcp_asked s s' c x (tcp_peer cfg cl)"
proof unfold_locales
  fix s :: "frontend_ctx tcp" and c n :: nat and status :: int and body :: string
  assume "tcp_live s c" "0 \<le> status" "status < 1000" "NUL \<notin> set body" "0 < n" "n \<le> length body" "n < 4096"
  from over_tcp.respond_answers [OF this]
  show "\<exists>s'. fo_respond (tcp_fe_ops cfg) c status body n s = Some s' \<and> tcp_answer s s' c = Some (status, take n body)"
    by (simp add: tcp_fe_ops_def)
next
  fix s :: "frontend_ctx tcp" and c x name
  assume r: "tcp_ready cfg s c" and n: "name_ok name"
  have "\<exists>s'. conn_start_upstream c (id_host cfg) (id_port cfg) ''GET''
      (fst (snprintf 256 (''/id'' @ ''?'' @ ''name='' @ name))) x s = Some (0, s') \<and> tcp_asked s s' c x (tcp_peer cfg Id_Service) ''/id'' (''name='' @ name)"
    unfolding tcp_peer.simps using r n by (intro start_upstream_asks [OF r]) (auto simp: tcp_ready_def cfg_ok_def name_ok_def)
  then show "\<exists>s'. fo_ask_id (tcp_fe_ops cfg) c name x s = Some (0, s') \<and> tcp_asked s s' c x (tcp_peer cfg Id_Service) ''/id'' (''name='' @ name)"
    by (simp add: tcp_fe_ops_def)
next
  fix s :: "frontend_ctx tcp" and c x and i :: int
  assume r: "tcp_ready cfg s c" and i: "in_i32 i"
  have "\<exists>s'. conn_start_upstream c (attend_host cfg) (attend_port cfg) ''GET''
      (fst (snprintf 256 (''/attend'' @ ''?'' @ ''id='' @ show_int i))) x s = Some (0, s')
      \<and> tcp_asked s s' c x (tcp_peer cfg Attend_Service) ''/attend'' (''id='' @ show_int i)"
    unfolding tcp_peer.simps using r length_show_int [OF i] by (intro start_upstream_asks [OF r]) (auto simp: tcp_ready_def cfg_ok_def)
  then show "\<exists>s'. fo_ask_attend (tcp_fe_ops cfg) c i x s = Some (0, s') \<and> tcp_asked s s' c x (tcp_peer cfg Attend_Service) ''/attend'' (''id='' @ show_int i)"
    by (simp add: tcp_fe_ops_def)
qed (auto simp: tcp_fe_ops_def tcp_ready_def tcp_live_def tcp_answer_def heap_ok_def
  dest: tcp_respond_frame start_upstream_frame tcp_ctx_calloc_frame)

section \<open>The frontend over TCP\<close>

text \<open>C16. An upstream response that ends a lookup, over TCP: another status than 200 is passed on with its
  body, a response without an id is answered with 502, and the attendance with the assembled object;
  in each case the client's connection is set to send exactly that and the context is freed.\<close>

theorem frontend_answers:
  assumes "t_conns st u = Some uc" and "c_client_conn uc = Some a" and "c_handler_ctx uc = Some x"
    and "t_ctxs st x = Some ctx" and "tcp_live st a" and "ctx_ok ctx" and "resp_ok resp" and "frontend_reply ctx resp = Some r"
  shows "\<exists>st'. frontend_upstream cfg u resp st = Some st' \<and> t_ctxs st' x = None \<and> tcp_answer st st' a = Some r"
proof -
  have "fo_upstream (tcp_fe_ops cfg) u st = Some (Some a, Some x)" "fo_get (tcp_fe_ops cfg) x st = Some ctx"
    using assms(1-4) by (simp_all add: tcp_fe_ops_def)
  from fe_tcp.upstream_response_answers [OF this assms(5-8)] show ?thesis
    by (simp add: frontend_upstream_def) (simp add: tcp_fe_ops_def)
qed

definition demo_waiting :: "frontend_ctx tcp" where
  "demo_waiting = \<lparr>t_conns = [0 \<mapsto> blank_conn 7, 1 \<mapsto> (blank_conn 8)\<lparr>c_client_conn := Some 0, c_handler_ctx := Some 0\<rparr>],
     t_next = 2, t_ctxs = [0 \<mapsto> \<lparr>fx_stage = STAGE_WAITING_ID, fx_name = ''bob'', fx_id = 0\<rparr>], t_next_ctx = 1,
     t_mem = [], t_net = [], t_dialed = [], t_sent = (\<lambda>_. []), t_closed = []\<rparr>"

theorem frontend_answers_witness:
  "\<exists>st'. frontend_upstream (fe_main_config (\<lambda>_. None)) 1 (parsed_response 404 ''gone'') demo_waiting = Some st'
     \<and> t_ctxs st' 0 = None \<and> tcp_answer demo_waiting st' 0 = Some (404, ''gone'')"
  by (rule frontend_answers [where uc = "(blank_conn 8)\<lparr>c_client_conn := Some 0, c_handler_ctx := Some 0\<rparr>"
        and ctx = "\<lparr>fx_stage = STAGE_WAITING_ID, fx_name = ''bob'', fx_id = 0\<rparr>"])
    (simp_all add: demo_waiting_def tcp_live_def blank_conn_def ctx_ok_def resp_ok_def parsed_response_def BODY_SIZE_def
      frontend_reply_def in_i32_def)

end
