(* ===== verification/Event_Loop.thy ===== *)
theory Event_Loop
  imports Services "HOL-Library.Multiset"
begin

text \<open>
  The event loop of a server over TCP (\<open>epoll_run\<close> and \<open>tcp_listen_start\<close> of \<open>common/tcp_handler.c\<close>):
  libevent calls the callback that is registered for a ready descriptor, in any order and with any
  outcome of the system calls. For handlers that answer at once, as those of the leaf services, the
  loop keeps its connections well formed, never touches a freed connection and neither leaks a
  descriptor nor closes one twice.
\<close>

section \<open>The loop\<close>

text \<open>One event on a connection: the registered callback runs. For a connecting socket \<open>Io_Error\<close> stands
  for a nonzero \<open>SO_ERROR\<close>. A response of the mesh is never awaited on a TCP connection.\<close>

definition dispatch :: "'x request_handler \<Rightarrow> 'x upstream_handler \<Rightarrow> nat \<Rightarrow> io_result \<Rightarrow> 'x tcp \<Rightarrow> 'x tcp option" where
  "dispatch h g a io st = do {
     c \<leftarrow> t_conns st a;
     case c_ev c of
       Some On_Client_Read \<Rightarrow> on_client_read_cb h a io st
     | Some On_Client_Write \<Rightarrow> on_client_write_cb a io st
     | Some On_Upstream_Connect \<Rightarrow> on_upstream_connect_cb a (io \<noteq> Io_Error) st
     | Some On_Upstream_Write \<Rightarrow> on_upstream_write_cb a io st
     | Some On_Upstream_Read \<Rightarrow> on_upstream_read_cb g a io st
     | _ \<Rightarrow> Some st
   }"

definition owned :: "'x tcp \<Rightarrow> int \<Rightarrow> bool" where
  "owned st fd \<longleftrightarrow> (\<exists>a c. t_conns st a = Some c \<and> c_fd c = fd)"

text \<open>The states of the loop with the descriptors accepted so far. The kernel never hands out a
  descriptor that is open; the accepting callback is a sequence of single accepts.\<close>

inductive served :: "'x request_handler \<Rightarrow> 'x upstream_handler \<Rightarrow> int list \<Rightarrow> 'x tcp \<Rightarrow> bool" for h g where
  served_start: "t_conns st = Map.empty \<Longrightarrow> t_closed st = [] \<Longrightarrow> served h g [] st"
| served_accept: "served h g acc st \<Longrightarrow> 0 \<le> fd \<Longrightarrow> \<not> owned st fd \<Longrightarrow> served h g (fd # acc) (on_accept_cb [fd] st)"
| served_event: "served h g acc st \<Longrightarrow> dispatch h g a io st = Some st' \<Longrightarrow> served h g acc st'"

text \<open>A server without connections.\<close>

definition idle_server :: "unit tcp" where
  "idle_server = \<lparr>t_conns = Map.empty, t_next = 0, t_ctxs = Map.empty, t_next_ctx = 0, t_mem = [], t_net = [], t_dialed = [],
     t_sent = (\<lambda>_. []), t_closed = []\<rparr>"

lemma on_accept_append: "on_accept_cb (fds @ fds') st = on_accept_cb fds' (on_accept_cb fds st)"
  by (induction fds st rule: on_accept_cb.induct) (auto split: prod.splits option.splits)

section \<open>Well formed connections\<close>

text \<open>The invariant of a connection of a leaf service: it waits for the rest of a request, or a part of its
  response is still to be written.\<close>

definition conn_ok :: "conn \<Rightarrow> bool" where
  "conn_ok c \<longleftrightarrow> 0 \<le> c_fd c \<and> length (c_rbuf c) = BUF_SIZE \<and> c_rlen c < BUF_SIZE \<and> length (c_wbuf c) = BUF_SIZE
     \<and> (c_ev c = Some On_Client_Read \<or> c_ev c = Some On_Client_Write \<and> c_wpos c \<le> c_wlen c \<and> c_wlen c < BUF_SIZE)"

definition loop_ok :: "'x tcp \<Rightarrow> bool" where
  "loop_ok st \<longleftrightarrow> (\<forall>a c. t_conns st a = Some c \<longrightarrow> a < t_next st \<and> conn_ok c)
     \<and> (\<forall>a b c d. t_conns st a = Some c \<longrightarrow> t_conns st b = Some d \<longrightarrow> c_fd c = c_fd d \<longrightarrow> a = b)"

text \<open>Every accepted descriptor is owned by a connection or was closed, once for each time it was accepted.\<close>

definition accounted :: "int list \<Rightarrow> 'x tcp \<Rightarrow> bool" where
  "accounted acc st \<longleftrightarrow> (\<forall>fd. count (mset acc) fd = count (mset (t_closed st)) fd + (if owned st fd then 1 else 0))"

lemma loop_ok_put:
  assumes "loop_ok st" and "t_conns st a = Some c" and "conn_ok c'" and "c_fd c' = c_fd c"
  shows "loop_ok (put_conn a c' st)" and "owned (put_conn a c' st) fd = owned st fd"
proof -
  show "loop_ok (put_conn a c' st)" using assms by (auto simp: loop_ok_def put_conn_def)
  show "owned (put_conn a c' st) fd = owned st fd" using assms(2,4) unfolding owned_def t_conns_put by (metis option.inject)
qed

lemma loop_ok_free:
  assumes "loop_ok st" and "t_conns st a = Some c" and "conn_free a st = Some st'"
  shows "loop_ok st'" and "owned st' fd \<longleftrightarrow> owned st fd \<and> fd \<noteq> c_fd c" and "t_closed st' = c_fd c # t_closed st"
proof -
  have e: "st' = st\<lparr>t_conns := (t_conns st)(a := None), t_closed := c_fd c # t_closed st\<rparr>"
    using assms by (auto simp: conn_free_def loop_ok_def conn_ok_def)
  show "loop_ok st'" using assms(1) by (auto simp: e loop_ok_def)
  have u: "c_fd d \<noteq> c_fd c" if "t_conns st b = Some d" "b \<noteq> a" for b d
    using assms(1,2) that unfolding loop_ok_def by blast
  have "(\<exists>d. t_conns st' b = Some d \<and> c_fd d = fd) \<longleftrightarrow> (\<exists>d. t_conns st b = Some d \<and> c_fd d = fd) \<and> fd \<noteq> c_fd c" for b
    using assms(2) by (cases "b = a") (auto simp: e dest: u)
  then show "owned st' fd \<longleftrightarrow> owned st fd \<and> fd \<noteq> c_fd c" unfolding owned_def by simp
  show "t_closed st' = c_fd c # t_closed st" by (simp add: e)
qed

lemma accounted_free:
  assumes "loop_ok st" and "accounted acc st" and "t_conns st a = Some c" and "conn_free a st = Some st'"
  shows "loop_ok st' \<and> accounted acc st'"
  using loop_ok_free [OF assms(1,3,4)] assms(2,3) by (auto simp: accounted_def owned_def split: if_splits)

lemma accounted_put:
  assumes "loop_ok st" and "accounted acc st" and "t_conns st a = Some c" and "conn_ok c'" and "c_fd c' = c_fd c"
  shows "loop_ok (put_conn a c' st) \<and> accounted acc (put_conn a c' st)"
  using loop_ok_put [OF assms(1,3,4,5)] assms(2) by (simp add: accounted_def)

lemma accept_keeps:
  assumes "loop_ok st" and "accounted acc st" and "0 \<le> fd" and "\<not> owned st fd"
  shows "loop_ok (on_accept_cb [fd] st) \<and> accounted (fd # acc) (on_accept_cb [fd] st)"
proof -
  obtain ok st1 where m: "calloc_ok st = (ok, st1)" by (rule prod.exhaust)
  have f: "t_conns st1 = t_conns st" "t_next st1 = t_next st" "t_closed st1 = t_closed st"
    using m by (auto simp: calloc_ok_def split: list.splits)
  have "conn_ok ((blank_conn fd)\<lparr>c_ev := Some On_Client_Read\<rparr>)"
    using assms(3) by (simp add: conn_ok_def blank_conn_def BUF_SIZE_def)
  then show ?thesis
    using assms f
    by (auto simp: conn_alloc_def m loop_ok_def accounted_def owned_def put_conn_def blank_conn_def less_Suc_eq
        split: if_splits) (metis less_irrefl_nat)+
qed

lemma conn_read_ok:
  assumes "conn_ok c" and "conn_read c bs = Some c'"
  shows "conn_ok c' \<and> c_fd c' = c_fd c"
  using assms by (auto simp: conn_read_def conn_ok_def Let_def split: if_splits)

text \<open>What a response leaves in a connection.\<close>

definition answers_in :: "conn \<Rightarrow> conn \<Rightarrow> bool" where
  "answers_in c c' \<longleftrightarrow> c_fd c' = c_fd c \<and> c_rbuf c' = c_rbuf c \<and> c_rlen c' = c_rlen c \<and> length (c_wbuf c') = BUF_SIZE
     \<and> c_wpos c' = 0 \<and> c_wlen c' < BUF_SIZE \<and> c_ev c' = Some On_Client_Write"

lemma start_response_answers:
  assumes "t_conns st a = Some c" and "length (c_wbuf c) = BUF_SIZE" and "in_i32 status" and "n \<le> 7168"
  shows "\<exists>c'. conn_start_response a status body n st = Some (put_conn a c' st) \<and> answers_in c c'"
proof -
  obtain t m where tm: "http_format_response BUF_SIZE status body n = (t, m)" by (rule prod.exhaust)
  from http_format_response_length [OF assms(3,4) tm [unfolded BUF_SIZE_def]]
  have "m < BUF_SIZE" "length t = m" by (simp_all add: BUF_SIZE_def)
  then show ?thesis
    using assms(1,2)
    by (intro exI [of _ "c\<lparr>c_wbuf := store_text (c_wbuf c) t, c_wlen := m, c_wpos := 0, c_ev := Some On_Client_Write\<rparr>"])
      (simp add: conn_start_response_def tm answers_in_def length_store_text)
qed

lemma answers_conn_ok: "conn_ok c \<Longrightarrow> answers_in c c' \<Longrightarrow> conn_ok c'"
  by (simp add: conn_ok_def answers_in_def)

lemma sent_frame [simp]:
  "loop_ok (st\<lparr>t_sent := x\<rparr>) = loop_ok st" "accounted acc (st\<lparr>t_sent := x\<rparr>) = accounted acc st"
  by (simp_all add: loop_ok_def accounted_def owned_def)

lemma free_keeps:
  assumes "loop_ok st" and "accounted acc st" and "t_conns st a = Some c"
  shows "\<exists>st'. conn_free a st = Some st' \<and> loop_ok st' \<and> accounted acc st'"
  using accounted_free [OF assms] assms(3) by (simp add: conn_free_def)

lemma client_write_keeps:
  assumes "loop_ok st" and "accounted acc st" and "t_conns st a = Some c" and "c_ev c = Some On_Client_Write"
  shows "\<exists>st'. on_client_write_cb a io st = Some st' \<and> loop_ok st' \<and> accounted acc st'"
proof (cases "\<exists>k. io = Io_Wrote k")
  case True
  then obtain k where k: "io = Io_Wrote k" by blast
  have ok: "conn_ok c" using assms(1,3) by (auto simp: loop_ok_def)
  let ?n = "min k (c_wlen c - c_wpos c)"
  let ?s = "st\<lparr>t_sent := (t_sent st)(c_fd c := t_sent st (c_fd c) @ take ?n (drop (c_wpos c) (c_wbuf c)))\<rparr>"
  let ?c = "c\<lparr>c_wpos := c_wpos c + ?n\<rparr>"
  have w: "conn_write c k st = Some (?n, ?s)" using ok assms(4) by (simp add: conn_write_def conn_ok_def Let_def)
  have "conn_ok ?c" using ok assms(4) by (auto simp: conn_ok_def)
  then have p: "loop_ok (put_conn a ?c ?s)" "accounted acc (put_conn a ?c ?s)"
    using accounted_put [of ?s acc a c ?c] assms(1-3) by simp_all
  then show ?thesis
    using free_keeps [OF p, of a ?c] assms(3) by (auto simp: on_client_write_cb_def k w Let_def)
next
  case False
  then show ?thesis using free_keeps [OF assms(1-3)] assms by (cases io) (auto simp: on_client_write_cb_def)
qed

lemma http_parse_request_ret: "http_parse_request buf n = Some (ret, req) \<Longrightarrow> ret = 0 \<or> ret = 1"
  by (auto simp: http_parse_request_def bind_eq_Some_conv Let_def split: option.splits if_splits)

text \<open>The data that arrives makes the request parser read outside the receive buffer.\<close>

definition overread :: "conn \<Rightarrow> io_result \<Rightarrow> bool" where
  "overread c io \<longleftrightarrow> (case io of
     Io_Data bs \<Rightarrow> (case conn_read c bs of None \<Rightarrow> False | Some c' \<Rightarrow> http_parse_request (c_rbuf c') (c_rlen c') = None)
   | _ \<Rightarrow> False)"

text \<open>A state of the loop in which every event but such a one finds its memory.\<close>

definition safe_state :: "'x request_handler \<Rightarrow> 'x upstream_handler \<Rightarrow> int list \<Rightarrow> 'x tcp \<Rightarrow> bool" where
  "safe_state h g acc st \<longleftrightarrow> loop_ok st \<and> accounted acc st
     \<and> (\<forall>a c io. t_conns st a = Some c \<longrightarrow> dispatch h g a io st = None \<longrightarrow> c_ev c = Some On_Client_Read \<and> overread c io)"

section \<open>Handlers that answer at once\<close>

text \<open>The contract of a leaf service's handler, for the stores it is made for: it sets the connection up to
  send a response that fits the buffer, and changes nothing else.\<close>

locale leaf_handlers =
  fixes h :: "kv_store \<Rightarrow> 'x request_handler" and good :: "kv_store \<Rightarrow> bool"
  assumes answers_at_once: "good store \<Longrightarrow> t_conns st a = Some c \<Longrightarrow> length (c_wbuf c) = BUF_SIZE \<Longrightarrow>
    \<exists>c'. h store a req st = Some (put_conn a c' st) \<and> answers_in c c'"
begin

lemma handler_keeps:
  assumes "good store" and "loop_ok st" and "accounted acc st" and "t_conns st a = Some c"
  shows "\<exists>st'. h store a req st = Some st' \<and> loop_ok st' \<and> accounted acc st'"
proof -
  have ok: "conn_ok c" using assms(2,4) by (auto simp: loop_ok_def)
  then obtain c' where c: "h store a req st = Some (put_conn a c' st)" "answers_in c c'"
    using answers_at_once [OF assms(1,4)] by (auto simp: conn_ok_def)
  then show ?thesis
    using accounted_put [OF assms(2-4) answers_conn_ok [OF ok c(2)]] by (simp add: answers_in_def)
qed

lemma client_read_keeps:
  assumes "good store" and "loop_ok st" and "accounted acc st" and "t_conns st a = Some c"
  shows "overread c io \<or> (\<exists>st'. on_client_read_cb (h store) a io st = Some st' \<and> loop_ok st' \<and> accounted acc st')"
proof (cases "\<exists>bs c'. io = Io_Data bs \<and> conn_read c bs = Some c'")
  case False
  then have "on_client_read_cb (h store) a io st = conn_free a st"
    using assms(4) by (cases io) (auto simp: on_client_read_cb_def)
  then show ?thesis using free_keeps [OF assms(2-4)] by simp
next
  case True
  then obtain bs c' where b: "io = Io_Data bs" "conn_read c bs = Some c'" by blast
  let ?s = "put_conn a c' st"
  have "conn_ok c" using assms(2,4) by (auto simp: loop_ok_def)
  from conn_read_ok [OF this b(2)] have p: "loop_ok ?s" "accounted acc ?s"
    using accounted_put [OF assms(2-4)] by simp_all
  show ?thesis
  proof (cases "http_parse_request (c_rbuf c') (c_rlen c')")
    case (Some r)
    obtain ret req where r: "r = (ret, req)" by (rule prod.exhaust)
    with Some http_parse_request_ret have "ret = 0 \<or> ret = 1" by blast
    then show ?thesis
      using assms(4) b p Some r handler_keeps [OF assms(1) p, of a c' req] by (auto simp: on_client_read_cb_def)
  qed (use b in \<open>simp add: overread_def\<close>)
qed

lemma dispatch_keeps:
  assumes "good store" and "loop_ok st" and "accounted acc st" and "t_conns st a = Some c"
  shows "overread c io \<and> c_ev c = Some On_Client_Read
    \<or> (\<exists>st'. dispatch (h store) g a io st = Some st' \<and> loop_ok st' \<and> accounted acc st')"
proof -
  have "conn_ok c" using assms(2,4) by (auto simp: loop_ok_def)
  then consider "c_ev c = Some On_Client_Read" | "c_ev c = Some On_Client_Write" by (auto simp: conn_ok_def)
  then show ?thesis
  proof cases
    case 1
    then show ?thesis using client_read_keeps [OF assms, of io] assms(4) by (simp add: dispatch_def)
  next
    case 2
    then show ?thesis using client_write_keeps [OF assms(2-4), of io] assms(4) by (simp add: dispatch_def)
  qed
qed

lemma overread_stuck:
  assumes "overread c io" and "c_ev c = Some On_Client_Read" and "t_conns st a = Some c"
  shows "dispatch (h store) g a io st = None"
  using assms by (cases io) (auto simp: overread_def dispatch_def on_client_read_cb_def split: option.splits)

lemma served_keeps:
  assumes "good store" and "served (h store) g acc st"
  shows "loop_ok st \<and> accounted acc st"
  using assms(2)
proof induction
  case (served_start st)
  then show ?case by (simp add: loop_ok_def accounted_def owned_def)
next
  case (served_accept acc st fd)
  then show ?case using accept_keeps by blast
next
  case (served_event acc st a io st')
  obtain c where c: "t_conns st a = Some c" using served_event(2) by (auto simp: dispatch_def bind_eq_Some_conv)
  from served_event dispatch_keeps [OF assms(1) _ _ c, of acc io g] overread_stuck [OF _ _ c, of io store g]
  show ?case by auto
qed

text \<open>The whole loop: no descriptor is lost or closed twice, and an event can only fail by the request
  parser's reading outside its buffer.\<close>

lemma loop_safe:
  assumes "good store" and "served (h store) g acc st"
  shows "safe_state (h store) g acc st"
proof -
  note k = served_keeps [OF assms]
  have "c_ev c = Some On_Client_Read \<and> overread c io"
    if "t_conns st a = Some c" "dispatch (h store) g a io st = None" for a c io
    using dispatch_keeps [OF assms(1), of st acc a c io g] k that by auto
  with k show ?thesis by (simp add: safe_state_def)
qed

end

lemma announced_answers:
  assumes "announces r body n" and "t_conns st a = Some c" and "length (c_wbuf c) = BUF_SIZE"
  shows "\<exists>c'. tcp_respond a (fst r) body n st = Some (put_conn a c' st) \<and> answers_in c c'"
  using start_response_answers [OF assms(2,3)] assms(1) by (simp add: tcp_respond_def announces_def in_i32_def)

interpretation id_loop: leaf_handlers id_service kv_store_wf
proof
  fix store and st :: "'x tcp" and a c req
  assume a: "kv_store_wf store" "t_conns st a = Some c" "length (c_wbuf c) = BUF_SIZE"
  show "\<exists>c'. id_service store a req st = Some (put_conn a c' st) \<and> answers_in c c'"
    by (rule id_responds [OF a(1), of tcp_respond a req st]) (simp add: id_service_def announced_answers a(2,3))
qed

interpretation attend_loop: leaf_handlers attend_service "\<lambda>_. True"
proof
  fix store and st :: "'x tcp" and a c req
  assume a: "t_conns st a = Some c" "length (c_wbuf c) = BUF_SIZE"
  show "\<exists>c'. attend_service store a req st = Some (put_conn a c' st) \<and> answers_in c c'"
    by (rule attend_responds [of tcp_respond store a req st]) (simp add: attend_service_def announced_answers a)
qed

section \<open>The leaf services\<close>

text \<open>Whatever clients send, in whatever pieces and order, and whatever the system calls return, a leaf
  service over TCP never uses a freed connection and never writes outside a buffer: an event fails
  only when the request parser reads past the receive buffer. Every descriptor that was accepted
  belongs to exactly one live connection or has been closed, never twice.\<close>

theorem leaf_loops_safe:
  assumes "kv_store_wf ids" and "served (id_service ids) g acc st" and "served (attend_service attendance) g' acc' st'"
  shows "safe_state (id_service ids) g acc st \<and> safe_state (attend_service attendance) g' acc' st'"
  using id_loop.loop_safe [OF assms(1,2)] attend_loop.loop_safe [OF TrueI assms(3)] by blast

theorem leaf_loops_safe_witness:
  "\<exists>st :: unit tcp. served (id_service \<lparr>entries = []\<rparr>) (\<lambda>_ _ s. Some s) [7] st \<and> t_closed st = [7]
     \<and> safe_state (id_service \<lparr>entries = []\<rparr>) (\<lambda>_ _ s. Some s) [7] st"
proof -
  let ?h = "id_service \<lparr>entries = []\<rparr> :: unit request_handler" and ?g = "\<lambda>_ _ s. Some s :: unit tcp option"
  have s0: "served h ?g [] idle_server" for h by (rule served_start) (simp_all add: idle_server_def)
  have s1: "served ?h ?g [7] (on_accept_cb [7] idle_server)" by (rule served_accept [OF s0]) (simp_all add: owned_def idle_server_def)
  obtain st where st: "dispatch ?h ?g 0 Io_Error (on_accept_cb [7] idle_server) = Some st" "t_closed st = [7]"
    by (simp add: dispatch_def idle_server_def conn_alloc_def calloc_ok_def put_conn_def blank_conn_def on_client_read_cb_def conn_free_def)
  note s2 = served_event [OF s1 st(1)]
  have "kv_store_wf \<lparr>entries = []\<rparr>" by (simp add: kv_store_wf_def)
  from leaf_loops_safe [OF this s2 s0, of "\<lparr>entries = []\<rparr>"] s2 st(2) show ?thesis by blast
qed

end
