(* ===== verification/Lookup.thy ===== *)
theory Lookup
  imports Frontend Event_Loop
begin

text \<open>
  The three programs together over TCP: a client's lookup at the frontend, its two upstream requests,
  the answers of the two leaf services, and the answer to the client. Every process runs its own
  callbacks; the bytes one process has written to a socket are what its peer reads.
\<close>

section \<open>Exchanges\<close>

text \<open>A leaf service accepts a connection, reads a request and writes its response.\<close>

definition serve :: "unit request_handler \<Rightarrow> string \<Rightarrow> string option" where
  "serve handler msg = do {
     st1 \<leftarrow> on_client_read_cb handler 0 (Io_Data msg) (on_accept_cb [7] idle_server);
     c \<leftarrow> t_conns st1 0;
     st2 \<leftarrow> on_client_write_cb 0 (Io_Wrote (c_wlen c)) st1;
     Some (t_sent st2 7)
   }"

text \<open>An upstream connection connects, writes its request, and reads the response of the service.\<close>

definition exchange :: "'x upstream_handler \<Rightarrow> unit request_handler \<Rightarrow> nat \<Rightarrow> 'x tcp \<Rightarrow> 'x tcp option" where
  "exchange uhandler handler u st = do {
     uc \<leftarrow> t_conns st u;
     st1 \<leftarrow> on_upstream_connect_cb u True st;
     st2 \<leftarrow> on_upstream_write_cb u (Io_Wrote (c_wlen uc)) st1;
     reply \<leftarrow> serve handler (t_sent st2 (c_fd uc));
     on_upstream_read_cb uhandler u (Io_Data reply) st2
   }"

definition tcp_lookup :: "fe_config \<Rightarrow> kv_store \<Rightarrow> kv_store \<Rightarrow> nat \<Rightarrow> string \<Rightarrow> frontend_ctx tcp \<Rightarrow> frontend_ctx tcp option" where
  "tcp_lookup cfg ids attendance a msg st = do {
     st1 \<leftarrow> on_client_read_cb (frontend cfg) a (Io_Data msg) st;
     st2 \<leftarrow> exchange (frontend_upstream cfg) (id_service ids) (t_next st) st1;
     st3 \<leftarrow> exchange (frontend_upstream cfg) (attend_service attendance) (t_next st1) st2;
     c \<leftarrow> t_conns st3 a;
     on_client_write_cb a (Io_Wrote (c_wlen c)) st3
   }"

section \<open>The values passed between the services\<close>

lemma attend_body_true: "strstr (attend_body v) ''true'' \<noteq> None \<longleftrightarrow> v \<noteq> 0"
  by (simp add: attend_body_def)

lemma query_name: "name_ok name \<Longrightarrow> query_get (Some (''name='' @ name)) (Some ''name'') 64 = Some name"
  using query_scan_find_param [of "''name''" "''name='' @ name" 64] by (simp add: query_get_def name_ok_def)

lemma query_id: "in_i32 i \<Longrightarrow> query_get (Some (''id='' @ show_int i)) (Some ''id'') 32 = Some (show_int i)"
  using query_scan_find_param [of "''id''" "''id='' @ show_int i" 32] length_show_int [of i]
  by (simp add: query_get_def)

lemma lookup_parsed:
  assumes "name_ok name"
  shows "is_get (parsed_request ''GET'' path (Some (''name='' @ name)) body) path' \<longleftrightarrow> cstring path = path'"
    and "query_get (Some (cstring (req_query (parsed_request ''GET'' path (Some (''name='' @ name)) body)))) (Some ''name'') 64
      = Some name"
proof -
  have "NUL \<notin> set name" using assms by (simp add: name_ok_def)
  then show "query_get (Some (cstring (req_query (parsed_request ''GET'' path (Some (''name='' @ name)) body)))) (Some ''name'') 64
      = Some name" using query_name [OF assms] by (simp add: parsed_request_def)
qed (simp add: is_get_def parsed_request_def)

text \<open>The leaf services on the requests of the frontend.\<close>

lemma id_service_hit:
  assumes "name_ok name" and "kv_store_get store name = Some i" and "in_i32 i"
  shows "id_service store a (parsed_request ''GET'' ''/id'' (Some (''name='' @ name)) body)
    = tcp_respond a 200 (id_body i) (length (id_body i))"
  using lookup_parsed [OF assms(1), of "''/id''"] assms(2) id_body_ok(1) [OF assms(3)]
  by (intro ext) (simp add: id_service_def id_handle_request_def snprintf_def)

lemma attend_service_hit:
  assumes "in_i32 i" and "kv_store_get store (show_int i) = Some v"
  shows "attend_service store a (parsed_request ''GET'' ''/attend'' (Some (''id='' @ show_int i)) body)
    = tcp_respond a 200 (attend_body v) (length (attend_body v))"
  using query_id [OF assms(1)] assms(2) attend_body_ok(1) [of v]
  by (intro ext) (simp add: attend_service_def attend_handle_request_def snprintf_def is_get_def parsed_request_def)

section \<open>Single exchanges\<close>

lemma read_request:
  assumes "t_conns st a = Some c" and "holds c []" and "head_ok (request_line m path q) hs cl hs'" and "target_ok m path q"
    and "announced cl = length body" and "length (msg_head (request_line m path q) hs cl hs' @ body) < BUF_SIZE"
  obtains c' where "on_client_read_cb handler a (Io_Data (msg_head (request_line m path q) hs cl hs' @ body)) st
      = handler a (parsed_request m path q body) (put_conn a c' st)"
    "c_wbuf c' = c_wbuf c" "c_fd c' = c_fd c"
proof -
  let ?t = "msg_head (request_line m path q) hs cl hs' @ body"
  have "?t \<noteq> []" by (simp add: msg_head_def)
  with conn_read_holds [OF assms(2) this] assms(6) obtain c' where
    c': "conn_read c ?t = Some c'" "holds c' ?t" "c' = c\<lparr>c_rbuf := c_rbuf c', c_rlen := c_rlen c'\<rparr>" by auto
  then obtain pad where "c_rbuf c' = recv_buf ?t pad" "c_rlen c' = length ?t" by (auto simp: holds_def)
  with http_parse_request_head [OF assms(3,4), of body pad] assms(5)
  have "http_parse_request (c_rbuf c') (c_rlen c') = Some (0, parsed_request m path q body)" by simp
  from client_read_data [OF assms(1) c'(1) this]
  have "on_client_read_cb handler a (Io_Data ?t) st = handler a (parsed_request m path q body) (put_conn a c' st)" by simp
  moreover have "c_wbuf c' = c_wbuf c" "c_fd c' = c_fd c" by (subst c'(3), simp)+
  ultimately show ?thesis using that by blast
qed

lemma client_write_all:
  assumes "t_conns st a = Some c" and "c_wlen c \<le> length (c_wbuf c)" and "c_wpos c = 0"
  obtains st' where "on_client_write_cb a (Io_Wrote (c_wlen c)) st = Some st'" "t_conns st' = (t_conns st)(a := None)"
    "t_sent st' = (t_sent st)(c_fd c := t_sent st (c_fd c) @ take (c_wlen c) (c_wbuf c))" "t_ctxs st' = t_ctxs st"
    "t_dialed st' = t_dialed st"
proof -
  have "c_wpos c + c_wlen c \<le> c_wlen c" using assms(3) by simp
  from client_write_wrote [OF assms(1,2) this] assms(3) that show ?thesis
    by (simp add: conn_free_def put_conn_def Let_def)
qed

text \<open>The text of a response, which fits the write buffer.\<close>

definition reply_text :: "string \<Rightarrow> string" where
  "reply_text b = fst (http_format_response BUF_SIZE 200 b (length b))"

lemma reply_text_format:
  assumes "length b < 4096"
  shows "http_format_response BUF_SIZE 200 b (length b) = (reply_text b, length (reply_text b))"
    and "length (reply_text b) < BUF_SIZE" and "reply_text b \<noteq> []"
    and "http_parse_response (recv_buf (reply_text b) pad) (length (reply_text b)) = Some (0, parsed_response 200 b)"
proof -
  obtain t n where tn: "http_format_response BUF_SIZE 200 b (length b) = (t, n)" by (rule prod.exhaust)
  have s: "in_i32 200" by (simp add: in_i32_def)
  have n: "n < BUF_SIZE" "length t = n"
    using http_format_response_length [OF s _ tn [unfolded BUF_SIZE_def]] assms by (simp_all add: BUF_SIZE_def)
  then show "http_format_response BUF_SIZE 200 b (length b) = (reply_text b, length (reply_text b))"
      "length (reply_text b) < BUF_SIZE" by (simp_all add: reply_text_def tn)
  show "http_parse_response (recv_buf (reply_text b) pad) (length (reply_text b)) = Some (0, parsed_response 200 b)"
    using format_parse_response [OF s _ _ tn n(1), of pad] assms n(2) by (simp add: reply_text_def tn)
  show "reply_text b \<noteq> []" by (simp add: reply_text_def http_format_response_def snprintf_def BUF_SIZE_def)
qed

lemma serve_reply:
  assumes "head_ok (request_line ''GET'' path (Some q)) hs None []" and "target_ok ''GET'' path (Some q)"
    and "length (msg_head (request_line ''GET'' path (Some q)) hs None []) < BUF_SIZE"
    and "handler 0 (parsed_request ''GET'' path (Some q) []) = tcp_respond 0 200 b (length b)"
    and "NUL \<notin> set b" and "length b < 4096"
  shows "serve handler (msg_head (request_line ''GET'' path (Some q)) hs None []) = Some (reply_text b)"
proof -
  let ?t = "msg_head (request_line ''GET'' path (Some q)) hs None []"
  define st0 where "st0 = on_accept_cb [7] idle_server"
  let ?c = "(blank_conn 7)\<lparr>c_ev := Some On_Client_Read\<rparr>"
  have c: "t_conns st0 0 = Some ?c" "t_sent st0 7 = []"
    by (simp_all add: st0_def idle_server_def conn_alloc_def calloc_ok_def put_conn_def)
  have "holds ?c []" using holds_blank [of 7] by (simp add: holds_def blank_conn_def)
  then obtain c' where r: "on_client_read_cb handler 0 (Io_Data (?t @ [])) st0
      = handler 0 (parsed_request ''GET'' path (Some q) []) (put_conn 0 c' st0)" and c': "c_wbuf c' = c_wbuf ?c" "c_fd c' = 7"
    using read_request [OF c(1) _ assms(1,2), where handler = handler and body = "[]"] assms(3)
    by (auto simp: announced_def blank_conn_def)
  let ?c1 = "c'\<lparr>c_wbuf := store_text (c_wbuf c') (reply_text b), c_wlen := length (reply_text b), c_wpos := 0,
    c_ev := Some On_Client_Write\<rparr>"
  have st1: "on_client_read_cb handler 0 (Io_Data ?t) st0 = Some (put_conn 0 ?c1 (put_conn 0 c' st0))"
    using r assms(4,5) reply_text_format(1) [OF assms(6)] by (simp add: tcp_respond_def conn_start_response_def)
  have len: "c_wlen ?c1 \<le> length (c_wbuf ?c1)" "c_wpos ?c1 = 0"
    using reply_text_format(2) [OF assms(6)] c'(1) by (simp_all add: length_store_text blank_conn_def)
  have "t_conns (put_conn 0 ?c1 (put_conn 0 c' st0)) 0 = Some ?c1" by simp
  from this len obtain st2 where st2: "on_client_write_cb 0 (Io_Wrote (c_wlen ?c1)) (put_conn 0 ?c1 (put_conn 0 c' st0)) = Some st2"
      "t_sent st2 = (t_sent (put_conn 0 ?c1 (put_conn 0 c' st0)))
        (c_fd ?c1 := t_sent (put_conn 0 ?c1 (put_conn 0 c' st0)) (c_fd ?c1) @ take (c_wlen ?c1) (c_wbuf ?c1))"
    by (rule client_write_all) blast
  have "t_sent st2 7 = reply_text b" using st2(2) c'(2) c(2) by (simp add: store_text_def)
  then show ?thesis unfolding serve_def st0_def [symmetric] st1 using st2(1) by simp
qed

lemma upstream_write_all:
  assumes "t_conns st u = Some uc" and "c_wlen uc \<le> length (c_wbuf uc)" and "c_wpos uc = 0"
  shows "on_upstream_write_cb u (Io_Wrote (c_wlen uc)) st
    = Some (put_conn u (uc\<lparr>c_wpos := c_wlen uc, c_rlen := 0, c_ev := Some On_Upstream_Read\<rparr>)
        (st\<lparr>t_sent := (t_sent st)(c_fd uc := t_sent st (c_fd uc) @ take (c_wlen uc) (c_wbuf uc))\<rparr>))"
  using assms by (simp add: on_upstream_write_cb_def conn_write_def Let_def)

lemma upstream_read_reply:
  assumes "t_conns st u = Some uc" and "holds uc []" and "length b < 4096"
  obtains uc' where "on_upstream_read_cb uhandler u (Io_Data (reply_text b)) st
      = do { st1 \<leftarrow> uhandler u (parsed_response 200 b) (put_conn u uc' st); conn_free u st1 }"
    "c_client_conn uc' = c_client_conn uc" "c_handler_ctx uc' = c_handler_ctx uc"
proof -
  note r = reply_text_format(2-4) [OF assms(3)]
  from conn_read_holds [OF assms(2) r(2)] r(1) obtain uc' where
    c: "conn_read uc (reply_text b) = Some uc'" "holds uc' (reply_text b)" "uc' = uc\<lparr>c_rbuf := c_rbuf uc', c_rlen := c_rlen uc'\<rparr>"
    by auto
  then obtain pad where "c_rbuf uc' = recv_buf (reply_text b) pad" "c_rlen uc' = length (reply_text b)"
    by (auto simp: holds_def)
  with r(3) have p: "http_parse_response (c_rbuf uc') (c_rlen uc') = Some (0, parsed_response 200 b)" by simp
  have "c_client_conn uc' = c_client_conn uc" "c_handler_ctx uc' = c_handler_ctx uc" by (subst c(3), simp)+
  with assms(1) c(1) p that show ?thesis by (simp add: on_upstream_read_cb_def)
qed

lemma exchange_reply:
  assumes "tcp_asked st st1 a x peer path q" and "t_net st = Connecting fd # ns" and "t_sent st fd = []"
    and "handler 0 (parsed_request ''GET'' path (Some q) []) = tcp_respond 0 200 b (length b)"
    and "NUL \<notin> set b" and "length b < 4096"
  obtains uc' sent where "exchange uhandler handler (t_next st) st1
      = do { st3 \<leftarrow> uhandler (t_next st) (parsed_response 200 b) (put_conn (t_next st) uc' (st1\<lparr>t_sent := (t_sent st1)(fd := sent)\<rparr>));
             conn_free (t_next st) st3 }"
    "c_client_conn uc' = Some a" "c_handler_ctx uc' = Some x"
proof -
  let ?u = "t_next st"
  obtain uc hs where uc: "t_conns st1 = (t_conns st)(?u \<mapsto> uc)" "c_client_conn uc = Some a" "c_handler_ctx uc = Some x"
      "c_wpos uc = 0" "length (c_wbuf uc) = BUF_SIZE" "holds uc []"
      "take (c_wlen uc) (c_wbuf uc) = msg_head (request_line ''GET'' path (Some q)) hs None []"
      "c_wlen uc = length (msg_head (request_line ''GET'' path (Some q)) hs None [])" "c_wlen uc < BUF_SIZE"
      "head_ok (request_line ''GET'' path (Some q)) hs None []" "target_ok ''GET'' path (Some q)"
      "t_net st = Connecting (c_fd uc) # t_net st1" "t_sent st1 = t_sent st"
    using assms(1) unfolding tcp_asked_def by metis
  let ?t = "msg_head (request_line ''GET'' path (Some q)) hs None []"
  let ?uc1 = "uc\<lparr>c_ev := Some On_Upstream_Write\<rparr>" and ?st1 = "put_conn ?u (uc\<lparr>c_ev := Some On_Upstream_Write\<rparr>) st1"
  let ?uc2 = "?uc1\<lparr>c_wpos := c_wlen uc, c_rlen := 0, c_ev := Some On_Upstream_Read\<rparr>"
  let ?st2 = "put_conn ?u ?uc2 (st1\<lparr>t_sent := (t_sent st1)(fd := ?t)\<rparr>)"
  have fd: "c_fd uc = fd" using uc(12) assms(2) by simp
  have w: "on_upstream_write_cb ?u (Io_Wrote (c_wlen ?uc1)) ?st1 = Some ?st2"
    using upstream_write_all [of ?st1 ?u ?uc1] uc assms(3) fd by (simp add: put_conn_def)
  have r: "serve handler ?t = Some (reply_text b)"
    using uc(8,9) assms(4-6) by (intro serve_reply uc(10,11)) simp_all
  have "t_conns ?st2 ?u = Some ?uc2" "holds ?uc2 []" using uc(6) by (simp_all add: holds_def)
  then obtain uc' where uc': "on_upstream_read_cb uhandler ?u (Io_Data (reply_text b)) ?st2
      = do { st1 \<leftarrow> uhandler ?u (parsed_response 200 b) (put_conn ?u uc' ?st2); conn_free ?u st1 }"
      "c_client_conn uc' = c_client_conn ?uc2" "c_handler_ctx uc' = c_handler_ctx ?uc2"
    using assms(6) by (rule upstream_read_reply)
  have "exchange uhandler handler ?u st1 = on_upstream_read_cb uhandler ?u (Io_Data (reply_text b)) ?st2"
    using w r uc(1) fd by (simp add: exchange_def on_upstream_connect_cb_def)
  with uc' uc(2,3) that show ?thesis by (simp add: put_conn_put)
qed

section \<open>The stages of a lookup\<close>

lemmas fe_ops_simps = tcp_fe_ops_def frontend_def frontend_upstream_def

text \<open>The client's request arrives: the frontend asks the id service.\<close>

lemma lookup_stage1:
  assumes c: "t_conns st a = Some c" "holds c []" "length (c_wbuf c) = BUF_SIZE" and st: "cfg_ok cfg" "heap_ok st" "t_mem st = []"
    "t_net st = Connecting f1 # ns" and name: "name_ok name"
    and msg: "head_ok (request_line ''GET'' ''/lookup'' (Some (''name='' @ name))) hs cl hs'" "announced cl = length body"
      "length (msg_head (request_line ''GET'' ''/lookup'' (Some (''name='' @ name))) hs cl hs' @ body) < BUF_SIZE"
  obtains st1 s c' where
    "on_client_read_cb (frontend cfg) a (Io_Data (msg_head (request_line ''GET'' ''/lookup'' (Some (''name='' @ name))) hs cl hs' @ body)) st = Some st1"
    "tcp_asked s st1 a (t_next_ctx st) (tcp_peer cfg Id_Service) ''/id'' (''name='' @ name)"
    "s = (put_conn a c' st)\<lparr>t_ctxs := (t_ctxs st)(t_next_ctx st \<mapsto> \<lparr>fx_stage = STAGE_WAITING_ID, fx_name = name, fx_id = 0\<rparr>),
       t_next_ctx := Suc (t_next_ctx st)\<rparr>"
    "c_wbuf c' = c_wbuf c" "c_fd c' = c_fd c"
proof -
  let ?v = "\<lparr>fx_stage = STAGE_WAITING_ID, fx_name = name, fx_id = 0\<rparr>" and ?x = "t_next_ctx st"
  let ?req = "parsed_request ''GET'' ''/lookup'' (Some (''name='' @ name)) body"
  have t: "target_ok ''GET'' ''/lookup'' (Some (''name='' @ name))" using name by (auto simp: target_ok_def name_ok_def)
  obtain c' where r: "on_client_read_cb (frontend cfg) a
        (Io_Data (msg_head (request_line ''GET'' ''/lookup'' (Some (''name='' @ name))) hs cl hs' @ body)) st
      = frontend cfg a ?req (put_conn a c' st)" and c': "c_wbuf c' = c_wbuf c" "c_fd c' = c_fd c"
    by (rule read_request [OF c(1,2) msg(1) t msg(2,3)])
  let ?s = "(put_conn a c' st)\<lparr>t_ctxs := (t_ctxs st)(?x \<mapsto> ?v), t_next_ctx := Suc ?x\<rparr>"
  have rd: "tcp_ready cfg (put_conn a c' st) a"
    using c c' st by (auto simp: tcp_ready_def tcp_live_def heap_ok_def put_conn_def)
  have al: "fo_calloc (tcp_fe_ops cfg) ?v (put_conn a c' st) = (Some ?x, ?s)"
    using st(3) by (simp add: tcp_fe_ops_def tcp_ctx_calloc_def calloc_ok_def put_conn_def)
  have g: "is_get ?req ''/lookup''" using lookup_parsed(1) [OF name, of "''/lookup''"] by simp
  obtain st1 where "frontend cfg a ?req (put_conn a c' st) = Some st1" "tcp_asked ?s st1 a ?x (tcp_peer cfg Id_Service) ''/id'' (''name='' @ name)"
    using fe_tcp.lookup_asks_id [OF g lookup_parsed(2) [OF name] name rd al] unfolding frontend_def by blast
  with r c' that show ?thesis by simp
qed

lemma tcp_asked_free:
  assumes "tcp_asked st st' a x peer path q" and "u < t_next st" and "conn_free u st' = Some st''"
  shows "tcp_asked (st\<lparr>t_conns := (t_conns st)(u := None)\<rparr>) st'' a x peer path q"
proof -
  obtain k where f: "st'' = st'\<lparr>t_conns := (t_conns st')(u := None), t_closed := k\<rparr>"
    using assms(3) by (auto simp: conn_free_def)
  show ?thesis
    using assms(1,2) unfolding tcp_asked_def f
    by (elim exE, intro exI) (auto simp: fun_upd_twist)
qed

text \<open>The id arrives: the frontend asks the attend service and frees the first upstream connection.\<close>

lemma lookup_stage2:
  assumes asked: "tcp_asked s st1 a x (tcp_peer cfg Id_Service) ''/id'' (''name='' @ name)" and s: "t_net s = Connecting f1 # Connecting f2 # ns" "t_sent s f1 = []"
      "cfg_ok cfg" "heap_ok s" "t_mem s = []" "tcp_live s a"
    and x: "t_ctxs s x = Some ctx" "fx_stage ctx = STAGE_WAITING_ID"
    and i: "name_ok name" "kv_store_get ids name = Some i" "in_i32 i"
  obtains st2 sX sent where "exchange (frontend_upstream cfg) (id_service ids) (t_next s) st1 = Some st2"
    "tcp_asked sX st2 a x (tcp_peer cfg Attend_Service) ''/attend'' (''id='' @ show_int i)" "t_next sX = t_next st1" "t_conns sX = t_conns s"
    "t_sent sX = (t_sent s)(f1 := sent)" "t_net sX = Connecting f2 # ns" "t_mem sX = []" "t_dialed sX = t_dialed st1"
    "t_ctxs sX = (t_ctxs s)(x \<mapsto> ctx\<lparr>fx_id := i, fx_stage := STAGE_WAITING_ATTEND\<rparr>)"
proof -
  let ?u = "t_next s" and ?ctx = "ctx\<lparr>fx_id := i, fx_stage := STAGE_WAITING_ATTEND\<rparr>"
  have b: "NUL \<notin> set (id_body i)" "length (id_body i) < 4096" using id_body_ok [of i] i(3) by simp_all
  obtain uc' sent where ex: "exchange (frontend_upstream cfg) (id_service ids) ?u st1
      = do { st3 \<leftarrow> frontend_upstream cfg ?u (parsed_response 200 (id_body i)) (put_conn ?u uc' (st1\<lparr>t_sent := (t_sent st1)(f1 := sent)\<rparr>));
             conn_free ?u st3 }"
    and uc': "c_client_conn uc' = Some a" "c_handler_ctx uc' = Some x"
    by (rule exchange_reply [where handler = "id_service ids", OF asked s(1,2) id_service_hit [OF i] b])
  let ?s2 = "put_conn ?u uc' (st1\<lparr>t_sent := (t_sent st1)(f1 := sent)\<rparr>)"
  obtain uc where st1: "t_conns st1 = (t_conns s)(?u \<mapsto> uc)" "t_net st1 = Connecting f2 # ns" "t_sent st1 = t_sent s"
      "t_ctxs st1 = t_ctxs s" "t_next st1 = Suc ?u" "t_mem st1 = []"
    using asked s(1,5) unfolding tcp_asked_def by auto
  have au: "t_conns s ?u = None" "a \<noteq> ?u" using s(4,6) by (auto simp: heap_ok_def tcp_live_def split: option.splits)
  have up: "fo_upstream (tcp_fe_ops cfg) ?u ?s2 = Some (Some a, Some x)" "fo_get (tcp_fe_ops cfg) x ?s2 = Some ctx"
    using uc' x(1) st1(4) by (simp_all add: tcp_fe_ops_def put_conn_def)
  have rd: "tcp_ready cfg ?s2 a"
    using s au st1 by (auto simp: tcp_ready_def tcp_live_def heap_ok_def put_conn_def less_Suc_eq)
  have p: "resp_status_code (parsed_response 200 (id_body i)) = 200"
      "parse_id (cstring (resp_body (parsed_response 200 (id_body i)))) = Some i"
    using b parse_id_body [OF i(3)] id_body_ok(1) [OF i(3)] by (simp_all add: parsed_response_def BODY_SIZE_def)
  define s3 where "s3 = fo_put (tcp_fe_ops cfg) x ?ctx ?s2"
  obtain s' where s': "frontend_upstream cfg ?u (parsed_response 200 (id_body i)) ?s2 = Some s'"
      "tcp_asked s3 s' a x (tcp_peer cfg Attend_Service) ''/attend'' (''id='' @ show_int i)"
    using fe_tcp.id_response_asks_attend [OF up x(2) p i(3) rd] unfolding frontend_upstream_def s3_def by blast
  have s3: "t_next s3 = Suc ?u" "t_conns s3 = (t_conns s)(?u \<mapsto> uc')" "t_sent s3 = (t_sent s)(f1 := sent)"
      "t_net s3 = Connecting f2 # ns" "t_mem s3 = []" "t_ctxs s3 = (t_ctxs s)(x \<mapsto> ?ctx)"
      "t_dialed s3 = t_dialed st1"
    using st1 by (simp_all add: s3_def tcp_fe_ops_def put_conn_def)
  have "t_conns s' ?u = Some uc'" using s'(2) s3(1,2) by (auto simp: tcp_asked_def)
  then obtain st2 where st2: "conn_free ?u s' = Some st2" by (simp add: conn_free_def)
  let ?sX = "s3\<lparr>t_conns := (t_conns s3)(?u := None)\<rparr>"
  have "tcp_asked ?sX st2 a x (tcp_peer cfg Attend_Service) ''/attend'' (''id='' @ show_int i)" using tcp_asked_free [OF s'(2) _ st2] s3(1) by simp
  moreover have "t_conns ?sX = t_conns s" using s3(2) au(1) by auto
  ultimately show ?thesis using that [of st2 ?sX sent] ex s'(1) st2 s3 st1(5) by simp
qed

text \<open>The attendance arrives: the frontend answers, and frees the context and the second upstream
  connection.\<close>

lemma tcp_respond_conns:
  assumes "tcp_respond a status body n st = Some st'" and "t_conns st a = Some c"
  shows "\<exists>c'. t_conns st' = (t_conns st)(a \<mapsto> c') \<and> c_fd c' = c_fd c \<and> t_sent st' = t_sent st \<and> t_ctxs st' = t_ctxs st
    \<and> t_dialed st' = t_dialed st"
  using assms by (auto simp: tcp_respond_def conn_start_response_def put_conn_def split_beta)

lemma lookup_final_frame:
  assumes "frontend_upstream cfg u resp s = Some s'" and "fo_upstream (tcp_fe_ops cfg) u s = Some (Some a, Some x)"
    and "t_ctxs s x = Some ctx" and "fx_stage ctx = STAGE_WAITING_ATTEND" and "resp_status_code resp = 200"
    and "t_conns s a = Some c"
  shows "\<exists>c'. t_conns s' = (t_conns s)(a \<mapsto> c') \<and> c_fd c' = c_fd c \<and> t_sent s' = t_sent s \<and> t_ctxs s' = (t_ctxs s)(x := None)
    \<and> t_dialed s' = t_dialed s"
proof -
  define att where "att = (strstr (cstring (resp_body resp)) ''true'' \<noteq> None)"
  let ?b = "snprintf 256 (lookup_body (fx_name ctx) (fx_id ctx) att)"
  obtain s1 where s1: "tcp_respond a 200 (fst ?b) (snd ?b) s = Some s1" "s' = s1\<lparr>t_ctxs := (t_ctxs s1)(x := None)\<rparr>"
    using assms(1-5)
    by (auto simp: frontend_upstream_def frontend_handle_upstream_response_def tcp_fe_ops_def split_beta bind_eq_Some_conv
        simp del: not_None_eq simp flip: att_def split: if_splits)
  from tcp_respond_conns [OF s1(1) assms(6)] s1(2) show ?thesis by auto
qed

lemma tcp_answer_cong: "t_conns st' a = t_conns st a \<Longrightarrow> tcp_answer s0 st' a = tcp_answer s1 st a"
  by (simp add: tcp_answer_def)

lemma tcp_answer_conn:
  assumes "tcp_answer s0 st a = Some (status, body)" and "t_conns st a = Some c"
  obtains resp where "http_parse_response (take (c_wlen c) (c_wbuf c) @ [NUL]) (c_wlen c) = Some (0, resp)"
    "c_wpos c = 0" "c_wlen c \<le> length (c_wbuf c)" "resp_status_code resp = status" "resp_body resp = body"
  using assms by (auto simp: tcp_answer_def bind_eq_Some_conv split: if_splits)

lemma lookup_stage3:
  assumes asked: "tcp_asked s st2 a x (tcp_peer cfg Attend_Service) ''/attend'' (''id='' @ show_int i)" and s: "t_net s = Connecting f2 # ns" "t_sent s f2 = []"
      "heap_ok s" "tcp_live s a" "t_conns s a = Some c"
    and x: "t_ctxs s x = Some \<lparr>fx_stage = STAGE_WAITING_ATTEND, fx_name = name, fx_id = i\<rparr>"
    and i: "name_ok name" "in_i32 i" "kv_store_get attendance (show_int i) = Some v"
  obtains st3 c' sent where "exchange (frontend_upstream cfg) (attend_service attendance) (t_next s) st2 = Some st3"
    "t_conns st3 = (t_conns s)(a \<mapsto> c')" "c_fd c' = c_fd c" "t_sent st3 = (t_sent s)(f2 := sent)"
    "t_ctxs st3 = (t_ctxs s)(x := None)" "tcp_answer s st3 a = Some (200, lookup_body name i (v \<noteq> 0))" "t_dialed st3 = t_dialed st2"
proof -
  let ?u = "t_next s" and ?resp = "parsed_response 200 (attend_body v)"
  have b: "NUL \<notin> set (attend_body v)" "length (attend_body v) < 4096" using attend_body_ok [of v] by simp_all
  obtain uc' sent where ex: "exchange (frontend_upstream cfg) (attend_service attendance) ?u st2
      = do { st3 \<leftarrow> frontend_upstream cfg ?u ?resp (put_conn ?u uc' (st2\<lparr>t_sent := (t_sent st2)(f2 := sent)\<rparr>));
             conn_free ?u st3 }"
    and uc': "c_client_conn uc' = Some a" "c_handler_ctx uc' = Some x"
    by (rule exchange_reply [where handler = "attend_service attendance", OF asked s(1,2) attend_service_hit [OF i(2,3)] b])
  let ?s2 = "put_conn ?u uc' (st2\<lparr>t_sent := (t_sent st2)(f2 := sent)\<rparr>)"
  obtain uc where st2: "t_conns st2 = (t_conns s)(?u \<mapsto> uc)" "t_sent st2 = t_sent s" "t_ctxs st2 = t_ctxs s"
    using asked unfolding tcp_asked_def by auto
  have au: "t_conns s ?u = None" "a \<noteq> ?u" using s(3,5) by (auto simp: heap_ok_def)
  have up: "fo_upstream (tcp_fe_ops cfg) ?u ?s2 = Some (Some a, Some x)" "t_ctxs ?s2 x = t_ctxs s x"
      "t_conns ?s2 a = Some c" "tcp_live ?s2 a"
    using uc' st2 au s(4,5) by (simp_all add: tcp_fe_ops_def put_conn_def tcp_live_def)
  have get: "fo_get (tcp_fe_ops cfg) x ?s2 = Some \<lparr>fx_stage = STAGE_WAITING_ATTEND, fx_name = name, fx_id = i\<rparr>"
    using up(2) x by (simp add: tcp_fe_ops_def)
  have att: "strstr (cstring (resp_body ?resp)) ''true'' \<noteq> None \<longleftrightarrow> v \<noteq> 0"
    using attend_body_true [of v] b attend_body_ok(1) [of v] by (simp add: parsed_response_def BODY_SIZE_def)
  have ok: "resp_status_code ?resp = 200" by (simp add: parsed_response_def)
  have n: "length name < 64" "NUL \<notin> set name" using i(1) by (simp_all add: name_ok_def)
  obtain s' where s': "frontend_upstream cfg ?u ?resp ?s2 = Some s'"
      "tcp_answer ?s2 s' a = Some (200, lookup_body name i (v \<noteq> 0))"
    using fe_tcp.attend_response_answers [OF up(1) get _ ok up(4)] n i(2) unfolding att frontend_upstream_def by auto
  obtain c' where c': "t_conns s' = (t_conns ?s2)(a \<mapsto> c')" "c_fd c' = c_fd c" "t_sent s' = t_sent ?s2"
      "t_ctxs s' = (t_ctxs ?s2)(x := None)" "t_dialed s' = t_dialed ?s2"
    using lookup_final_frame [OF s'(1) up(1) up(2) [unfolded x] _ ok up(3)] by auto
  then obtain k where st3: "conn_free ?u s' = Some (s'\<lparr>t_conns := (t_conns s')(?u := None), t_closed := k\<rparr>)"
    using au(2) by (simp add: conn_free_def)
  let ?st3 = "s'\<lparr>t_conns := (t_conns s')(?u := None), t_closed := k\<rparr>"
  have "t_conns ?st3 = (t_conns s)(a \<mapsto> c')" using c'(1) st2(1) au by (auto simp: put_conn_def)
  moreover have "tcp_answer s ?st3 a = Some (200, lookup_body name i (v \<noteq> 0))"
    using s'(2) au(2) tcp_answer_cong [of ?st3 a s' s ?s2] by simp
  ultimately show ?thesis
    using that [of ?st3 c' sent] ex s'(1) st3 c' st2 by (simp add: put_conn_def)
qed

section \<open>The property\<close>

text \<open>C1. A lookup of a name that both stores know is answered over TCP with status 200 and the name, its
  id and its attendance: the client's request, the frontend's request to the id service and the
  service's answer, the second request to the attend service and its answer, and the response bytes
  written to the client, which an HTTP parser reads back. The two requests go out on sockets connected
  to the configured host and port of the id service and of the attend service. Afterwards the client's connection, both
  upstream connections and the frontend's context are released, and all other connections are as
  before.\<close>

theorem lookup_over_tcp:
  assumes "t_conns st a = Some c" and "holds c []" and "length (c_wbuf c) = BUF_SIZE"
    and "cfg_ok cfg" and "heap_ok st" and "t_mem st = []" and "t_ctxs st (t_next_ctx st) = None"
    and "t_net st = Connecting f1 # Connecting f2 # ns" and "distinct [f1, f2, c_fd c]" and "t_sent st f1 = []" and "t_sent st f2 = []"
    and "name_ok name" and "kv_store_wf ids" and "kv_store_get ids name = Some i" and "kv_store_get attendance (show_int i) = Some v"
    and "head_ok (request_line ''GET'' ''/lookup'' (Some (''name='' @ name))) hs cl hs'" and "announced cl = length body"
    and "msg = msg_head (request_line ''GET'' ''/lookup'' (Some (''name='' @ name))) hs cl hs' @ body" and "length msg < BUF_SIZE"
  shows "\<exists>st' reply resp. tcp_lookup cfg ids attendance a msg st = Some st'
    \<and> t_sent st' (c_fd c) = t_sent st (c_fd c) @ reply
    \<and> http_parse_response (recv_buf reply []) (length reply) = Some (0, resp)
    \<and> resp_status_code resp = 200 \<and> resp_body resp = lookup_body name i (v \<noteq> 0)
    \<and> t_conns st' = (t_conns st)(a := None) \<and> t_ctxs st' = t_ctxs st
    \<and> t_dialed st' = t_dialed st @ [(f1, id_host cfg, port_text (id_port cfg)), (f2, attend_host cfg, port_text (attend_port cfg))]"
proof -
  let ?x = "t_next_ctx st"
  have i: "in_i32 i" using assms(13,14) by (rule kv_get_wf)
  obtain st1 s c1 where st1: "on_client_read_cb (frontend cfg) a (Io_Data msg) st = Some st1"
      "tcp_asked s st1 a ?x (tcp_peer cfg Id_Service) ''/id'' (''name='' @ name)"
    and s: "s = (put_conn a c1 st)\<lparr>t_ctxs := (t_ctxs st)(?x \<mapsto> \<lparr>fx_stage = STAGE_WAITING_ID, fx_name = name, fx_id = 0\<rparr>),
      t_next_ctx := Suc ?x\<rparr>" and c1: "c_wbuf c1 = c_wbuf c" "c_fd c1 = c_fd c"
    unfolding assms(18) by (rule lookup_stage1 [OF assms(1-6,8,12,16,17) assms(19) [unfolded assms(18)]])
  have hs: "heap_ok s" "tcp_live s a" "t_conns s a = Some c1" "t_next s = t_next st"
    using assms(1,3,5) c1(1) by (auto simp: s heap_ok_def tcp_live_def put_conn_def)
  obtain st2 sX sent1 where st2: "exchange (frontend_upstream cfg) (id_service ids) (t_next s) st1 = Some st2"
      "tcp_asked sX st2 a ?x (tcp_peer cfg Attend_Service) ''/attend'' (''id='' @ show_int i)" "t_next sX = t_next st1" "t_conns sX = t_conns s"
      "t_sent sX = (t_sent s)(f1 := sent1)" "t_net sX = Connecting f2 # ns" "t_dialed sX = t_dialed st1"
      "t_ctxs sX = (t_ctxs s)(?x \<mapsto> \<lparr>fx_stage = STAGE_WAITING_ATTEND, fx_name = name, fx_id = i\<rparr>)"
    by (rule lookup_stage2 [OF st1(2) _ _ assms(4) hs(1) _ hs(2) _ _ assms(12,14) i,
          of f1 f2 ns "\<lparr>fx_stage = STAGE_WAITING_ID, fx_name = name, fx_id = 0\<rparr>"])
      (use assms(6,8,10) in \<open>simp_all add: s put_conn_def\<close>)
  have hX: "heap_ok sX" "tcp_live sX a" "t_conns sX a = Some c1" "t_sent sX f2 = []"
    using hs st1(2) st2(3-5) assms(9,11)
    by (auto simp: heap_ok_def tcp_live_def tcp_asked_def less_Suc_eq s put_conn_def)
  obtain st3 c' sent2 where st3: "exchange (frontend_upstream cfg) (attend_service attendance) (t_next sX) st2 = Some st3"
      "t_conns st3 = (t_conns sX)(a \<mapsto> c')" "c_fd c' = c_fd c1" "t_sent st3 = (t_sent sX)(f2 := sent2)"
      "t_ctxs st3 = (t_ctxs sX)(?x := None)" "tcp_answer sX st3 a = Some (200, lookup_body name i (v \<noteq> 0))"
      "t_dialed st3 = t_dialed st2"
    by (rule lookup_stage3 [OF st2(2,6) hX(4,1-3) _ assms(12) i assms(15)]) (simp add: st2(8))
  have c': "t_conns st3 a = Some c'" using st3(2) by simp
  obtain resp where resp: "http_parse_response (take (c_wlen c') (c_wbuf c') @ [NUL]) (c_wlen c') = Some (0, resp)"
      "c_wpos c' = 0" "c_wlen c' \<le> length (c_wbuf c')" "resp_status_code resp = 200" "resp_body resp = lookup_body name i (v \<noteq> 0)"
    by (rule tcp_answer_conn [OF st3(6) c'])
  obtain st' where st': "on_client_write_cb a (Io_Wrote (c_wlen c')) st3 = Some st'" "t_conns st' = (t_conns st3)(a := None)"
      "t_sent st' = (t_sent st3)(c_fd c' := t_sent st3 (c_fd c') @ take (c_wlen c') (c_wbuf c'))" "t_ctxs st' = t_ctxs st3" "t_dialed st' = t_dialed st3"
    by (rule client_write_all [OF c' resp(3,2)])
  have "tcp_lookup cfg ids attendance a msg st = Some st'"
    using st1(1) st2(1,3) st3(1) st'(1) c' hs(4) by (simp add: tcp_lookup_def)
  moreover have "t_conns st' = (t_conns st)(a := None)" using st'(2) st3(2) st2(4) by (simp add: s put_conn_def)
  moreover have "t_ctxs st' = t_ctxs st" using st'(4) st3(5) st2(8) assms(7) by (auto simp: s)
  moreover have "t_sent st' (c_fd c) = t_sent st (c_fd c) @ take (c_wlen c') (c_wbuf c')"
    using st'(3) st3(3,4) st2(5) c1(2) assms(9) by (simp add: s put_conn_def)
  moreover have "t_dialed st' = t_dialed st @ [(f1, id_host cfg, port_text (id_port cfg)), (f2, attend_host cfg, port_text (attend_port cfg))]"
  proof -
    have "t_dialed st1 = t_dialed s @ [(f1, tcp_peer cfg Id_Service)]" "t_dialed st2 = t_dialed sX @ [(f2, tcp_peer cfg Attend_Service)]"
      using st1(2) st2(2,6) assms(8) by (auto simp: tcp_asked_def s put_conn_def)
    then show ?thesis using st'(5) st3(7) st2(7) by (simp add: s put_conn_def)
  qed
  ultimately show ?thesis using resp by (intro exI [of _ st'] exI [of _ "take (c_wlen c') (c_wbuf c')"] exI [of _ resp]) simp
qed

definition demo_frontend :: "frontend_ctx tcp" where
  "demo_frontend = \<lparr>t_conns = [0 \<mapsto> (blank_conn 7)\<lparr>c_ev := Some On_Client_Read\<rparr>], t_next = 1, t_ctxs = Map.empty,
     t_next_ctx = 0, t_mem = [], t_net = [Connecting 8, Connecting 9], t_dialed = [], t_sent = (\<lambda>_. []), t_closed = []\<rparr>"

definition demo_ids :: kv_store where
  "demo_ids = \<lparr>entries = [\<lparr>key = ''bob'', kv_value = 5\<rparr>]\<rparr>"

definition demo_attendance :: kv_store where
  "demo_attendance = \<lparr>entries = [\<lparr>key = ''5'', kv_value = 1\<rparr>]\<rparr>"

lemma show_five: "show_int 5 = ''5''"
  by (simp add: show_int_def show_nat.simps digit_char_def char_of_eq_iff)

theorem lookup_over_tcp_witness:
  "\<exists>st' reply resp. tcp_lookup (fe_main_config (\<lambda>_. None)) demo_ids demo_attendance 0 demo_request demo_frontend = Some st'
     \<and> t_sent st' 7 = reply \<and> http_parse_response (recv_buf reply []) (length reply) = Some (0, resp)
     \<and> resp_body resp = lookup_body ''bob'' 5 True"
proof -
  let ?c = "(blank_conn 7)\<lparr>c_ev := Some On_Client_Read\<rparr>" and ?cfg = "fe_main_config (\<lambda>_. None)"
  have c: "t_conns demo_frontend 0 = Some ?c" "holds ?c []" "length (c_wbuf ?c) = BUF_SIZE"
    using holds_blank [of 7] by (simp_all add: demo_frontend_def holds_def blank_conn_def)
  have f: "cfg_ok ?cfg" "heap_ok demo_frontend" "t_mem demo_frontend = []" "t_ctxs demo_frontend (t_next_ctx demo_frontend) = None"
      "t_net demo_frontend = [Connecting 8, Connecting 9]" "distinct [8, 9, c_fd ?c]" "t_sent demo_frontend 8 = []" "t_sent demo_frontend 9 = []"
    by (simp_all add: cfg_ok_def fe_main_config_def heap_ok_def demo_frontend_def blank_conn_def)
  have n: "name_ok ''bob''" "kv_store_wf demo_ids" "kv_store_get demo_ids ''bob'' = Some 5"
      "kv_store_get demo_attendance (show_int 5) = Some 1"
    by (simp_all add: name_ok_def kv_store_wf_def entry_wf_def demo_ids_def demo_attendance_def kv_store_get_def
        in_i32_def show_five MAX_KEY_LEN_def MAX_ENTRIES_def)
  have h: "head_ok (request_line ''GET'' ''/lookup'' (Some (''name='' @ ''bob''))) [''Host: x''] (Some 2) []"
    using demo_head_ok(1) by simp
  have m: "announced (Some 2) = length ''hi''"
      "demo_request = msg_head (request_line ''GET'' ''/lookup'' (Some (''name='' @ ''bob''))) [''Host: x''] (Some 2) [] @ ''hi''"
      "length demo_request < BUF_SIZE"
    by (simp_all add: announced_def demo_request_def msg_head_def request_line_def length_line_def BUF_SIZE_def show_nat.simps)
  from lookup_over_tcp [OF c f n h m] show ?thesis by (fastforce simp: demo_frontend_def blank_conn_def)
qed

end
