(* ===== verification/Dpumesh_Handler.thy ===== *)
theory Dpumesh_Handler
  imports Dpumesh_Machine Tcp_Handler
begin

text \<open>
  The event loop callbacks of \<open>common/dpumesh_handler.c\<close>: the transport of the services over the mesh.
  Requests and responses of the messaging library are printed as HTTP messages into a connection's
  buffer and parsed again by the functions the TCP handler uses. A worker is the library's context, the
  heap of its connections and the heap of the handler contexts; \<open>ms_mem\<close> holds the outcomes of the
  next calls of \<open>calloc\<close> and \<open>ms_fds\<close> those of the next calls of \<open>pipe\<close>. An access to a freed
  connection is \<open>None\<close>.
\<close>

record dpu_conn = conn +
  dpu_desc_index :: nat

record 'x mesh =
  ms_ctx :: dpumesh_ctx
  ms_conns :: "nat \<Rightarrow> dpu_conn option"
  ms_next :: nat
  ms_ctxs :: "nat \<Rightarrow> 'x option"
  ms_next_ctx :: nat
  ms_mem :: "bool list"
  ms_fds :: "(int \<times> int) option list"

type_synonym 'x mesh_request_handler = "nat \<Rightarrow> http_request \<Rightarrow> 'x mesh \<Rightarrow> 'x mesh option"
type_synonym 'x mesh_upstream_handler = "nat \<Rightarrow> http_response \<Rightarrow> 'x mesh \<Rightarrow> 'x mesh option"

section \<open>Connections\<close>

definition mesh_calloc :: "'x mesh \<Rightarrow> bool \<times> 'x mesh" where
  "mesh_calloc st = (case ms_mem st of [] \<Rightarrow> (True, st) | b # bs \<Rightarrow> (b, st\<lparr>ms_mem := bs\<rparr>))"

definition blank_dpu_conn :: dpu_conn where
  "blank_dpu_conn = conn.extend (blank_conn (-1)) (dpu_conn.fields 0)"

definition put_dpu :: "nat \<Rightarrow> dpu_conn \<Rightarrow> 'x mesh \<Rightarrow> 'x mesh" where
  "put_dpu a c st = st\<lparr>ms_conns := (ms_conns st)(a \<mapsto> c)\<rparr>"

definition dpu_conn_alloc :: "'x mesh \<Rightarrow> nat option \<times> 'x mesh" where
  "dpu_conn_alloc st =
     (let (ok, st1) = mesh_calloc st
      in if \<not> ok then (None, st1)
         else (Some (ms_next st1), (put_dpu (ms_next st1) blank_dpu_conn st1)\<lparr>ms_next := Suc (ms_next st1)\<rparr>))"

definition dpu_conn_free :: "nat \<Rightarrow> 'x mesh \<Rightarrow> 'x mesh option" where
  "dpu_conn_free a st =
     map_option (\<lambda>c. st\<lparr>ms_conns := (ms_conns st)(a := None),
         ms_ctx := (if c_fd c \<ge> 0 then (ms_ctx st)\<lparr>cx_pipes := pipe_close (c_fd c) (cx_pipes (ms_ctx st))\<rparr>
                    else ms_ctx st)\<rparr>)
       (ms_conns st a)"

section \<open>Inbound requests\<close>

text \<open>A field of the request, or its default when the pointer is \<open>NULL\<close>.\<close>

definition or_text :: "string \<Rightarrow> string option \<Rightarrow> string" where
  "or_text d s = (case s of None \<Rightarrow> d | Some t \<Rightarrow> t)"

text \<open>The length of the body to print: an empty body arrives as a single NUL.\<close>

definition request_body_len :: "dpumesh_request \<Rightarrow> nat" where
  "request_body_len rq =
     (if rq_body_len rq = 1 \<and> hd (or_text [NUL] (rq_body rq)) = NUL then 0 else rq_body_len rq)"

text \<open>The printed request; \<open>%.*s\<close> prints the body up to its first NUL.\<close>

definition request_text :: "dpumesh_request \<Rightarrow> string" where
  "request_text rq =
     (let meth = or_text ''GET'' (rq_method rq); path = or_text ''/'' (rq_path rq);
          qs = or_text [] (rq_query_string rq); body = or_text [] (rq_body rq); n = request_body_len rq
      in meth @ '' '' @ path @ (if qs \<noteq> [] then ''?'' @ qs else []) @ '' HTTP/1.1'' @ CRLF
         @ ''Host: dpumesh'' @ CRLF
         @ ''Content-Length: '' @ show_nat n @ CRLF
         @ CRLF
         @ fmt_prec (i32 (int n)) (cstring body))"

definition on_request :: "'x mesh_request_handler \<Rightarrow> dpumesh_request \<Rightarrow> 'x mesh \<Rightarrow> 'x mesh option" where
  "on_request handler rq st =
     (case dpu_conn_alloc st of
        (None, st1) \<Rightarrow> Some st1
      | (Some a, st1) \<Rightarrow> do {
          let (txt, n) = snprintf BUF_SIZE (request_text rq);
          let c = blank_dpu_conn\<lparr>dpu_desc_index := rq_desc_index rq, c_rlen := n,
                    c_rbuf := store_text (c_rbuf blank_dpu_conn) txt\<rparr>;
          let st2 = put_dpu a c st1;
          (ret, req) \<leftarrow> http_parse_request (c_rbuf c) (c_rlen c);
          if ret = 0 then handler a req st2 else Some st2
        })"

text \<open>\<open>on_notify_cb\<close>: the callback runs on the context \<open>dpumesh_read\<close> has at that point. The loop reads
  once more than there are descriptors in the notify pipe, which no callback adds to.\<close>

definition on_notify_cb :: "'x mesh_request_handler \<Rightarrow> 'x mesh \<Rightarrow> 'x mesh option" where
  "on_notify_cb handler st =
     (let cx = ms_ctx st
      in do {
        (_, st', cx') \<leftarrow> dpumesh_read (Suc (length (pipe_contents (cx_notify_fd cx) (cx_pipes cx))))
          (\<lambda>rq s c. map_option (\<lambda>s'. (s', ms_ctx s')) (on_request handler rq (s\<lparr>ms_ctx := c\<rparr>))) st cx;
        Some (st'\<lparr>ms_ctx := cx'\<rparr>)
      })"

section \<open>Responding\<close>

definition respond_msg :: "nat \<Rightarrow> int \<Rightarrow> char list \<Rightarrow> nat \<Rightarrow> dpumesh_msg" where
  "respond_msg idx status body blen =
     \<lparr>m_type = DPUMESH_MSG_RESPONSE, m_method = None, m_url = None, m_status_code = status,
      m_orig_index = idx, m_body = Some body, m_body_len = blen\<rparr>"

definition dpumesh_conn_respond :: "nat \<Rightarrow> int \<Rightarrow> char list \<Rightarrow> nat \<Rightarrow> 'x mesh \<Rightarrow> 'x mesh option" where
  "dpumesh_conn_respond client status body blen st = do {
     dc \<leftarrow> ms_conns st client;
     (_, cx, _) \<leftarrow> dpumesh_write (ms_ctx st) (respond_msg (dpu_desc_index dc) status body blen) False None;
     dpu_conn_free client (st\<lparr>ms_ctx := cx\<rparr>)
   }"

section \<open>Upstream requests\<close>

definition response_text :: "int \<Rightarrow> char list \<Rightarrow> nat \<Rightarrow> string" where
  "response_text status body n =
     ''HTTP/1.1 '' @ show_int status @ '' OK'' @ CRLF
     @ ''Content-Length: '' @ show_nat n @ CRLF
     @ CRLF
     @ fmt_prec (i32 (int n)) (cstring body)"

definition on_upstream_response_cb :: "'x mesh_upstream_handler \<Rightarrow> int \<Rightarrow> nat \<Rightarrow> 'x mesh \<Rightarrow> 'x mesh option" where
  "on_upstream_response_cb handler fd u st = do {
     uc \<leftarrow> ms_conns st u;
     (rc, rs, cx) \<leftarrow> dpumesh_read_response (ms_ctx st) fd;
     case (if rc < 0 then None else rs) of
       None \<Rightarrow> dpu_conn_free u (st\<lparr>ms_ctx := cx\<rparr>)
     | Some resp \<Rightarrow> do {
         let status = (if rs_status_code resp > 0 then rs_status_code resp else 200);
         let (txt, n) = snprintf BUF_SIZE (response_text status (or_text [] (rs_body resp)) (rs_body_len resp));
         let uc' = uc\<lparr>c_fd := -1, c_rlen := n, c_rbuf := store_text (c_rbuf uc) txt\<rparr>;
         let st1 = put_dpu u uc' (st\<lparr>ms_ctx := cx\<rparr>);
         (ret, http_resp) \<leftarrow> http_parse_response (c_rbuf uc') (c_rlen uc');
         st2 \<leftarrow> (if ret = 0 then handler u http_resp st1 else Some st1);
         dpu_conn_free u st2
       }
   }"

definition next_fds :: "'x mesh \<Rightarrow> (int \<times> int) option" where
  "next_fds st = (case ms_fds st of [] \<Rightarrow> None | p # _ \<Rightarrow> p)"

definition upstream_msg :: "string \<Rightarrow> string \<Rightarrow> dpumesh_msg" where
  "upstream_msg meth url =
     \<lparr>m_type = DPUMESH_MSG_REQUEST, m_method = Some meth, m_url = Some url, m_status_code = 0,
      m_orig_index = 0, m_body = None, m_body_len = 0\<rparr>"

definition dpumesh_conn_upstream :: "nat \<Rightarrow> string \<Rightarrow> string \<Rightarrow> nat \<Rightarrow> 'x mesh \<Rightarrow> (int \<times> 'x mesh) option" where
  "dpumesh_conn_upstream client meth url hctx st =
     (case dpu_conn_alloc st of
        (None, st1) \<Rightarrow> Some (-1, st1)
      | (Some u, st1) \<Rightarrow> do {
          dc \<leftarrow> ms_conns st1 client;
          (rc, cx, out) \<leftarrow> dpumesh_write (ms_ctx st1) (upstream_msg meth url) True (next_fds st1);
          let st2 = st1\<lparr>ms_ctx := cx, ms_fds := tl (ms_fds st1)\<rparr>;
          case (rc < 0, out) of
            (False, Some fd) \<Rightarrow>
              Some (0, put_dpu u (blank_dpu_conn\<lparr>c_client_conn := Some client, c_handler_ctx := Some hctx,
                dpu_desc_index := dpu_desc_index dc, c_fd := fd, c_ev := Some On_Upstream_Response\<rparr>) st2)
          | _ \<Rightarrow> Some (-1, st2\<lparr>ms_conns := (ms_conns st2)(u := None)\<rparr>)
        })"

section \<open>Printing and parsing\<close>

lemma blank_dpu_simps [simp]:
  "c_fd blank_dpu_conn = -1" "c_ev blank_dpu_conn = None" "c_rbuf blank_dpu_conn = replicate BUF_SIZE NUL"
  "c_client_conn blank_dpu_conn = None" "c_handler_ctx blank_dpu_conn = None" "dpu_desc_index blank_dpu_conn = 0"
  by (simp_all add: blank_dpu_conn_def blank_conn_def conn.defs dpu_conn.defs)

lemma ms_conns_put [simp]: "ms_conns (put_dpu a c st) b = (if b = a then Some c else ms_conns st b)"
  by (simp add: put_dpu_def)

lemma put_dpu_frame [simp]:
  "ms_ctx (put_dpu a c st) = ms_ctx st" "ms_ctxs (put_dpu a c st) = ms_ctxs st" "ms_next (put_dpu a c st) = ms_next st"
  "ms_mem (put_dpu a c st) = ms_mem st" "ms_fds (put_dpu a c st) = ms_fds st" "ms_next_ctx (put_dpu a c st) = ms_next_ctx st"
  by (simp_all add: put_dpu_def)

text \<open>The body that arrives with a request: the single NUL of an empty body is dropped.\<close>

definition body_of :: "char list \<Rightarrow> char list" where
  "body_of bs = (if bs = [NUL] then [] else bs)"

definition query_of :: "string \<Rightarrow> string option" where
  "query_of qs = (if qs = [] then None else Some qs)"

lemma request_text_msg:
  assumes "rq_method rq = Some m" and "rq_path rq = Some path" and "rq_query_string rq = Some qs"
    and "rq_body rq = Some bs" and "rq_body_len rq = length bs" and "NUL \<notin> set (body_of bs)" and "length bs < 2 ^ 31"
  shows "request_text rq = msg_head (request_line m path (query_of qs)) [''Host: dpumesh''] (Some (length (body_of bs))) []
    @ body_of bs"
proof -
  have n: "request_body_len rq = length (body_of bs)"
    using assms(4,5,6) by (cases bs) (auto simp: request_body_len_def body_of_def or_text_def split: if_splits)
  have "i32 (int (length (body_of bs))) = int (length (body_of bs))"
    using assms(7) by (simp add: in_i32_def body_of_def)
  moreover have "fmt_prec (int (length (body_of bs))) (cstring bs) = body_of bs"
    using assms(6) by (auto simp: body_of_def fmt_prec_def cstring_def split: if_splits)
  ultimately show ?thesis
    using assms(1-4)
    by (simp add: request_text_def n or_text_def msg_head_def request_line_def length_line_def query_of_def Let_def)
qed

lemma response_text_msg:
  assumes "NUL \<notin> set body" and "length body < 2 ^ 31"
  shows "response_text status body (length body) = msg_head (status_line status ''OK'') [] (Some (length body)) [] @ body"
proof -
  have "i32 (int (length body)) = int (length body)" using assms(2) by (simp add: in_i32_def)
  moreover have "cstring body = body" using assms(1) by (simp add: cstring_def)
  ultimately show ?thesis by (simp add: response_text_def msg_head_def status_line_def length_line_def fmt_prec_def)
qed

lemma store_text_recv: "length s < length buf \<Longrightarrow> \<exists>pad. store_text buf s = recv_buf s pad"
  by (auto simp: store_text_def)

text \<open>A request the library delivers reaches the service's handler with its fields.\<close>

definition request_ok :: "dpumesh_request \<Rightarrow> string \<Rightarrow> string \<Rightarrow> string \<Rightarrow> char list \<Rightarrow> bool" where
  "request_ok rq m path qs bs \<longleftrightarrow> rq_method rq = Some m \<and> rq_path rq = Some path \<and> rq_query_string rq = Some qs
     \<and> rq_body rq = Some bs \<and> rq_body_len rq = length bs \<and> NUL \<notin> set (body_of bs) \<and> length bs < 4096
     \<and> target_ok m path (query_of qs) \<and> set (m @ path @ qs) \<inter> {NUL, CR, LF} = {}
     \<and> match_at eq_nocase (m @ '' '') ''Content-Length:'' = Some False"

lemma request_ok_head:
  assumes "request_ok rq m path qs bs"
  shows "head_ok (request_line m path (query_of qs)) [''Host: dpumesh''] (Some (length (body_of bs))) []"
    and "length (msg_head (request_line m path (query_of qs)) [''Host: dpumesh''] (Some (length (body_of bs))) [] @ body_of bs) < BUF_SIZE"
proof -
  have "other_line (request_line m path (query_of qs))"
    using assms match_at_extend [of eq_nocase "m @ '' ''" "''Content-Length:''" False]
    by (simp add: request_ok_def other_line_def request_line_def)
  moreover have "other_line ''Host: dpumesh''" by code_simp
  moreover have len: "length (body_of bs) < 4096" using assms by (simp add: request_ok_def body_of_def)
  ultimately show "head_ok (request_line m path (query_of qs)) [''Host: dpumesh''] (Some (length (body_of bs))) []"
    using assms by (auto simp: head_ok_def announced_def line_ok_def request_line_def request_ok_def query_of_def
        split: if_splits)
  have "length (show_nat (length (body_of bs))) \<le> 4" using len by (intro length_show_nat) auto
  then show "length (msg_head (request_line m path (query_of qs)) [''Host: dpumesh''] (Some (length (body_of bs))) [] @ body_of bs) < BUF_SIZE"
    using assms len
    by (auto simp: msg_head_def request_line_def length_line_def BUF_SIZE_def request_ok_def target_ok_def query_of_def
        split: if_splits)
qed

lemma on_request_calls:
  assumes "request_ok rq m path qs bs" and "ms_mem st = []"
  obtains c where "on_request handler rq st = handler (ms_next st) (parsed_request m path (query_of qs) (body_of bs))
      (put_dpu (ms_next st) c (st\<lparr>ms_next := Suc (ms_next st)\<rparr>))"
    "dpu_desc_index c = rq_desc_index rq" "c_fd c = -1" "c_client_conn c = None"
proof -
  define t where "t = msg_head (request_line m path (query_of qs)) [''Host: dpumesh''] (Some (length (body_of bs))) [] @ body_of bs"
  note ok = request_ok_head [OF assms(1), folded t_def]
  have rt: "request_text rq = t" unfolding t_def using assms(1) by (intro request_text_msg) (auto simp: request_ok_def)
  have p: "snprintf BUF_SIZE t = (t, length t)" using ok(2) by (simp add: snprintf_def)
  obtain pad where pad: "store_text (replicate BUF_SIZE NUL) t = recv_buf t pad"
    using store_text_recv [of t "replicate BUF_SIZE NUL"] ok(2) by auto
  have tg: "target_ok m path (query_of qs)" using assms(1) by (simp add: request_ok_def)
  have "http_parse_request (store_text (replicate BUF_SIZE NUL) t) (length t)
      = Some (0, parsed_request m path (query_of qs) (body_of bs))"
    using http_parse_request_head [OF ok(1) tg, of "body_of bs" pad] unfolding pad by (simp add: announced_def t_def)
  then show ?thesis
    using that [of "blank_dpu_conn\<lparr>dpu_desc_index := rq_desc_index rq, c_rlen := length t,
        c_rbuf := store_text (replicate BUF_SIZE NUL) t\<rparr>"] assms(2)
    by (simp add: on_request_def rt p dpu_conn_alloc_def mesh_calloc_def put_dpu_def Let_def)
qed

section \<open>Upstream calls\<close>

lemma upstream_msg_simps [simp]:
  "m_type (upstream_msg meth url) = DPUMESH_MSG_REQUEST" "body_ok (upstream_msg meth url)"
  "body_bytes (upstream_msg meth url) = [NUL]" "m_body_len (upstream_msg meth url) = 0"
  by (simp_all add: upstream_msg_def body_ok_def body_bytes_def)

lemma waiting_registered:
  assumes "ctx_inv cx" and "r \<noteq> w" and "0 \<le> w"
    and "cx' = (with_response_pipe cx r w)\<lparr>cx_tx_header := th, cx_tx_body := tb, cx_tx_sq := sq\<rparr>"
  shows "waiting cx' (cx_next_req_id cx) r w"
  using assms pending_index_less [of "cx_next_req_id cx"]
  by (simp add: waiting_def with_response_pipe_def ctx_inv_def pipe_ends_def pipe_contents_def pipe_open_def)

text \<open>The state after a request upstream has been queued: the upstream connection is on the heap and the
  library's context has the registered response pipe and new TX objects.\<close>

definition asked_upstream :: "'x mesh \<Rightarrow> 'x mesh \<Rightarrow> nat \<Rightarrow> nat \<Rightarrow> mesh_header \<Rightarrow> int \<Rightarrow> int \<Rightarrow> bool" where
  "asked_upstream st st' a x h r w \<longleftrightarrow> (\<exists>uc. ms_conns st' = (ms_conns st)(ms_next st \<mapsto> uc) \<and> c_client_conn uc = Some a
     \<and> c_handler_ctx uc = Some x \<and> c_fd uc = r \<and> c_ev uc = Some On_Upstream_Response \<and> length (c_rbuf uc) = BUF_SIZE)
     \<and> queued (ms_ctx st) (cx_next_req_id (ms_ctx st)) 3 (header_text h) [NUL] (ms_ctx st')
     \<and> waiting (ms_ctx st') (cx_next_req_id (ms_ctx st)) r w
     \<and> (\<exists>th tb sq. ms_ctx st' = (with_response_pipe (ms_ctx st) r w)\<lparr>cx_tx_header := th, cx_tx_body := tb, cx_tx_sq := sq\<rparr>)
     \<and> ctx_inv (ms_ctx st') \<and> ms_next st' = Suc (ms_next st) \<and> ms_ctxs st' = ms_ctxs st \<and> ms_next_ctx st' = ms_next_ctx st
     \<and> ms_mem st' = ms_mem st \<and> ms_fds st = Some (r, w) # ms_fds st'"

lemma conn_upstream_asks:
  assumes "ctx_inv (ms_ctx st)" and "tx_free (ms_ctx st)" and "ms_mem st = []" and "ms_fds st = Some (r, w) # fs"
    and "r \<noteq> w" and "0 \<le> w" and "ms_conns st a = Some dc" and "a \<noteq> ms_next st"
    and "length (header_text (sent_header (ms_ctx st) (upstream_msg meth url))) < HDR_SIZE"
  shows "\<exists>st'. dpumesh_conn_upstream a meth url x st = Some (0, st')
    \<and> asked_upstream st st' a x (sent_header (ms_ctx st) (upstream_msg meth url)) r w"
proof -
  let ?m = "upstream_msg meth url" and ?cx = "ms_ctx st" and ?a = "ms_next st"
  obtain cx' where w: "dpumesh_write ?cx ?m True (Some (r, w)) = Some (0, cx', Some r)"
      and q: "queued ?cx (cx_next_req_id ?cx) 3 (header_text (sent_header ?cx ?m)) (body_bytes ?m) cx'"
      and f: "cx' = (with_response_pipe ?cx r w)\<lparr>cx_tx_header := cx_tx_header cx', cx_tx_body := cx_tx_body cx',
        cx_tx_sq := cx_tx_sq cx'\<rparr>"
    using write_request_queued [OF assms(1,2) upstream_msg_simps(1) assms(9) upstream_msg_simps(2)] by blast
  have i: "ctx_inv cx'" using dpumesh_write_outcome [OF assms(1) w] by blast
  let ?uc = "blank_dpu_conn\<lparr>c_client_conn := Some a, c_handler_ctx := Some x, dpu_desc_index := dpu_desc_index dc, c_fd := r,
    c_ev := Some On_Upstream_Response\<rparr>"
  let ?st = "st\<lparr>ms_conns := (ms_conns st)(?a \<mapsto> ?uc), ms_next := Suc ?a, ms_ctx := cx', ms_fds := fs\<rparr>"
  have "dpumesh_conn_upstream a meth url x st = Some (0, ?st)"
    using w assms(3,4,7,8)
    by (cases st) (simp add: dpumesh_conn_upstream_def dpu_conn_alloc_def mesh_calloc_def next_fds_def put_dpu_def)
  moreover have "asked_upstream st ?st a x (sent_header ?cx ?m) r w"
    unfolding asked_upstream_def using waiting_registered [OF assms(1,5,6) f] q i assms(4) f
    by (intro conjI exI [of _ ?uc] exI [of _ "cx_tx_header cx'"] exI [of _ "cx_tx_body cx'"] exI [of _ "cx_tx_sq cx'"]) simp_all
  ultimately show ?thesis by blast
qed

lemma write_request_frame:
  assumes "ctx_inv cx" and "m_type msg = DPUMESH_MSG_REQUEST" and "dpumesh_write cx msg True fds = Some (rc, cx', out)"
  shows "cx_inbound cx' = cx_inbound cx" and "cx_worker_id cx' = cx_worker_id cx"
proof -
  have "cx_inbound cx' = cx_inbound cx \<and> cx_worker_id cx' = cx_worker_id cx"
  proof (cases fds)
    case None
    then show ?thesis using assms(2,3) by (auto simp: dpumesh_write_def split_beta)
  next
    case (Some rw)
    obtain r w where "rw = (r, w)" by (rule prod.exhaust)
    with request_write_frame [OF assms(1,2)] assms(3) Some show ?thesis by (fastforce simp: with_response_pipe_def)
  qed
  then show "cx_inbound cx' = cx_inbound cx" "cx_worker_id cx' = cx_worker_id cx" by auto
qed

lemma write_no_fd:
  "dpumesh_write cx msg True fds = Some (rc, cx', None) \<Longrightarrow> m_type msg = DPUMESH_MSG_REQUEST \<Longrightarrow> rc < 0"
  by (auto simp: dpumesh_write_def Let_def split_beta bind_eq_Some_conv split: option.splits)

lemma conn_upstream_frame:
  assumes "dpumesh_conn_upstream a meth url x st = Some (rc, st')"
  shows "ms_ctxs st' = ms_ctxs st" and "ctx_inv (ms_ctx st) \<Longrightarrow> ctx_inv (ms_ctx st')"
    and "rc < 0 \<Longrightarrow> ctx_inv (ms_ctx st) \<Longrightarrow> bp_used (cx_tx_header (ms_ctx st')) = bp_used (cx_tx_header (ms_ctx st))
      \<and> bp_used (cx_tx_body (ms_ctx st')) = bp_used (cx_tx_body (ms_ctx st)) \<and> dr_list (cx_tx_sq (ms_ctx st')) = dr_list (cx_tx_sq (ms_ctx st))"
    and "ctx_inv (ms_ctx st) \<Longrightarrow> cx_inbound (ms_ctx st') = cx_inbound (ms_ctx st) \<and> cx_worker_id (ms_ctx st') = cx_worker_id (ms_ctx st)"
    and "b \<noteq> ms_next st \<Longrightarrow> ms_conns st' b = ms_conns st b" and "ms_next st \<le> ms_next st'"
proof -
  obtain r st1 where al: "dpu_conn_alloc st = (r, st1)" by (rule prod.exhaust)
  then have st1: "ms_ctx st1 = ms_ctx st" "ms_ctxs st1 = ms_ctxs st" "b \<noteq> ms_next st \<Longrightarrow> ms_conns st1 b = ms_conns st b"
      "\<And>u. r = Some u \<Longrightarrow> u = ms_next st" "ms_next st \<le> ms_next st1"
    by (auto simp: dpu_conn_alloc_def mesh_calloc_def split: list.splits if_splits)
  have "ms_ctxs st' = ms_ctxs st \<and> ms_next st \<le> ms_next st' \<and> (b \<noteq> ms_next st \<longrightarrow> ms_conns st' b = ms_conns st b)
    \<and> (ms_ctx st' = ms_ctx st \<or> (\<exists>rc' cx out. dpumesh_write (ms_ctx st) (upstream_msg meth url) True (next_fds st1) = Some (rc', cx, out)
        \<and> ms_ctx st' = cx \<and> (rc < 0 \<longrightarrow> rc' < 0 \<or> out = None)))"
  proof (cases r)
    case None
    then show ?thesis using assms al st1 by (auto simp: dpumesh_conn_upstream_def)
  next
    case (Some u)
    obtain rc' cx out where w: "dpumesh_write (ms_ctx st) (upstream_msg meth url) True (next_fds st1) = Some (rc', cx, out)"
      using assms al Some st1(1) by (auto simp: dpumesh_conn_upstream_def bind_eq_Some_conv)
    show ?thesis
      using assms al Some st1 w
      by (cases "rc' < 0"; cases out) (auto simp: dpumesh_conn_upstream_def bind_eq_Some_conv Let_def)
  qed
  note f = this
  then show "ms_ctxs st' = ms_ctxs st" "b \<noteq> ms_next st \<Longrightarrow> ms_conns st' b = ms_conns st b" "ms_next st \<le> ms_next st'"
    by blast+
  note w = dpumesh_write_outcome [where msg = "upstream_msg meth url" and cx = "ms_ctx st"]
  show "ctx_inv (ms_ctx st')" if "ctx_inv (ms_ctx st)" using f w [OF that] that by metis
  show "bp_used (cx_tx_header (ms_ctx st')) = bp_used (cx_tx_header (ms_ctx st))
      \<and> bp_used (cx_tx_body (ms_ctx st')) = bp_used (cx_tx_body (ms_ctx st)) \<and> dr_list (cx_tx_sq (ms_ctx st')) = dr_list (cx_tx_sq (ms_ctx st))"
    if "rc < 0" "ctx_inv (ms_ctx st)"
    using f w [OF that(2)] that(1) write_no_fd upstream_msg_simps(1) by metis
  show "cx_inbound (ms_ctx st') = cx_inbound (ms_ctx st) \<and> cx_worker_id (ms_ctx st') = cx_worker_id (ms_ctx st)"
    if "ctx_inv (ms_ctx st)"
    using f write_request_frame [OF that upstream_msg_simps(1)] by metis
qed

section \<open>Requests reach the service\<close>

text \<open>A handler that, on a connection without a descriptor, leaves the notify pipe alone.\<close>

definition quiet :: "'x mesh_request_handler \<Rightarrow> bool" where
  "quiet handler \<longleftrightarrow> (\<forall>a req s s' c. ctx_inv (ms_ctx s) \<longrightarrow> ms_conns s a = Some c \<longrightarrow> c_fd c < 0 \<longrightarrow> handler a req s = Some s' \<longrightarrow> cx_notify_fd (ms_ctx s') = cx_notify_fd (ms_ctx s)
     \<and> pipe_contents (cx_notify_fd (ms_ctx s)) (cx_pipes (ms_ctx s')) = pipe_contents (cx_notify_fd (ms_ctx s)) (cx_pipes (ms_ctx s)))"

lemma on_notify_single:
  assumes "pipe_contents (cx_notify_fd (ms_ctx rx)) (cx_pipes (ms_ctx rx)) = [d]" and "valid d = 1"
    and "decode_request ((ms_ctx rx)\<lparr>cx_pipes := snd (pipe_read (cx_notify_fd (ms_ctx rx)) (cx_pipes (ms_ctx rx)))\<rparr>) d = Some (rq, cx1)"
    and "on_request handler rq (rx\<lparr>ms_ctx := store_inbound cx1 rq\<rparr>) = handler a req s"
    and quiet: "\<And>s'. handler a req s = Some s' \<Longrightarrow> cx_notify_fd (ms_ctx s') = cx_notify_fd (ms_ctx rx)
      \<and> pipe_contents (cx_notify_fd (ms_ctx rx)) (cx_pipes (ms_ctx s')) = []"
  shows "on_notify_cb handler rx = do { s' \<leftarrow> handler a req s; Some (s'\<lparr>ms_ctx := free_rx (ms_ctx s') d\<rparr>) }"
proof -
  let ?fd = "cx_notify_fd (ms_ctx rx)"
  obtain ps where ps: "pipe_read ?fd (cx_pipes (ms_ctx rx)) = (Some d, ps)"
    using pipe_contents_read [OF assms(1)] by (metis prod.collapse)
  show ?thesis
  proof (cases "handler a req s")
    case None
    then show ?thesis
      using assms(2-4) ps by (simp add: on_notify_cb_def Let_def assms(1))
  next
    case (Some s')
    from quiet [OF this] have e: "pipe_read ?fd (cx_pipes (free_rx (ms_ctx s') d)) = (None, cx_pipes (free_rx (ms_ctx s') d))"
        "cx_notify_fd (free_rx (ms_ctx s') d) = ?fd"
      by (simp_all add: pipe_contents_empty free_rx_def Let_def)
    show ?thesis
      using assms(2-4) ps Some e by (simp add: on_notify_cb_def Let_def assms(1))
  qed
qed

text \<open>The state in which the event loop calls the service with a request: the descriptor is read, the static
  buffers hold the header's fields, the routing metadata is stored and the connection is new.\<close>

definition header_read :: "dpumesh_ctx \<Rightarrow> sw_descriptor pipes \<Rightarrow> mesh_header \<Rightarrow> dpumesh_ctx" where
  "header_read cx ps h = cx\<lparr>cx_pipes := ps, cx_method_buf := take 15 (mh_method h), cx_path_buf := take 255 (mh_path h),
     cx_qs_buf := take 511 (mh_query h)\<rparr>"

definition called_with :: "'x mesh \<Rightarrow> sw_descriptor \<Rightarrow> mesh_header \<Rightarrow> char list \<Rightarrow> dpu_conn \<Rightarrow> 'x mesh" where
  "called_with rx d h bs c = put_dpu (ms_next rx) c (rx\<lparr>
     ms_ctx := store_inbound (header_read (ms_ctx rx) (snd (pipe_read (cx_notify_fd (ms_ctx rx)) (cx_pipes (ms_ctx rx)))) h)
       (delivered_request h bs d),
     ms_next := Suc (ms_next rx)\<rparr>)"

lemma notify_calls:
  fixes rx :: "'y mesh"
  assumes "\<And>ps. decode_request ((ms_ctx rx)\<lparr>cx_pipes := ps\<rparr>) d = Some (delivered_request h bs d, header_read (ms_ctx rx) ps h)"
    and "valid d = 1" and "ms_mem rx = []" and "pipe_contents (cx_notify_fd (ms_ctx rx)) (cx_pipes (ms_ctx rx)) = [d]"
    and "request_ok (delivered_request h bs d) m path qs bs"
  obtains c where "dpu_desc_index c = pending_index (req_id d)" "c_fd c = -1" "c_client_conn c = None"
    "(\<And>s'. handler (ms_next rx) (parsed_request m path (query_of qs) (body_of bs)) (called_with rx d h bs c) = Some s' \<Longrightarrow>
        cx_notify_fd (ms_ctx s') = cx_notify_fd (ms_ctx rx) \<and> pipe_contents (cx_notify_fd (ms_ctx rx)) (cx_pipes (ms_ctx s')) = [])
      \<Longrightarrow> on_notify_cb handler rx = do {
            s' \<leftarrow> handler (ms_next rx) (parsed_request m path (query_of qs) (body_of bs)) (called_with rx d h bs c);
            Some (s'\<lparr>ms_ctx := free_rx (ms_ctx s') d\<rparr>) }"
proof -
  let ?rq = "delivered_request h bs d" and ?req = "parsed_request m path (query_of qs) (body_of bs)"
  let ?cx = "header_read (ms_ctx rx) (snd (pipe_read (cx_notify_fd (ms_ctx rx)) (cx_pipes (ms_ctx rx)))) h"
  let ?rx = "rx\<lparr>ms_ctx := store_inbound ?cx ?rq\<rparr>"
  obtain c where c: "on_request handler ?rq ?rx = handler (ms_next rx) ?req (put_dpu (ms_next rx) c (?rx\<lparr>ms_next := Suc (ms_next rx)\<rparr>))"
      "dpu_desc_index c = rq_desc_index ?rq" "c_fd c = -1" "c_client_conn c = None"
    by (rule on_request_calls [OF assms(5), of ?rx handler]) (simp_all add: assms(3))
  have r: "on_request handler ?rq ?rx = handler (ms_next rx) ?req (called_with rx d h bs c)"
    using c(1) by (simp add: called_with_def)
  have i: "dpu_desc_index c = pending_index (req_id d)" using c(2) by (simp add: delivered_request_def blank_request_def)
  show ?thesis
  proof (rule that [OF i c(3,4)])
    assume "\<And>s'. handler (ms_next rx) ?req (called_with rx d h bs c) = Some s' \<Longrightarrow>
      cx_notify_fd (ms_ctx s') = cx_notify_fd (ms_ctx rx) \<and> pipe_contents (cx_notify_fd (ms_ctx rx)) (cx_pipes (ms_ctx s')) = []"
    then show "on_notify_cb handler rx = do {
        s' \<leftarrow> handler (ms_next rx) ?req (called_with rx d h bs c); Some (s'\<lparr>ms_ctx := free_rx (ms_ctx s') d\<rparr>) }"
      by (rule on_notify_single [OF assms(4,2) assms(1) r])
  qed
qed

text \<open>What the stored metadata is.\<close>

lemma called_with_inbound:
  assumes "ctx_inv (ms_ctx rx)"
  shows "ib_req_id (cx_inbound (ms_ctx (called_with rx d h bs c)) ! pending_index (req_id d)) = req_id d"
    and "ib_source_worker (cx_inbound (ms_ctx (called_with rx d h bs c)) ! pending_index (req_id d)) = take 127 (mh_source_worker h)"
    and "ib_req_id_str (cx_inbound (ms_ctx (called_with rx d h bs c)) ! pending_index (req_id d)) = take 63 (mh_req_id_str h)"
  using assms pending_index_less [of "req_id d"]
  by (simp_all add: called_with_def store_inbound_def header_read_def ctx_inv_def snprintf_def delivered_request_def
      blank_request_def)

lemma called_with_inv: "ctx_inv (ms_ctx rx) \<Longrightarrow> ctx_inv (ms_ctx (called_with rx d h bs c))"
  by (simp add: called_with_def store_inbound_def header_read_def ctx_inv_def)

lemma called_with_frame [simp]:
  "ms_conns (called_with rx d h bs c) = (ms_conns rx)(ms_next rx \<mapsto> c)" "ms_next (called_with rx d h bs c) = Suc (ms_next rx)"
  "ms_ctxs (called_with rx d h bs c) = ms_ctxs rx" "ms_next_ctx (called_with rx d h bs c) = ms_next_ctx rx"
  "ms_mem (called_with rx d h bs c) = ms_mem rx" "ms_fds (called_with rx d h bs c) = ms_fds rx"
  by (simp_all add: called_with_def put_dpu_def)

lemma received_pipes: "received (cx\<lparr>cx_pipes := ps\<rparr>) d hdr body = received cx d hdr body"
  by (simp add: received_def)

text \<open>What the event loop leaves alone before it calls the service.\<close>

definition same_tx :: "dpumesh_ctx \<Rightarrow> dpumesh_ctx \<Rightarrow> bool" where
  "same_tx cx cx' \<longleftrightarrow> cx_tx_header cx' = cx_tx_header cx \<and> cx_tx_body cx' = cx_tx_body cx \<and> cx_tx_sq cx' = cx_tx_sq cx
     \<and> cx_worker_id cx' = cx_worker_id cx"

text \<open>A received request between workers: the event loop calls the service with it.\<close>

lemma notify_calls_service:
  fixes rx :: "'y mesh"
  assumes "header_ok h" and "length (header_text h) < HDR_SIZE" and "received (ms_ctx rx) d (header_text h) [NUL]"
    and "flags d = 3" and "valid d = 1" and "ctx_inv (ms_ctx rx)" and "ms_mem rx = []" and "quiet handler"
    and "pipe_contents (cx_notify_fd (ms_ctx rx)) (cx_pipes (ms_ctx rx)) = [d]"
    and "target_ok (mh_method h) (mh_path h) (query_of (mh_query h))" and "set (mh_method h @ mh_path h @ mh_query h) \<inter> {NUL, CR, LF} = {}"
    and "match_at eq_nocase (mh_method h @ '' '') ''Content-Length:'' = Some False"
  shows "\<exists>s c. on_notify_cb handler rx = do {
        s' \<leftarrow> handler (ms_next rx) (parsed_request (mh_method h) (mh_path h) (query_of (mh_query h)) []) s;
        Some (s'\<lparr>ms_ctx := free_rx (ms_ctx s') d\<rparr>) }
      \<and> ms_conns s (ms_next rx) = Some c \<and> ib_req_id (cx_inbound (ms_ctx s) ! dpu_desc_index c) = req_id d
      \<and> ib_source_worker (cx_inbound (ms_ctx s) ! dpu_desc_index c) = take 127 (mh_source_worker h)
      \<and> ib_req_id_str (cx_inbound (ms_ctx s) ! dpu_desc_index c) = take 63 (mh_req_id_str h)
      \<and> dpu_desc_index c < DPUMESH_MAX_PENDING \<and> ctx_inv (ms_ctx s) \<and> same_tx (ms_ctx rx) (ms_ctx s)
      \<and> ms_next s = Suc (ms_next rx)"
proof -
  have fl: "flags d AND 0x0F \<noteq> CASE_INGRESS" using assms(4) by (simp add: CASE_INGRESS_def)
  have dec: "decode_request ((ms_ctx rx)\<lparr>cx_pipes := ps\<rparr>) d = Some (delivered_request h [NUL] d, header_read (ms_ctx rx) ps h)" for ps
    using decode_local [OF assms(1) _ assms(2), of "(ms_ctx rx)\<lparr>cx_pipes := ps\<rparr>" d "[NUL]"] assms(3) fl
    by (simp add: received_pipes DPUMESH_SLOT_SIZE_def header_read_def)
  have m: "length (mh_method h) \<le> 7" "length (mh_path h) \<le> 255" "length (mh_query h) \<le> 511"
    using assms(10) by (auto simp: target_ok_def query_of_def split: if_splits)
  have ok: "request_ok (delivered_request h [NUL] d) (mh_method h) (mh_path h) (mh_query h) [NUL]"
    using assms(10-12) m by (simp add: request_ok_def delivered_request_def body_of_def)
  have e: "body_of [NUL] = []" by (simp add: body_of_def)
  obtain c where c: "dpu_desc_index c = pending_index (req_id d)" "c_fd c = -1"
      "(\<And>s'. handler (ms_next rx) (parsed_request (mh_method h) (mh_path h) (query_of (mh_query h)) []) (called_with rx d h [NUL] c) = Some s' \<Longrightarrow>
        cx_notify_fd (ms_ctx s') = cx_notify_fd (ms_ctx rx) \<and> pipe_contents (cx_notify_fd (ms_ctx rx)) (cx_pipes (ms_ctx s')) = [])
      \<Longrightarrow> on_notify_cb handler rx = do {
            s' \<leftarrow> handler (ms_next rx) (parsed_request (mh_method h) (mh_path h) (query_of (mh_query h)) []) (called_with rx d h [NUL] c);
            Some (s'\<lparr>ms_ctx := free_rx (ms_ctx s') d\<rparr>) }"
    using notify_calls [OF dec assms(5,7,9) ok, of handler] unfolding e by blast
  let ?s = "called_with rx d h [NUL] c"
  have i: "ctx_inv (ms_ctx ?s)" by (rule called_with_inv [OF assms(6)])
  have n: "cx_notify_fd (ms_ctx ?s) = cx_notify_fd (ms_ctx rx)" "pipe_contents (cx_notify_fd (ms_ctx rx)) (cx_pipes (ms_ctx ?s)) = []"
      "same_tx (ms_ctx rx) (ms_ctx ?s)"
    using pipe_contents_read [OF assms(9)] by (simp_all add: called_with_def header_read_def store_inbound_def same_tx_def)
  have "cx_notify_fd (ms_ctx s') = cx_notify_fd (ms_ctx rx) \<and> pipe_contents (cx_notify_fd (ms_ctx rx)) (cx_pipes (ms_ctx s')) = []"
    if "handler (ms_next rx) (parsed_request (mh_method h) (mh_path h) (query_of (mh_query h)) []) ?s = Some s'" for s'
    using assms(8) [unfolded quiet_def, rule_format, OF i _ _ that, of c] c(2) n by simp
  from c(3) [OF this] called_with_inbound [OF assms(6)] c(1,2) i n(3) pending_index_less [of "req_id d"] show ?thesis
    by (intro exI [of _ ?s] exI [of _ c]) simp
qed

text \<open>A request that a service sends upstream over the mesh is registered for its response, and when
  the mesh has moved it to another worker and that worker's poller has put it into the notify pipe,
  the event loop of that worker calls its service exactly once, on a new connection, with the parsed
  method, path and query, remembers the number and the sender of the request under the index the
  connection keeps, and then frees the RX slots.\<close>

theorem mesh_call_delivered:
  assumes "ctx_inv (ms_ctx st)" and "tx_free (ms_ctx st)" and "ms_mem st = []" and "ms_fds st = Some (r, w) # fs"
    and "r \<noteq> w" and "0 \<le> w" and "ms_conns st a = Some dc" and "a \<noteq> ms_next st"
    and "h = sent_header (ms_ctx st) (upstream_msg meth url)" and "header_ok h" and "length (header_text h) < HDR_SIZE"
    and "target_ok meth (mh_path h) (query_of (mh_query h))" and "set (meth @ mh_path h @ mh_query h) \<inter> {NUL, CR, LF} = {}"
    and "match_at eq_nocase (meth @ '' '') ''Content-Length:'' = Some False"
  shows "\<exists>st'. dpumesh_conn_upstream a meth url x st = Some (0, st') \<and> asked_upstream st st' a x h r w
    \<and> (\<forall>rx d (handler :: 'y mesh_request_handler). relayed (ms_ctx st') (last (dr_list (cx_tx_sq (ms_ctx st')))) (ms_ctx rx) d
        \<longrightarrow> ctx_inv (ms_ctx rx) \<longrightarrow> ms_mem rx = [] \<longrightarrow> quiet handler
        \<longrightarrow> pipe_contents (cx_notify_fd (ms_ctx rx)) (cx_pipes (ms_ctx rx)) = [d]
        \<longrightarrow> (\<exists>s c. on_notify_cb handler rx = do {
                s' \<leftarrow> handler (ms_next rx) (parsed_request meth (mh_path h) (query_of (mh_query h)) []) s;
                Some (s'\<lparr>ms_ctx := free_rx (ms_ctx s') d\<rparr>) }
              \<and> ms_conns s (ms_next rx) = Some c
              \<and> ib_req_id (cx_inbound (ms_ctx s) ! dpu_desc_index c) = cx_next_req_id (ms_ctx st)
              \<and> ib_source_worker (cx_inbound (ms_ctx s) ! dpu_desc_index c) = take 127 (cx_worker_id (ms_ctx st))))"
proof -
  let ?cx = "ms_ctx st"
  obtain st' where st': "dpumesh_conn_upstream a meth url x st = Some (0, st')" "asked_upstream st st' a x h r w"
    using conn_upstream_asks [OF assms(1-8), of meth url x] assms(9,11) by blast
  have q: "queued ?cx (cx_next_req_id ?cx) 3 (header_text h) [NUL] (ms_ctx st')" using st'(2) by (simp add: asked_upstream_def)
  have m: "mh_method h = meth" "mh_source_worker h = cx_worker_id ?cx"
    using assms(9) by (simp_all add: sent_header_def upstream_msg_def nullable_def)
  show ?thesis
    apply (intro exI [of _ st'] conjI allI impI st')
    subgoal premises prems for rx d handler
    proof -
      have rc: "received (ms_ctx rx) d (header_text h) [NUL]" "req_id d = cx_next_req_id ?cx" "flags d = 3" "valid d = 1"
        using queued_received [OF q prems(1) assms(11)] by (simp_all add: DPUMESH_SLOT_SIZE_def)
      from notify_calls_service [OF assms(10,11) rc(1,3,4) prems(2-5)] assms(12-14)
      show ?thesis unfolding m rc(2) by blast
    qed
    done
qed

section \<open>Responses reach the caller\<close>

lemma response_text_ok:
  assumes "in_i32 status" and "NUL \<notin> set b" and "length b < 4096"
  shows "snprintf BUF_SIZE (response_text status b (length b))
      = (response_text status b (length b), length (response_text status b (length b)))"
    and "length buf = BUF_SIZE \<Longrightarrow> http_parse_response (store_text buf (response_text status b (length b)))
      (length (response_text status b (length b))) = Some (0, parsed_response status b)"
proof -
  let ?t = "msg_head (status_line status ''OK'') [] (Some (length b)) [] @ b"
  have t: "response_text status b (length b) = ?t" using assms by (intro response_text_msg) auto
  have "length (show_nat (length b)) \<le> 4" using assms(3) by (intro length_show_nat) auto
  then have len: "length ?t < BUF_SIZE"
    using assms(3) length_show_int [OF assms(1)] by (simp add: msg_head_def status_line_def length_line_def BUF_SIZE_def)
  have "line_ok ''OK''" by (simp add: line_ok_def)
  then have "head_ok (status_line status ''OK'') [] (Some (length b)) []"
    using assms(3) by (simp add: head_ok_def announced_def line_ok_status_line other_line_status_line)
  from http_parse_response_head [OF this assms(1), of b]
  have p: "http_parse_response (recv_buf ?t pad) (length ?t) = Some (0, parsed_response status b)" for pad
    by (simp add: announced_def)
  then show "http_parse_response (store_text buf (response_text status b (length b)))
      (length (response_text status b (length b))) = Some (0, parsed_response status b)" if "length buf = BUF_SIZE"
    unfolding t using store_text_recv [of ?t buf] len that by auto
  show "snprintf BUF_SIZE (response_text status b (length b))
      = (response_text status b (length b), length (response_text status b (length b)))"
    unfolding t using len by (simp add: snprintf_def)
qed

lemma upstream_response_calls:
  assumes "dpumesh_read_response (ms_ctx st) fd = Some (0, Some rs, cx)" and "rs_status_code rs = status" and "0 < status"
    and "in_i32 status" and "rs_body rs = Some b" and "rs_body_len rs = length b" and "NUL \<notin> set b" and "length b < 4096"
    and "ms_conns st u = Some uc" and "length (c_rbuf uc) = BUF_SIZE"
  obtains uc' where "on_upstream_response_cb handler fd u st
      = do { s \<leftarrow> handler u (parsed_response status b) (put_dpu u uc' (st\<lparr>ms_ctx := cx\<rparr>)); dpu_conn_free u s }"
    "c_client_conn uc' = c_client_conn uc" "c_handler_ctx uc' = c_handler_ctx uc" "c_fd uc' = -1"
proof -
  define t where "t = response_text status b (length b)"
  have t: "snprintf BUF_SIZE t = (t, length t)"
      "http_parse_response (store_text (c_rbuf uc) t) (length t) = Some (0, parsed_response status b)"
    using response_text_ok [OF assms(4,7,8)] assms(10) by (simp_all add: t_def)
  then show ?thesis
    using that [of "uc\<lparr>c_fd := -1, c_rlen := length t, c_rbuf := store_text (c_rbuf uc) t\<rparr>"] assms(1-6,9)
    by (simp add: on_upstream_response_cb_def or_text_def Let_def flip: t_def)
qed

lemma queued_pipes: "queued cx rid fl hdr body (cx'\<lparr>cx_pipes := ps\<rparr>) = queued cx rid fl hdr body cx'"
  by (simp add: queued_def)

lemma respond_msg_simps [simp]:
  "m_type (respond_msg i status body n) \<noteq> DPUMESH_MSG_REQUEST" "m_orig_index (respond_msg i status body n) = i"
  "m_status_code (respond_msg i status body n) = status" "m_body_len (respond_msg i status body n) = n"
  by (simp_all add: respond_msg_def DPUMESH_MSG_REQUEST_def DPUMESH_MSG_RESPONSE_def)

lemma respond_msg_body:
  assumes "n \<le> length body" and "n < 4096"
  shows "body_ok (respond_msg i status body n)" and "0 < n \<Longrightarrow> body_bytes (respond_msg i status body n) = take n body"
  using assms by (simp_all add: body_ok_def body_bytes_def respond_msg_def DPUMESH_SLOT_SIZE_def)

lemma conn_respond_queued:
  assumes "ctx_inv (ms_ctx st)" and "tx_free (ms_ctx st)" and "ms_conns st a = Some dc"
    and "dpu_desc_index dc < DPUMESH_MAX_PENDING" and "n \<le> length body" and "n < 4096" and "0 < n"
    and "length (header_text (answer_header (ms_ctx st) (respond_msg (dpu_desc_index dc) status body n))) < HDR_SIZE"
  shows "\<exists>st'. dpumesh_conn_respond a status body n st = Some st' \<and> ms_conns st' = (ms_conns st)(a := None)
    \<and> queued (ms_ctx st) (ib_req_id (cx_inbound (ms_ctx st) ! dpu_desc_index dc))
        (answer_flags (ms_ctx st) (respond_msg (dpu_desc_index dc) status body n))
        (header_text (answer_header (ms_ctx st) (respond_msg (dpu_desc_index dc) status body n))) (take n body) (ms_ctx st')
    \<and> ms_ctxs st' = ms_ctxs st"
proof -
  let ?m = "respond_msg (dpu_desc_index dc) status body n"
  note b = respond_msg_body [OF assms(5,6), of "dpu_desc_index dc" status]
  obtain cx' where "dpumesh_write (ms_ctx st) ?m False None = Some (0, cx', None)"
      "queued (ms_ctx st) (ib_req_id (cx_inbound (ms_ctx st) ! m_orig_index ?m)) (answer_flags (ms_ctx st) ?m)
        (header_text (answer_header (ms_ctx st) ?m)) (body_bytes ?m) cx'"
    using write_response_queued [OF assms(1,2) respond_msg_simps(1) _ assms(8) b(1)] assms(4) by auto
  then show ?thesis
    using assms(3) b(2) [OF assms(7)] by (simp add: dpumesh_conn_respond_def dpu_conn_free_def queued_pipes)
qed

text \<open>A response in the ring of the requester: the poller and the event loop hand it to the service.\<close>

lemma response_state:
  fixes rx :: "'y mesh"
  assumes "received (ms_ctx rx) d (header_text h) b" and "header_ok h" and "length (header_text h) < HDR_SIZE" and "is_response d"
    and "valid d = 1" and "0 < mh_status h" and "b \<noteq> []" and "length b < 4096" and "NUL \<notin> set b"
    and "ctx_inv (ms_ctx rx)" and "cx_poller_running (ms_ctx rx)" and "dr_list (cx_rx_sq (ms_ctx rx)) = d # ds"
    and "waiting (ms_ctx rx) (req_id d) r w" and "ms_conns rx u = Some uc" and "length (c_rbuf uc) = BUF_SIZE"
  obtains cx1 cx2 uc' where "dpumesh_poller_step (ms_ctx rx) = Some cx1"
    "on_upstream_response_cb handler r u (rx\<lparr>ms_ctx := cx1\<rparr>)
        = do { s' \<leftarrow> handler u (parsed_response (mh_status h) b) (put_dpu u uc' (rx\<lparr>ms_ctx := cx2\<rparr>)); dpu_conn_free u s' }"
    "c_client_conn uc' = c_client_conn uc" "c_handler_ctx uc' = c_handler_ctx uc" "c_fd uc' = -1"
    "\<exists>ps tab sq. cx2 = free_rx ((ms_ctx rx)\<lparr>cx_rx_sq := sq, cx_response_pipe_fds := tab, cx_pipes := ps\<rparr>) d" "ctx_inv cx2"
    "dr_list (cx_rx_sq cx2) = ds"
proof -
  obtain cx1 where p: "dpumesh_poller_step (ms_ctx rx) = Some cx1" "pipe_contents r (cx_pipes cx1) = [d]"
      "cx1 = (ms_ctx rx)\<lparr>cx_rx_sq := cx_rx_sq cx1, cx_pipes := cx_pipes cx1,
        cx_response_pipe_fds := (cx_response_pipe_fds (ms_ctx rx))[pending_index (req_id d) := -1]\<rparr>"
      "dr_list (cx_rx_sq cx1) = ds" "dr_inv (cx_rx_sq cx1)"
    using poller_response [OF assms(10-12,5,4,13)] by blast
  define tab where "tab = (cx_response_pipe_fds (ms_ctx rx))[pending_index (req_id d) := -1]"
  have "cx1 = (ms_ctx rx)\<lparr>cx_rx_sq := cx_rx_sq cx1, cx_response_pipe_fds := tab, cx_pipes := cx_pipes cx1\<rparr>"
    by (subst p(3)) (simp add: tab_def)
  then obtain sq ps where f: "cx1 = (ms_ctx rx)\<lparr>cx_rx_sq := sq, cx_response_pipe_fds := tab, cx_pipes := ps\<rparr>"
      "length tab = length (cx_response_pipe_fds (ms_ctx rx))" "dr_inv sq" "dr_list sq = ds"
    using p(4,5) by (simp add: tab_def)
  have rc: "received cx1 d (header_text h) b" using assms(1) by (simp add: f(1) received_def)
  have "length b < DPUMESH_SLOT_SIZE" using assms(8) by (simp add: DPUMESH_SLOT_SIZE_def)
  from read_response_ok [OF assms(2) rc assms(3,7) this p(2)]
  obtain rs cx2 where rs: "dpumesh_read_response cx1 r = Some (0, Some rs, cx2)" "rs_status_code rs = mh_status h"
      "rs_body rs = Some b" "rs_body_len rs = length b" by auto
  obtain ps' where ps': "cx2 = free_rx (cx1\<lparr>cx_pipes := pipe_close r ps'\<rparr>) d" using read_response_exact [OF p(2) rs(1)] by blast
  have "ctx_inv (cx1\<lparr>cx_pipes := pipe_close r ps'\<rparr>)" using assms(10) f(2,3) by (simp add: f(1) ctx_inv_def)
  then have i2: "ctx_inv cx2" unfolding ps' by (rule free_rx_used(3))
  have l2: "dr_list (cx_rx_sq cx2) = ds" using f(4) by (simp add: ps' f(1) free_rx_def Let_def)
  have i: "in_i32 (mh_status h)" using assms(2) by (simp add: header_ok_def)
  have r1: "dpumesh_read_response (ms_ctx (rx\<lparr>ms_ctx := cx1\<rparr>)) r = Some (0, Some rs, cx2)"
      "ms_conns (rx\<lparr>ms_ctx := cx1\<rparr>) u = Some uc" using rs(1) assms(14) by simp_all
  obtain uc' where uc': "on_upstream_response_cb handler r u (rx\<lparr>ms_ctx := cx1\<rparr>)
      = do { s' \<leftarrow> handler u (parsed_response (mh_status h) b) (put_dpu u uc' ((rx\<lparr>ms_ctx := cx1\<rparr>)\<lparr>ms_ctx := cx2\<rparr>));
             dpu_conn_free u s' }"
      "c_client_conn uc' = c_client_conn uc" "c_handler_ctx uc' = c_handler_ctx uc" "c_fd uc' = -1"
    by (rule upstream_response_calls [OF r1(1) rs(2) assms(6) i rs(3,4) assms(9,8) r1(2) assms(15)])
  have "\<exists>ps tab sq. cx2 = free_rx ((ms_ctx rx)\<lparr>cx_rx_sq := sq, cx_response_pipe_fds := tab, cx_pipes := ps\<rparr>) d"
    unfolding ps' f(1) by (intro exI [of _ "pipe_close r ps'"] exI [of _ tab] exI [of _ sq]) simp
  then show ?thesis using that [OF p(1) _ uc'(2-4) _ i2 l2] uc'(1) by simp
qed

lemma response_calls_service:
  fixes rx :: "'y mesh"
  assumes "received (ms_ctx rx) d (header_text h) b" and "header_ok h" and "length (header_text h) < HDR_SIZE" and "is_response d"
    and "valid d = 1" and "0 < mh_status h" and "b \<noteq> []" and "length b < 4096" and "NUL \<notin> set b"
    and "ctx_inv (ms_ctx rx)" and "cx_poller_running (ms_ctx rx)" and "dr_list (cx_rx_sq (ms_ctx rx)) = d # ds"
    and "waiting (ms_ctx rx) (req_id d) r w" and "ms_conns rx u = Some uc" and "length (c_rbuf uc) = BUF_SIZE"
  shows "\<exists>cx1 s uc'. dpumesh_poller_step (ms_ctx rx) = Some cx1
    \<and> on_upstream_response_cb handler r u (rx\<lparr>ms_ctx := cx1\<rparr>)
        = do { s' \<leftarrow> handler u (parsed_response (mh_status h) b) s; dpu_conn_free u s' }
    \<and> ms_conns s = (ms_conns rx)(u \<mapsto> uc') \<and> ms_ctxs s = ms_ctxs rx
    \<and> c_client_conn uc' = c_client_conn uc \<and> c_handler_ctx uc' = c_handler_ctx uc \<and> c_fd uc' = -1"
  by (rule response_state [OF assms, of handler])
    (intro exI conjI, assumption, assumption, simp_all add: put_dpu_def)

text \<open>C17. A response of a service over the mesh is queued and the client's connection freed, and when the
  mesh has put it at the head of the requester's ring, one iteration of the poller and the event of
  the response pipe hand the service that asked exactly the status and the body that were sent, on
  its upstream connection with its client and context, and free that connection.\<close>

theorem mesh_answer_delivered:
  assumes "ctx_inv (ms_ctx st)" and "tx_free (ms_ctx st)" and "ms_conns st a = Some dc"
    and "dpu_desc_index dc < DPUMESH_MAX_PENDING" and "n \<le> length body" and "n < 4096" and "0 < n" and "NUL \<notin> set (take n body)"
    and "0 < status" and "h = answer_header (ms_ctx st) (respond_msg (dpu_desc_index dc) status body n)" and "header_ok h"
    and "length (header_text h) < HDR_SIZE"
  shows "\<exists>st'. dpumesh_conn_respond a status body n st = Some st' \<and> ms_conns st' = (ms_conns st)(a := None)
    \<and> (\<forall>(rx :: 'y mesh) d ds r w u uc handler. relayed (ms_ctx st') (last (dr_list (cx_tx_sq (ms_ctx st')))) (ms_ctx rx) d
        \<longrightarrow> ctx_inv (ms_ctx rx) \<longrightarrow> cx_poller_running (ms_ctx rx) \<longrightarrow> dr_list (cx_rx_sq (ms_ctx rx)) = d # ds
        \<longrightarrow> waiting (ms_ctx rx) (ib_req_id (cx_inbound (ms_ctx st) ! dpu_desc_index dc)) r w
        \<longrightarrow> ms_conns rx u = Some uc \<longrightarrow> length (c_rbuf uc) = BUF_SIZE
        \<longrightarrow> (\<exists>cx1 s uc'. dpumesh_poller_step (ms_ctx rx) = Some cx1
            \<and> on_upstream_response_cb handler r u (rx\<lparr>ms_ctx := cx1\<rparr>)
                = do { s' \<leftarrow> handler u (parsed_response status (take n body)) s; dpu_conn_free u s' }
            \<and> ms_conns s = (ms_conns rx)(u \<mapsto> uc') \<and> ms_ctxs s = ms_ctxs rx
            \<and> c_client_conn uc' = c_client_conn uc \<and> c_handler_ctx uc' = c_handler_ctx uc \<and> c_fd uc' = -1))"
proof -
  let ?m = "respond_msg (dpu_desc_index dc) status body n" and ?ib = "cx_inbound (ms_ctx st) ! dpu_desc_index dc"
  obtain st' where st': "dpumesh_conn_respond a status body n st = Some st'" "ms_conns st' = (ms_conns st)(a := None)"
      and q: "queued (ms_ctx st) (ib_req_id ?ib) (answer_flags (ms_ctx st) ?m) (header_text h) (take n body) (ms_ctx st')"
    using conn_respond_queued [OF assms(1-7), of status] assms(10,12) by blast
  have m: "mh_status h = status" using assms(10) by (simp add: answer_header_def Let_def)
  have b: "take n body \<noteq> []" "length (take n body) < 4096" using assms(5-7) by auto
  show ?thesis
    apply (intro exI [of _ st'] conjI allI impI st')
    subgoal premises prems for rx d ds r w u uc handler
    proof -
      have rc: "received (ms_ctx rx) d (header_text h) (take n body)" "req_id d = ib_req_id ?ib"
          "flags d = answer_flags (ms_ctx st) ?m" "valid d = 1"
        using queued_received [OF q prems(1) assms(12)] b(2) by (simp_all add: DPUMESH_SLOT_SIZE_def)
      from response_calls_service [OF rc(1) assms(11,12) is_response_answer [OF rc(3)] rc(4) _ b assms(8) prems(2-4) _ prems(6,7)]
      show ?thesis using prems(5) assms(9) unfolding m rc(2) by blast
    qed
    done
qed

section \<open>Lost responses\<close>

text \<open>A response without a body is lost: the library sends an empty body as one NUL byte, which the
  response callback, unlike the request callback, prints as an announced length of 1 followed by
  nothing. The parser waits for the missing byte, so no handler is called; the upstream connection is
  freed while the client's connection and the service's context stay behind unanswered.\<close>

theorem empty_response_lost:
  assumes "dpumesh_read_response (ms_ctx st) fd = Some (0, Some rs, cx)" and "rs_body rs = Some [NUL]" and "rs_body_len rs = 1"
    and "in_i32 (rs_status_code rs)" and "ms_conns st u = Some uc" and "length (c_rbuf uc) = BUF_SIZE"
  shows "\<exists>st'. (\<forall>handler. on_upstream_response_cb handler fd u st = Some st')
    \<and> ms_conns st' = (ms_conns st)(u := None) \<and> ms_ctxs st' = ms_ctxs st \<and> ms_ctx st' = cx"
proof -
  define status where "status = (if rs_status_code rs > 0 then rs_status_code rs else 200)"
  let ?t = "msg_head (status_line status ''OK'') [] (Some 1) []"
  have t: "response_text status [NUL] 1 = ?t"
    by (simp add: response_text_def msg_head_def status_line_def length_line_def fmt_prec_def cstring_def)
  have i: "in_i32 status" using assms(4) by (simp add: status_def in_i32_def)
  have len: "length ?t < BUF_SIZE"
    using length_show_int [OF i] by (simp add: msg_head_def status_line_def length_line_def BUF_SIZE_def show_nat.simps)
  have "line_ok ''OK''" by (simp add: line_ok_def)
  then have "head_ok (status_line status ''OK'') [] (Some 1) []"
    by (simp add: head_ok_def announced_def line_ok_status_line other_line_status_line)
  note h = http_parse_response_head [OF this i, of "[]"]
  obtain pad where pad: "store_text (c_rbuf uc) ?t = recv_buf ?t pad"
    using store_text_recv [of ?t "c_rbuf uc"] len assms(6) by auto
  obtain resp where p: "http_parse_response (store_text (c_rbuf uc) ?t) (length ?t) = Some (1, resp)"
    using h [of pad] unfolding pad by (auto simp: announced_def)
  have s: "snprintf BUF_SIZE ?t = (?t, length ?t)" using len by (simp add: snprintf_def)
  show ?thesis
    using assms(1,2,3,5) p s by (simp add: on_upstream_response_cb_def or_text_def Let_def t dpu_conn_free_def put_dpu_def
      flip: status_def One_nat_def)
qed

text \<open>A response is lost when the TX pool has no free slot: the result of the write is ignored, the
  client's connection is freed, and nothing was queued.\<close>

theorem response_dropped_when_full:
  assumes "ctx_inv (ms_ctx st)" and "bp_used (cx_tx_header (ms_ctx st)) = bp_slots (cx_tx_header (ms_ctx st))"
    and "ms_conns st a = Some dc" and "c_fd dc < 0" and "dpu_desc_index dc < DPUMESH_MAX_PENDING"
  shows "\<exists>st'. dpumesh_conn_respond a status body n st = Some st' \<and> ms_conns st' a = None
    \<and> dr_list (cx_tx_sq (ms_ctx st')) = dr_list (cx_tx_sq (ms_ctx st))"
proof -
  let ?m = "respond_msg (dpu_desc_index dc) status body n" and ?cx = "ms_ctx st"
  have al: "bp_alloc (cx_tx_header ?cx) = (-1, cx_tx_header ?cx)"
    using assms(1,2) by (intro bp_alloc_full) (simp_all add: ctx_inv_def pool_ok_def)
  have "dpu_desc_index dc < length (cx_inbound ?cx)" using assms(1,5) by (simp add: ctx_inv_def)
  then obtain cx' where "dpumesh_write ?cx ?m False None = Some (-1, cx', None)"
    using al by (auto simp: dpumesh_write_def tx_enqueue_def Let_def split_beta)
  with dpumesh_write_outcome [OF assms(1) this] assms(3,4) show ?thesis
    by (simp add: dpumesh_conn_respond_def dpu_conn_free_def)
qed

lemma cstring_shorter: "NUL \<in> set bs \<Longrightarrow> length (cstring bs) < length bs"
  by (induction bs) (auto simp: cstring_def)

text \<open>A request whose body contains a NUL byte is lost as well: the body is printed up to that byte only
  under the full length, so it never parses as complete; no handler is called, nothing is answered,
  and the new connection stays allocated.\<close>

lemma binary_body_unparsed:
  assumes "rq_method rq = Some m" and "rq_path rq = Some path" and "rq_query_string rq = Some qs"
    and "rq_body rq = Some bs" and "rq_body_len rq = length bs" and "NUL \<in> set bs" and "bs \<noteq> [NUL]" and "length bs < 4096"
    and "head_ok (request_line m path (query_of qs)) [''Host: dpumesh''] (Some (length bs)) []"
    and "target_ok m path (query_of qs)"
    and "length (msg_head (request_line m path (query_of qs)) [''Host: dpumesh''] (Some (length bs)) []) < 4096"
    and "ms_mem st = []"
  shows "\<exists>c. \<forall>handler. on_request handler rq st = Some (put_dpu (ms_next st) c (st\<lparr>ms_next := Suc (ms_next st)\<rparr>))"
proof -
  let ?h = "msg_head (request_line m path (query_of qs)) [''Host: dpumesh''] (Some (length bs)) []" and ?d = "cstring bs"
  have d: "length ?d < length bs" by (rule cstring_shorter [OF assms(6)])
  have n: "request_body_len rq = length bs"
    using assms(4,5,7) by (cases bs) (auto simp: request_body_len_def or_text_def)
  have i: "i32 (int (length bs)) = int (length bs)" using assms(8) by (simp add: in_i32_def)
  have rt: "request_text rq = ?h @ ?d"
    using assms(1-4) d i
    by (simp add: request_text_def n or_text_def msg_head_def request_line_def length_line_def query_of_def Let_def fmt_prec_def)
  have len: "length (?h @ ?d) < BUF_SIZE" using assms(8,11) d by (simp add: BUF_SIZE_def)
  obtain pad where pad: "store_text (replicate BUF_SIZE NUL) (?h @ ?d) = recv_buf (?h @ ?d) pad"
    using store_text_recv [of "?h @ ?d" "replicate BUF_SIZE NUL"] len by auto
  from http_parse_request_head [OF assms(9,10), of ?d pad] d obtain req where
      "http_parse_request (store_text (replicate BUF_SIZE NUL) (?h @ ?d)) (length ?h + length ?d) = Some (1, req)"
    unfolding pad by (auto simp: announced_def)
  moreover have "snprintf BUF_SIZE (?h @ ?d) = (?h @ ?d, length (?h @ ?d))" using len by (simp add: snprintf_def)
  ultimately show ?thesis
    using assms(12)
    by (intro exI [of _ "blank_dpu_conn\<lparr>dpu_desc_index := rq_desc_index rq, c_rlen := length (?h @ ?d),
        c_rbuf := store_text (replicate BUF_SIZE NUL) (?h @ ?d)\<rparr>"])
      (simp add: on_request_def rt dpu_conn_alloc_def mesh_calloc_def put_dpu_def Let_def)
qed

section \<open>Witnesses\<close>

definition demo_mesh :: "unit mesh" where
  "demo_mesh = \<lparr>ms_ctx = demo_ctx, ms_conns = [0 \<mapsto> blank_dpu_conn], ms_next = 1, ms_ctxs = Map.empty, ms_next_ctx = 0,
     ms_mem = [], ms_fds = [Some (5, 6)]\<rparr>"

lemma demo_mesh_simps [simp]:
  "ms_ctx demo_mesh = demo_ctx" "ms_conns demo_mesh = [0 \<mapsto> blank_dpu_conn]" "ms_next demo_mesh = 1" "ms_mem demo_mesh = []"
  "ms_fds demo_mesh = [Some (5, 6)]"
  by (simp_all add: demo_mesh_def)

text \<open>A worker whose notify pipe and RX pools hold what a request left in the TX objects.\<close>

definition demo_receiver :: "dpumesh_ctx \<Rightarrow> sw_descriptor \<Rightarrow> unit mesh" where
  "demo_receiver cx d = demo_mesh\<lparr>ms_ctx := demo_ctx\<lparr>cx_rx_header := cx_tx_header cx, cx_rx_body := cx_tx_body cx,
     cx_pipes := (pipe_open 3 4 no_pipes)\<lparr>pp_data := (\<lambda>_. [])(0 := [d])\<rparr>\<rparr>\<rparr>"

lemma demo_upstream_msg: "upstream_msg ''GET'' ''http://id/id?name=a'' = demo_msg"
  by (simp add: upstream_msg_def demo_msg_def)

lemma demo_receives:
  assumes "dpumesh_conn_upstream 0 ''GET'' ''http://id/id?name=a'' 0 demo_mesh = Some (0, st')"
    and "asked_upstream demo_mesh st' 0 0 (sent_header demo_ctx demo_msg) 5 6"
    and "d = last (dr_list (cx_tx_sq (ms_ctx st')))" and "rx = demo_receiver (ms_ctx st') d"
  shows "relayed (ms_ctx st') d (ms_ctx rx) d" and "ctx_inv (ms_ctx rx)" and "ms_mem rx = []"
    and "pipe_contents (cx_notify_fd (ms_ctx rx)) (cx_pipes (ms_ctx rx)) = [d]"
proof -
  have qd: "queued demo_ctx 1 3 (header_text (sent_header demo_ctx demo_msg)) [NUL] (ms_ctx st')"
    using assms(2) by (simp add: asked_upstream_def demo_ctx_def)
  have "ctx_inv (ms_ctx st')" using conn_upstream_frame(2) [OF assms(1)] demo_ctx_inv by simp
  then show "ctx_inv (ms_ctx rx)" using demo_ctx_inv by (simp add: assms(4) demo_receiver_def ctx_inv_def)
  show "relayed (ms_ctx st') d (ms_ctx rx) d"
    using relayed_self [OF qd, of "ms_ctx rx"] by (simp add: assms(3,4) demo_receiver_def relayed_def)
  show "pipe_contents (cx_notify_fd (ms_ctx rx)) (cx_pipes (ms_ctx rx)) = [d]" "ms_mem rx = []"
    by (simp_all add: assms(4) demo_receiver_def demo_ctx_def pipe_contents_def pipe_open_def no_pipes_def)
qed

lemma demo_target:
  "mh_path (sent_header demo_ctx demo_msg) = ''/id''" "mh_query (sent_header demo_ctx demo_msg) = ''name=a''"
  "target_ok ''GET'' ''/id'' (query_of ''name=a'')" "set (''/id'' @ ''name=a'') \<inter> {NUL, CR, LF} = {}"
  by (simp_all add: demo_sent_header target_ok_def query_of_def)

theorem mesh_call_delivered_witness:
  "\<exists>st' s'. dpumesh_conn_upstream 0 ''GET'' ''http://id/id?name=a'' 0 demo_mesh = Some (0, st')
     \<and> on_notify_cb (\<lambda>a req s. if req_path req = ''/id'' then Some s else None)
         (demo_receiver (ms_ctx st') (last (dr_list (cx_tx_sq (ms_ctx st'))))) = Some s'"
proof -
  let ?h = "sent_header demo_ctx demo_msg" and ?k = "\<lambda>a req s. if req_path req = ''/id'' then Some s else None :: unit mesh option"
  have m: "match_at eq_nocase (''GET'' @ '' '') ''Content-Length:'' = Some False" by code_simp
  have q: "quiet ?k" by (simp add: quiet_def split: if_splits)
  from mesh_call_delivered [of demo_mesh 5 6 "[]" 0 blank_dpu_conn ?h "''GET''" "''http://id/id?name=a''" 0,
      where ?'y = unit] demo_ctx_inv demo_ctx_free demo_msg_ok demo_target m
  obtain st' where st': "dpumesh_conn_upstream 0 ''GET'' ''http://id/id?name=a'' 0 demo_mesh = Some (0, st')"
      "asked_upstream demo_mesh st' 0 0 ?h 5 6"
    and d: "\<And>rx d. relayed (ms_ctx st') (last (dr_list (cx_tx_sq (ms_ctx st')))) (ms_ctx rx) d \<Longrightarrow> ctx_inv (ms_ctx rx)
        \<Longrightarrow> ms_mem rx = [] \<Longrightarrow> quiet ?k \<Longrightarrow> pipe_contents (cx_notify_fd (ms_ctx rx)) (cx_pipes (ms_ctx rx)) = [d]
        \<Longrightarrow> \<exists>s. on_notify_cb ?k rx = do { s' \<leftarrow> ?k (ms_next rx) (parsed_request ''GET'' ''/id'' (query_of ''name=a'') []) s;
              Some (s'\<lparr>ms_ctx := free_rx (ms_ctx s') d\<rparr>) }"
    unfolding demo_target demo_upstream_msg by (simp add: demo_target) blast
  let ?d = "last (dr_list (cx_tx_sq (ms_ctx st')))" and ?rx = "demo_receiver (ms_ctx st') (last (dr_list (cx_tx_sq (ms_ctx st'))))"
  note r = demo_receives [OF st' refl refl]
  obtain s where "on_notify_cb ?k ?rx = Some s" using d [of ?rx ?d] q r by (auto simp: parsed_request_def)
  with st'(1) show ?thesis by blast
qed

lemma demo_answer_header:
  "header_ok (answer_header demo_ctx (respond_msg 0 200 ''ok'' 2))" "length (header_text (answer_header demo_ctx (respond_msg 0 200 ''ok'' 2))) < HDR_SIZE"
proof -
  have "in_i32 200" by (simp add: in_i32_def)
  then show "header_ok (answer_header demo_ctx (respond_msg 0 200 ''ok'' 2))" "length (header_text (answer_header demo_ctx (respond_msg 0 200 ''ok'' 2))) < HDR_SIZE"
    using length_show_int [of 200]
    by (simp_all add: answer_header_def demo_ctx_def blank_inbound_def DPUMESH_MAX_PENDING_def header_ok_def plain_def
        header_text_def HDR_SIZE_def)
qed

theorem mesh_answer_delivered_witness:
  "\<exists>st' cx1 s. dpumesh_conn_respond 0 200 ''ok'' 2 demo_mesh = Some st' \<and> ms_conns st' 0 = None
     \<and> dpumesh_poller_step (demo_requester (ms_ctx st')) = Some cx1
     \<and> on_upstream_response_cb (\<lambda>u resp s. if resp_body resp = ''ok'' then Some s else None) 5 0
         (demo_mesh\<lparr>ms_ctx := cx1\<rparr>) = Some s"
proof -
  let ?m = "respond_msg 0 200 ''ok'' 2" and ?k = "\<lambda>u resp s. if resp_body resp = ''ok'' then Some s else None :: unit mesh option"
  let ?h = "answer_header demo_ctx ?m"
  have ib: "cx_inbound demo_ctx ! 0 = blank_inbound" by (simp add: demo_ctx_def DPUMESH_MAX_PENDING_def)
  have dm: "ms_conns demo_mesh 0 = Some blank_dpu_conn" "dpu_desc_index blank_dpu_conn < DPUMESH_MAX_PENDING"
      "ctx_inv (ms_ctx demo_mesh)" "tx_free (ms_ctx demo_mesh)"
    using demo_ctx_inv demo_ctx_free by (simp_all add: DPUMESH_MAX_PENDING_def)
  have b: "2 \<le> length ''ok''" "(2::nat) < 4096" "(0::nat) < 2" "NUL \<notin> set (take 2 ''ok'')" "(0::int) < 200" by simp_all
  have h: "?h = answer_header (ms_ctx demo_mesh) (respond_msg (dpu_desc_index blank_dpu_conn) 200 ''ok'' 2)" by simp
  obtain st' where st': "dpumesh_conn_respond 0 200 ''ok'' 2 demo_mesh = Some st'" "ms_conns st' = (ms_conns demo_mesh)(0 := None)"
    and d: "\<forall>(rx :: unit mesh) d ds r w u uc handler. relayed (ms_ctx st') (last (dr_list (cx_tx_sq (ms_ctx st')))) (ms_ctx rx) d
        \<longrightarrow> ctx_inv (ms_ctx rx) \<longrightarrow> cx_poller_running (ms_ctx rx) \<longrightarrow> dr_list (cx_rx_sq (ms_ctx rx)) = d # ds
        \<longrightarrow> waiting (ms_ctx rx) (ib_req_id (cx_inbound (ms_ctx demo_mesh) ! dpu_desc_index blank_dpu_conn)) r w
        \<longrightarrow> ms_conns rx u = Some uc \<longrightarrow> length (c_rbuf uc) = BUF_SIZE
        \<longrightarrow> (\<exists>cx1 s uc'. dpumesh_poller_step (ms_ctx rx) = Some cx1
            \<and> on_upstream_response_cb handler r u (rx\<lparr>ms_ctx := cx1\<rparr>)
                = do { s' \<leftarrow> handler u (parsed_response 200 (take 2 ''ok'')) s; dpu_conn_free u s' }
            \<and> ms_conns s = (ms_conns rx)(u \<mapsto> uc') \<and> ms_ctxs s = ms_ctxs rx
            \<and> c_client_conn uc' = c_client_conn uc \<and> c_handler_ctx uc' = c_handler_ctx uc \<and> c_fd uc' = -1)"
    using mesh_answer_delivered [where ?'y = unit, OF dm(3,4,1,2) b h demo_answer_header] by (elim exE conjE)
  have q: "queued demo_ctx 0 (answer_flags demo_ctx ?m) (header_text ?h) ''ok'' (ms_ctx st')"
    using conn_respond_queued [OF dm(3,4,1,2) b(1-3), of 200] st'(1) demo_answer_header(2) by (auto simp: ib blank_inbound_def)
  then obtain dd where dd: "dr_list (cx_tx_sq (ms_ctx st')) = [dd]" by (auto simp: queued_def demo_ctx_def dr_reset_ok(2))
  have "ctx_inv (ms_ctx st')"
    using st'(1) dpumesh_write_outcome [OF demo_ctx_inv]
    by (auto simp: dpumesh_conn_respond_def dpu_conn_free_def bind_eq_Some_conv)
  let ?rx = "demo_mesh\<lparr>ms_ctx := demo_requester (ms_ctx st')\<rparr>"
  have "ctx_inv (ms_ctx ?rx)" using demo_ctx_inv \<open>ctx_inv (ms_ctx st')\<close> by (simp add: ctx_inv_def demo_requester_def)
  moreover have "relayed (ms_ctx st') dd (ms_ctx ?rx) dd"
    using relayed_self [OF q, of "ms_ctx ?rx"] dd by (simp add: relayed_def demo_requester_def)
  moreover have "cx_poller_running (ms_ctx ?rx)" "dr_list (cx_rx_sq (ms_ctx ?rx)) = [dd]"
    using dd by (simp_all add: demo_requester_def demo_ctx_def)
  moreover have "waiting (ms_ctx ?rx) (ib_req_id (cx_inbound (ms_ctx demo_mesh) ! dpu_desc_index blank_dpu_conn)) 5 6"
    using demo_requester_waits by (simp add: ib blank_inbound_def)
  moreover have "ms_conns ?rx 0 = Some blank_dpu_conn" "length (c_rbuf blank_dpu_conn) = BUF_SIZE" by simp_all
  ultimately obtain cx1 s uc' where "dpumesh_poller_step (ms_ctx ?rx) = Some cx1" "ms_conns s = (ms_conns ?rx)(0 \<mapsto> uc')"
      "on_upstream_response_cb ?k 5 0 (?rx\<lparr>ms_ctx := cx1\<rparr>) = do { s' \<leftarrow> ?k 0 (parsed_response 200 (take 2 ''ok'')) s; dpu_conn_free 0 s' }"
    using d [rule_format, of ?rx dd "[]" 5 6 0 blank_dpu_conn ?k] dd by auto
  then show ?thesis using st' by (simp add: parsed_response_def BODY_SIZE_def dpu_conn_free_def)
qed

definition empty_reply :: sw_descriptor where
  "empty_reply = zero_descriptor\<lparr>header_buf_slot := -1, body_len := 1\<rparr>"

definition empty_reply_mesh :: "unit mesh" where
  "empty_reply_mesh = demo_mesh\<lparr>ms_ctx := demo_ctx\<lparr>cx_pipes := (pipe_open 5 6 no_pipes)\<lparr>pp_data := (\<lambda>_. [])(0 := [empty_reply])\<rparr>\<rparr>\<rparr>"

theorem empty_response_lost_witness:
  "\<exists>st'. on_upstream_response_cb (\<lambda>_ _ _. None) 5 0 empty_reply_mesh = Some st' \<and> ms_conns st' 0 = None"
proof -
  have b: "bp_read empty_pool 0 1 = Some (1, [NUL])"
    using bp_read_Some [OF pool_ok_bp_inv [OF empty_pool_ok], of 0 1]
    by (simp add: empty_pool_def DPUMESH_NUM_SLOTS_def DPUMESH_SLOT_SIZE_def)
  obtain rs cx where rs: "dpumesh_read_response (ms_ctx empty_reply_mesh) 5 = Some (0, Some rs, cx)" "rs_body rs = Some [NUL]"
      "rs_body_len rs = 1" "rs_status_code rs = 0"
    using b by (simp add: dpumesh_read_response_def empty_reply_mesh_def pipe_read_def pipe_open_def no_pipes_def empty_reply_def
        zero_descriptor_def demo_ctx_def read_len_def DPUMESH_SLOT_SIZE_def Let_def)
  have "in_i32 (rs_status_code rs)" "ms_conns empty_reply_mesh 0 = Some blank_dpu_conn" "length (c_rbuf blank_dpu_conn) = BUF_SIZE"
    using rs(4) by (simp_all add: in_i32_def empty_reply_mesh_def)
  from empty_response_lost [OF rs(1-3) this] show ?thesis by auto
qed

theorem response_dropped_when_full_witness:
  "\<exists>st'. dpumesh_conn_respond 0 200 ''ok'' 2 (demo_mesh\<lparr>ms_ctx := busy_ctx\<rparr>) = Some st' \<and> ms_conns st' 0 = None
     \<and> dr_list (cx_tx_sq (ms_ctx st')) = []"
proof -
  have "ctx_inv (ms_ctx (demo_mesh\<lparr>ms_ctx := busy_ctx\<rparr>))"
      "bp_used (cx_tx_header (ms_ctx (demo_mesh\<lparr>ms_ctx := busy_ctx\<rparr>))) = bp_slots (cx_tx_header (ms_ctx (demo_mesh\<lparr>ms_ctx := busy_ctx\<rparr>)))"
      "ms_conns (demo_mesh\<lparr>ms_ctx := busy_ctx\<rparr>) 0 = Some blank_dpu_conn" "c_fd blank_dpu_conn < 0"
      "dpu_desc_index blank_dpu_conn < DPUMESH_MAX_PENDING"
    using busy_ctx_inv by (simp_all add: busy_ctx_def full_pool_ok(2) DPUMESH_MAX_PENDING_def)
  from response_dropped_when_full [OF this, of 200 "''ok''" 2] show ?thesis
    by (simp add: busy_ctx_def demo_ctx_def dr_reset_ok(2))
qed

end
