(* ===== verification/Mesh_Services.thy ===== *)
theory Mesh_Services
  imports Dpumesh_Handler Frontend
begin

text \<open>
  The services over the mesh (\<open>id_service/main_dpumesh.c\<close>, \<open>attend_service/main_dpumesh.c\<close> and
  \<open>frontend/main_dpumesh.c\<close>): the same handlers as over TCP on the operations of the mesh handler,
  and the second interpretation of the contracts of \<open>Services\<close> and \<open>Frontend\<close>.
\<close>

section \<open>The programs\<close>

text \<open>The bodies the services pass are C strings; the array includes the terminating NUL.\<close>

definition mesh_respond :: "(nat, 'x mesh) responder" where
  "mesh_respond client status body n st = dpumesh_conn_respond client status (body @ [NUL]) n st"

record mesh_config =
  id_service_name :: string
  attend_service_name :: string
  fe_namespace :: string

text \<open>What the frontend's \<open>main\<close> and handlers read from the environment.\<close>

definition mesh_main_config :: "(string \<Rightarrow> string option) \<Rightarrow> mesh_config" where
  "mesh_main_config getenv =
     \<lparr>id_service_name = (case getenv ''ID_SERVICE_NAME'' of None \<Rightarrow> ''id-service'' | Some s \<Rightarrow> fst (snprintf 64 s)),
      attend_service_name = (case getenv ''ATTEND_SERVICE_NAME'' of None \<Rightarrow> ''attend-service'' | Some s \<Rightarrow> fst (snprintf 64 s)),
      fe_namespace = (case getenv ''NAMESPACE'' of None \<Rightarrow> ''mini-ms-dpumesh'' | Some s \<Rightarrow> s)\<rparr>"

definition service_url :: "string \<Rightarrow> string \<Rightarrow> string \<Rightarrow> string" where
  "service_url svc ns target = fst (snprintf 256 (''http://'' @ svc @ ''.'' @ ns @ ''.svc.cluster.local'' @ target))"

definition mesh_ctx_calloc :: "'x \<Rightarrow> 'x mesh \<Rightarrow> nat option \<times> 'x mesh" where
  "mesh_ctx_calloc x st =
     (let (ok, st1) = mesh_calloc st
      in if \<not> ok then (None, st1)
         else (Some (ms_next_ctx st1), st1\<lparr>ms_ctxs := (ms_ctxs st1)(ms_next_ctx st1 \<mapsto> x), ms_next_ctx := Suc (ms_next_ctx st1)\<rparr>))"

definition mesh_fe_ops :: "mesh_config \<Rightarrow> frontend_ctx mesh fe_ops" where
  "mesh_fe_ops cfg =
     \<lparr>fo_respond = mesh_respond,
      fo_ask_id = (\<lambda>client name x. dpumesh_conn_upstream client ''GET''
        (service_url (id_service_name cfg) (fe_namespace cfg) (''/id?name='' @ name)) x),
      fo_ask_attend = (\<lambda>client i x. dpumesh_conn_upstream client ''GET''
        (service_url (attend_service_name cfg) (fe_namespace cfg) (''/attend?id='' @ show_int i)) x),
      fo_calloc = mesh_ctx_calloc,
      fo_get = (\<lambda>x st. ms_ctxs st x),
      fo_put = (\<lambda>x ctx st. st\<lparr>ms_ctxs := (ms_ctxs st)(x \<mapsto> ctx)\<rparr>),
      fo_free = (\<lambda>x st. if ms_ctxs st x = None then None else Some (st\<lparr>ms_ctxs := (ms_ctxs st)(x := None)\<rparr>)),
      fo_upstream = (\<lambda>u st. map_option (\<lambda>uc. (c_client_conn uc, c_handler_ctx uc)) (ms_conns st u))\<rparr>"

definition mesh_id_service :: "kv_store \<Rightarrow> 'x mesh_request_handler" where
  "mesh_id_service store = id_handle_request mesh_respond store"

definition mesh_attend_service :: "kv_store \<Rightarrow> 'x mesh_request_handler" where
  "mesh_attend_service store = attend_handle_request mesh_respond store"

definition mesh_frontend :: "mesh_config \<Rightarrow> frontend_ctx mesh_request_handler" where
  "mesh_frontend cfg = frontend_handle_request (mesh_fe_ops cfg)"

definition mesh_frontend_upstream :: "mesh_config \<Rightarrow> frontend_ctx mesh_upstream_handler" where
  "mesh_frontend_upstream cfg = frontend_handle_upstream_response (mesh_fe_ops cfg)"

section \<open>Answering over the mesh\<close>

text \<open>The names that go into the header of an answer.\<close>

definition names_ok :: "dpumesh_ctx \<Rightarrow> nat \<Rightarrow> bool" where
  "names_ok cx i \<longleftrightarrow> plain (cx_worker_id cx) \<and> length (cx_worker_id cx) < 128
     \<and> plain (ib_req_id_str (cx_inbound cx ! i)) \<and> length (ib_req_id_str (cx_inbound cx ! i)) < 64
     \<and> plain (ib_source_worker (cx_inbound cx ! i)) \<and> length (ib_source_worker (cx_inbound cx ! i)) < 128"

definition mesh_live :: "'x mesh \<Rightarrow> nat \<Rightarrow> bool" where
  "mesh_live st a \<longleftrightarrow> (case ms_conns st a of None \<Rightarrow> False | Some dc \<Rightarrow> ctx_inv (ms_ctx st) \<and> tx_free (ms_ctx st)
     \<and> dpu_desc_index dc < DPUMESH_MAX_PENDING \<and> names_ok (ms_ctx st) (dpu_desc_index dc) \<and> a < ms_next st)"

text \<open>An answer is one more descriptor in the TX ring, a response to the client's request, whose slots hold
  the status and the body.\<close>

definition mesh_answer :: "'x mesh \<Rightarrow> 'x mesh \<Rightarrow> nat \<Rightarrow> (int \<times> string) option" where
  "mesh_answer st st' a = do {
     dc \<leftarrow> ms_conns st a;
     let q' = dr_list (cx_tx_sq (ms_ctx st'));
     let d = last q';
     (_, hs) \<leftarrow> bp_read (cx_tx_header (ms_ctx st')) (sint (header_buf_slot d)) (unat (header_len d));
     (_, bs) \<leftarrow> bp_read (cx_tx_body (ms_ctx st')) (sint (body_buf_slot d)) (unat (body_len d));
     if q' = dr_list (cx_tx_sq (ms_ctx st)) @ [d] \<and> is_response d
        \<and> req_id d = ib_req_id (cx_inbound (ms_ctx st) ! dpu_desc_index dc)
     then Some (json_get_int (cstring hs) ''status_code'', bs) else None
   }"

lemma answer_header_names:
  assumes "names_ok cx i" and "in_i32 status"
  shows "header_ok (answer_header cx (respond_msg i status body n))"
    and "length (header_text (answer_header cx (respond_msg i status body n))) < HDR_SIZE"
    and "mh_status (answer_header cx (respond_msg i status body n)) = status"
  using assms length_show_int [OF assms(2)]
  by (simp_all add: names_ok_def answer_header_def Let_def header_ok_def header_text_def HDR_SIZE_def) (simp add: plain_def)

lemma queued_answer:
  assumes "queued (ms_ctx st) (ib_req_id (cx_inbound (ms_ctx st) ! dpu_desc_index dc)) (answer_flags (ms_ctx st) msg)
      (header_text h) body (ms_ctx st')"
    and "ms_conns st a = Some dc" and "header_ok h" and "length (header_text h) < HDR_SIZE" and "length body < 4096"
  shows "mesh_answer st st' a = Some (mh_status h, body)"
proof -
  obtain hs bs where q: "0 \<le> hs" "hs < int DPUMESH_NUM_SLOTS" "0 \<le> bs" "bs < int DPUMESH_NUM_SLOTS"
      "dr_list (cx_tx_sq (ms_ctx st')) = dr_list (cx_tx_sq (ms_ctx st)) @
        [tx_descriptor (ms_ctx st) (ib_req_id (cx_inbound (ms_ctx st) ! dpu_desc_index dc)) (answer_flags (ms_ctx st) msg)
          hs (length (header_text h)) bs (length body)]"
      "bp_read (cx_tx_header (ms_ctx st')) hs (length (header_text h)) = Some (int (length (header_text h)), header_text h)"
      "bp_read (cx_tx_body (ms_ctx st')) bs (length body) = Some (int (length body), body)"
    using assms(1) unfolding queued_def by blast
  let ?d = "tx_descriptor (ms_ctx st) (ib_req_id (cx_inbound (ms_ctx st) ! dpu_desc_index dc)) (answer_flags (ms_ctx st) msg)
    hs (length (header_text h)) bs (length body)"
  have "length (header_text h) \<le> DPUMESH_SLOT_SIZE" "length body \<le> DPUMESH_SLOT_SIZE"
    using assms(4,5) by (simp_all add: HDR_SIZE_def DPUMESH_SLOT_SIZE_def)
  then have d: "sint (header_buf_slot ?d) = hs" "sint (body_buf_slot ?d) = bs" "unat (header_len ?d) = length (header_text h)"
      "unat (body_len ?d) = length body" "req_id ?d = ib_req_id (cx_inbound (ms_ctx st) ! dpu_desc_index dc)"
    using q(1-4) by (simp_all add: tx_descriptor_def sint_slot unat_len)
  have "is_response ?d" by (rule is_response_answer) (simp add: tx_descriptor_def)
  moreover have "cstring (header_text h) = header_text h"
    using header_text_NUL [OF assms(3)] by (simp add: cstring_def)
  ultimately show ?thesis
    using assms(2) d q(6,7) header_status [OF assms(3)] by (simp add: mesh_answer_def q(5))
qed

lemma mesh_respond_answers:
  assumes "mesh_live st a" and "in_i32 status" and "n \<le> length body" and "n < 4096" and "0 < n"
  shows "\<exists>st'. mesh_respond a status body n st = Some st' \<and> mesh_answer st st' a = Some (status, take n body)"
proof -
  obtain dc where dc: "ms_conns st a = Some dc" "ctx_inv (ms_ctx st)" "tx_free (ms_ctx st)" "dpu_desc_index dc < DPUMESH_MAX_PENDING"
      "names_ok (ms_ctx st) (dpu_desc_index dc)"
    using assms(1) by (auto simp: mesh_live_def split: option.splits)
  note h = answer_header_names [OF dc(5) assms(2), of "body @ [NUL]" n]
  have n: "n \<le> length (body @ [NUL])" using assms(3) by simp
  obtain st' where st': "dpumesh_conn_respond a status (body @ [NUL]) n st = Some st'"
      "queued (ms_ctx st) (ib_req_id (cx_inbound (ms_ctx st) ! dpu_desc_index dc))
        (answer_flags (ms_ctx st) (respond_msg (dpu_desc_index dc) status (body @ [NUL]) n))
        (header_text (answer_header (ms_ctx st) (respond_msg (dpu_desc_index dc) status (body @ [NUL]) n))) (take n (body @ [NUL])) (ms_ctx st')"
    using conn_respond_queued [OF dc(2,3,1,4) n assms(4,5) h(2)] by blast
  from queued_answer [OF st'(2) dc(1) h(1,2)] h(3) st'(1) assms(3,4) show ?thesis by (simp add: mesh_respond_def)
qed

interpretation over_mesh: answering mesh_respond mesh_live mesh_answer
  by unfold_locales (rule mesh_respond_answers; simp add: in_i32_def)

section \<open>Asking over the mesh\<close>

lemma url_target_service:
  assumes "CHR ''/'' \<notin> set host" and "CHR ''?'' \<notin> set path" and "length path < 255" and "length q < 512"
  shows "url_target (''http://'' @ host @ CHR ''/'' # path @ CHR ''?'' # q) = (CHR ''/'' # path, q)"
proof -
  have "strstr (''http'' @ ''://'' @ host @ CHR ''/'' # path @ CHR ''?'' # q) ''://''
      = Some (''://'' @ host @ CHR ''/'' # path @ CHR ''?'' # q)"
    by simp
  then have "url_path (''http://'' @ host @ CHR ''/'' # path @ CHR ''?'' # q) = CHR ''/'' # path @ CHR ''?'' # q"
    using assms(1) by (simp add: url_path_def)
  then show ?thesis using assms(2-4) by (simp add: url_target_def Let_def snprintf_def)
qed

definition mcfg_ok :: "mesh_config \<Rightarrow> bool" where
  "mcfg_ok cfg \<longleftrightarrow> (\<forall>s \<in> {id_service_name cfg, attend_service_name cfg, fe_namespace cfg}.
     length s < 64 \<and> set s \<inter> {NUL, DQ, CHR ''/''} = {})"

text \<open>A request upstream: the library has queued a request to this service (its name and its namespace) with
  this path and query, whose response is awaited on an upstream connection of the client.\<close>

fun mesh_peer :: "mesh_config \<Rightarrow> callee \<Rightarrow> string \<times> string" where
  "mesh_peer cfg Id_Service = (id_service_name cfg, fe_namespace cfg)"
| "mesh_peer cfg Attend_Service = (attend_service_name cfg, fe_namespace cfg)"

definition mesh_asked :: "'x mesh \<Rightarrow> 'x mesh \<Rightarrow> nat \<Rightarrow> nat \<Rightarrow> string \<times> string \<Rightarrow> string \<Rightarrow> string \<Rightarrow> bool" where
  "mesh_asked st st' a x peer path q \<longleftrightarrow> (\<exists>h r w. asked_upstream st st' a x h r w \<and> header_ok h
     \<and> length (header_text h) < HDR_SIZE \<and> mh_method h = ''GET'' \<and> mh_path h = path \<and> mh_query h = q
     \<and> mh_url h = ''http://'' @ fst peer @ ''.'' @ snd peer @ ''.svc.cluster.local'' @ path @ ''?'' @ q)"

definition mesh_ready :: "mesh_config \<Rightarrow> 'x mesh \<Rightarrow> nat \<Rightarrow> bool" where
  "mesh_ready cfg st a \<longleftrightarrow> mcfg_ok cfg \<and> mesh_live st a \<and> ms_mem st = []
     \<and> (case ms_fds st of Some (r, w) # _ \<Rightarrow> r \<noteq> w \<and> 0 \<le> w | _ \<Rightarrow> False)"

lemma service_url_target:
  assumes "length svc < 64" and "length ns < 64" and "CHR ''/'' \<notin> set (svc @ ns)" and "length path < 16" and "length q < 80"
    and "CHR ''?'' \<notin> set path"
  shows "service_url svc ns (CHR ''/'' # path @ CHR ''?'' # q)
      = ''http://'' @ (svc @ ''.'' @ ns @ ''.svc.cluster.local'') @ CHR ''/'' # path @ CHR ''?'' # q"
    and "url_target (service_url svc ns (CHR ''/'' # path @ CHR ''?'' # q)) = (CHR ''/'' # path, q)"
proof -
  show u: "service_url svc ns (CHR ''/'' # path @ CHR ''?'' # q)
      = ''http://'' @ (svc @ ''.'' @ ns @ ''.svc.cluster.local'') @ CHR ''/'' # path @ CHR ''?'' # q"
    using assms(1,2,4,5) by (simp add: service_url_def snprintf_def)
  show "url_target (service_url svc ns (CHR ''/'' # path @ CHR ''?'' # q)) = (CHR ''/'' # path, q)"
    unfolding u using assms by (intro url_target_service) auto
qed

lemma upstream_asks:
  assumes "mesh_ready cfg st a" and "length svc < 64" and "length ns < 64" and "set (svc @ ns) \<inter> {NUL, DQ, CHR ''/''} = {}"
    and "length path < 16" and "length q < 80" and "set path \<inter> {NUL, DQ, CHR ''?''} = {}" and "set q \<inter> {NUL, DQ} = {}"
  shows "\<exists>st'. dpumesh_conn_upstream a ''GET'' (service_url svc ns (CHR ''/'' # path @ CHR ''?'' # q)) x st = Some (0, st')
    \<and> mesh_asked st st' a x (svc, ns) (CHR ''/'' # path) q"
proof -
  define url where "url = service_url svc ns (CHR ''/'' # path @ CHR ''?'' # q)"
  let ?h = "sent_header (ms_ctx st) (upstream_msg ''GET'' url)"
  obtain dc r w fs where st: "ms_conns st a = Some dc" "ctx_inv (ms_ctx st)" "tx_free (ms_ctx st)" "a \<noteq> ms_next st" "ms_mem st = []"
      "ms_fds st = Some (r, w) # fs" "r \<noteq> w" "0 \<le> w" "plain (cx_worker_id (ms_ctx st))" "length (cx_worker_id (ms_ctx st)) < 128"
    using assms(1) by (auto simp: mesh_ready_def mesh_live_def names_ok_def split: option.splits list.splits prod.splits)
  note t = service_url_target [OF assms(2,3) _ assms(5,6), folded url_def]
  have ut: "url_target url = (CHR ''/'' # path, q)" using t(2) assms(4,7) by auto
  have u: "plain url" "length url < 256"
    using t(1) assms(2-8) by (auto simp: plain_def)
  have h: "mh_method ?h = ''GET''" "mh_url ?h = url" "mh_path ?h = CHR ''/'' # path" "mh_query ?h = q" "mh_status ?h = 0"
      "mh_source_worker ?h = cx_worker_id (ms_ctx st)" "mh_dest_worker ?h = []"
      "mh_req_id_str ?h = ''creq-'' @ show_nat (unat (cx_next_req_id (ms_ctx st)))"
    by (simp_all add: sent_header_def upstream_msg_def nullable_def ut)
  have "unat (cx_next_req_id (ms_ctx st)) < 2 ^ LENGTH(32)" by (rule unsigned_less)
  then have "unat (cx_next_req_id (ms_ctx st)) < 10 ^ 10" by simp
  then have l: "length (show_nat (unat (cx_next_req_id (ms_ctx st)))) \<le> 10" by (rule length_show_nat) simp
  have pl: "plain (show_nat n)" for n by (auto simp: plain_def isdigit_def digit_val_def dest: isdigit_show_nat)
  have ok: "header_ok ?h"
    using u(1) st(9) assms(7,8) pl [of "unat (cx_next_req_id (ms_ctx st))"] by (simp add: header_ok_def h in_i32_def plain_def)
  have len: "length (header_text ?h) < HDR_SIZE"
    using u(2) l st(10) assms(5,6) by (simp add: header_text_def h HDR_SIZE_def show_zero)
  obtain st' where st': "dpumesh_conn_upstream a ''GET'' url x st = Some (0, st')" "asked_upstream st st' a x ?h r w"
    using conn_upstream_asks [OF st(2,3,5-8,1,4) len] by blast
  have "CHR ''/'' \<notin> set (svc @ ns)" using assms(4) by auto
  then have "mh_url ?h = ''http://'' @ fst (svc, ns) @ ''.'' @ snd (svc, ns) @ ''.svc.cluster.local'' @ (CHR ''/'' # path) @ ''?'' @ q"
    unfolding h(2) using t(1) assms(7) by simp
  with st'(2) ok len h(1,3,4) have "mesh_asked st st' a x (svc, ns) (CHR ''/'' # path) q" unfolding mesh_asked_def by blast
  with st'(1) show ?thesis unfolding url_def by blast
qed

lemma tx_free_same:
  assumes "ctx_inv cx" and "ctx_inv cx'" and "tx_free cx" and "bp_used (cx_tx_header cx') = bp_used (cx_tx_header cx)"
    and "bp_used (cx_tx_body cx') = bp_used (cx_tx_body cx)" and "dr_list (cx_tx_sq cx') = dr_list (cx_tx_sq cx)"
  shows "tx_free cx'"
  using assms by (simp add: tx_free_def ctx_inv_def pool_ok_def bp_slots_def)

lemma upstream_fails_live:
  assumes "dpumesh_conn_upstream a meth url x st = Some (rc, st')" and "rc < 0" and "mesh_live st a"
  shows "mesh_live st' a"
proof -
  have inv: "ctx_inv (ms_ctx st)" "tx_free (ms_ctx st)" "a < ms_next st" using assms(3) by (auto simp: mesh_live_def split: option.splits)
  note f = conn_upstream_frame [OF assms(1)]
  have "tx_free (ms_ctx st')" using tx_free_same [OF inv(1) f(2) [OF inv(1)] inv(2)] f(3) [OF assms(2) inv(1)] by blast
  moreover have "names_ok (ms_ctx st') i = names_ok (ms_ctx st) i" for i using f(4) [OF inv(1)] by (simp add: names_ok_def)
  moreover have "ms_conns st' a = ms_conns st a" "a < ms_next st'" using f(5) [of a] f(6) inv(3) by auto
  ultimately show ?thesis using assms(3) f(2) [OF inv(1)] by (auto simp: mesh_live_def split: option.splits)
qed

lemma mesh_respond_frame: "mesh_respond c status body n st = Some st' \<Longrightarrow> ms_ctxs st' = ms_ctxs st"
  by (auto simp: mesh_respond_def dpumesh_conn_respond_def dpu_conn_free_def bind_eq_Some_conv)

lemma mesh_ctx_calloc_frame:
  assumes "mesh_ctx_calloc v st = (r, st')"
  shows "mesh_live st' a = mesh_live st a" and "mesh_ready cfg st a \<Longrightarrow> mesh_ready cfg st' a"
    and "r = Some x \<Longrightarrow> ms_ctxs st' x = Some v"
  using assms
  by (auto simp: mesh_ctx_calloc_def mesh_calloc_def mesh_live_def mesh_ready_def split: list.splits if_splits
      cong: option.case_cong)

lemma mesh_ctxs_frame:
  "mesh_live (st\<lparr>ms_ctxs := m\<rparr>) a = mesh_live st a" "mesh_ready cfg (st\<lparr>ms_ctxs := m\<rparr>) a = mesh_ready cfg st a"
  "mesh_answer s0 (st\<lparr>ms_ctxs := m\<rparr>) a = mesh_answer s0 st a"
  by (simp_all add: mesh_live_def mesh_ready_def mesh_answer_def cong: option.case_cong)

interpretation fe_mesh: frontend_transport "mesh_fe_ops cfg" mesh_live mesh_answer "mesh_ready cfg"
  "\<lambda>s s' c x cl. mesh_asked s s' c x (mesh_peer cfg cl)"
proof unfold_locales
  fix s :: "frontend_ctx mesh" and c n :: nat and status :: int and body :: string
  assume "mesh_live s c" "0 \<le> status" "status < 1000" "NUL \<notin> set body" "0 < n" "n \<le> length body" "n < 4096"
  from over_mesh.respond_answers [OF this]
  show "\<exists>s'. fo_respond (mesh_fe_ops cfg) c status body n s = Some s' \<and> mesh_answer s s' c = Some (status, take n body)"
    by (simp add: mesh_fe_ops_def)
next
  fix s :: "frontend_ctx mesh" and c x name
  assume r: "mesh_ready cfg s c" and n: "name_ok name"
  have "\<exists>s'. dpumesh_conn_upstream c ''GET'' (service_url (id_service_name cfg) (fe_namespace cfg) (CHR ''/'' # ''id'' @ CHR ''?'' # ''name='' @ name)) x s
      = Some (0, s') \<and> mesh_asked s s' c x (mesh_peer cfg Id_Service) (CHR ''/'' # ''id'') (''name='' @ name)"
    unfolding mesh_peer.simps using r n by (intro upstream_asks [OF r]) (auto simp: mesh_ready_def mcfg_ok_def name_ok_def)
  then show "\<exists>s'. fo_ask_id (mesh_fe_ops cfg) c name x s = Some (0, s') \<and> mesh_asked s s' c x (mesh_peer cfg Id_Service) ''/id'' (''name='' @ name)"
    by (simp add: mesh_fe_ops_def)
next
  fix s :: "frontend_ctx mesh" and c x and i :: int
  assume r: "mesh_ready cfg s c" and i: "in_i32 i"
  have "\<exists>s'. dpumesh_conn_upstream c ''GET'' (service_url (attend_service_name cfg) (fe_namespace cfg) (CHR ''/'' # ''attend'' @ CHR ''?'' # ''id='' @ show_int i)) x s
      = Some (0, s') \<and> mesh_asked s s' c x (mesh_peer cfg Attend_Service) (CHR ''/'' # ''attend'') (''id='' @ show_int i)"
    unfolding mesh_peer.simps using r length_show_int [OF i] by (intro upstream_asks [OF r]) (auto simp: mesh_ready_def mcfg_ok_def)
  then show "\<exists>s'. fo_ask_attend (mesh_fe_ops cfg) c i x s = Some (0, s') \<and> mesh_asked s s' c x (mesh_peer cfg Attend_Service) ''/attend'' (''id='' @ show_int i)"
    by (simp add: mesh_fe_ops_def)
qed (auto simp: mesh_fe_ops_def mesh_ctxs_frame dest: mesh_respond_frame conn_upstream_frame(1) mesh_ctx_calloc_frame upstream_fails_live)

section \<open>The services over the mesh\<close>

text \<open>C24. Every request to a leaf service over the mesh is answered: one response to that request is queued
  in the TX ring, with the id or the attendance, or with the status and the text of the first check
  that fails (with their announced lengths, one short for all but one).\<close>

theorem mesh_leaf_services_answer:
  assumes "mesh_live st a" and "kv_store_wf store"
  shows "(\<exists>st'. mesh_id_service store a req st = Some st' \<and> mesh_answer st st' a = Some (id_reply store req))
    \<and> (\<exists>st'. mesh_attend_service store a req st = Some st' \<and> mesh_answer st st' a = Some (attend_reply store req))"
  unfolding mesh_id_service_def mesh_attend_service_def
  using over_mesh.id_answers [OF assms] over_mesh.attend_answers [OF assms(1)] by blast

lemma demo_mesh_live: "mesh_live demo_mesh 0"
  using demo_ctx_inv demo_ctx_free
  by (simp add: mesh_live_def DPUMESH_MAX_PENDING_def names_ok_def plain_def)
    (simp add: demo_ctx_def blank_inbound_def DPUMESH_MAX_PENDING_def)

theorem mesh_leaf_services_answer_witness:
  "\<exists>st'. mesh_id_service \<lparr>entries = []\<rparr> 0 http_request_zero demo_mesh = Some st'
     \<and> mesh_answer demo_mesh st' 0 = Some (404, butlast (error_text ''not found''))"
proof -
  have "kv_store_wf \<lparr>entries = []\<rparr>" by (simp add: kv_store_wf_def)
  from mesh_leaf_services_answer [OF demo_mesh_live this, of http_request_zero] show ?thesis
    by (simp add: id_reply_def is_get_def http_request_zero_def)
qed

lemma mesh_fe_simps:
  "fo_get (mesh_fe_ops cfg) x st = ms_ctxs st x"
  "fo_upstream (mesh_fe_ops cfg) u st = map_option (\<lambda>uc. (c_client_conn uc, c_handler_ctx uc)) (ms_conns st u)"
  by (simp_all add: mesh_fe_ops_def)

text \<open>C25. The frontend's chain of calls over the mesh: a lookup with a name asks the id service, under the URL
  of its configured name and namespace, and keeps the name in a new context; the id that comes back is
  kept in the same context and the attend service is asked under its own URL.\<close>

theorem mesh_frontend_chain:
  assumes "mesh_ready cfg st a" and "name_ok name"
  shows "(is_get req ''/lookup'' \<longrightarrow> query_get (Some (cstring (req_query req))) (Some ''name'') 64 = Some name \<longrightarrow>
      (\<exists>s st'. mesh_frontend cfg a req st = Some st' \<and> mesh_asked s st' a (ms_next_ctx st) (id_service_name cfg, fe_namespace cfg) ''/id'' (''name='' @ name)
        \<and> ms_ctxs st' (ms_next_ctx st) = Some \<lparr>fx_stage = STAGE_WAITING_ID, fx_name = name, fx_id = 0\<rparr>))
    \<and> (\<forall>u uc x i. ms_conns st u = Some uc \<longrightarrow> c_client_conn uc = Some a \<longrightarrow> c_handler_ctx uc = Some x \<longrightarrow>
      ms_ctxs st x = Some \<lparr>fx_stage = STAGE_WAITING_ID, fx_name = name, fx_id = 0\<rparr> \<longrightarrow> in_i32 i \<longrightarrow>
      (\<exists>s st'. mesh_frontend_upstream cfg u (parsed_response 200 (id_body i)) st = Some st'
        \<and> mesh_asked s st' a x (attend_service_name cfg, fe_namespace cfg) ''/attend'' (''id='' @ show_int i)
        \<and> ms_ctxs st' x = Some \<lparr>fx_stage = STAGE_WAITING_ATTEND, fx_name = name, fx_id = i\<rparr>))"
proof (intro conjI allI impI)
  let ?v = "\<lparr>fx_stage = STAGE_WAITING_ID, fx_name = name, fx_id = 0\<rparr>"
  have "ms_mem st = []" using assms(1) by (simp add: mesh_ready_def)
  then have al: "fo_calloc (mesh_fe_ops cfg) ?v st = (Some (ms_next_ctx st),
      st\<lparr>ms_ctxs := (ms_ctxs st)(ms_next_ctx st \<mapsto> ?v), ms_next_ctx := Suc (ms_next_ctx st)\<rparr>)"
    by (simp add: mesh_fe_ops_def mesh_ctx_calloc_def mesh_calloc_def)
  assume "is_get req ''/lookup''" "query_get (Some (cstring (req_query req))) (Some ''name'') 64 = Some name"
  note asks = fe_mesh.lookup_asks_id [OF this assms(2,1) al]
  show "\<exists>s st'. mesh_frontend cfg a req st = Some st' \<and> mesh_asked s st' a (ms_next_ctx st) (id_service_name cfg, fe_namespace cfg) ''/id'' (''name='' @ name)
      \<and> ms_ctxs st' (ms_next_ctx st) = Some ?v"
    using asks unfolding mesh_frontend_def mesh_fe_simps mesh_peer.simps by blast
next
  fix u uc x i
  assume u: "ms_conns st u = Some uc" "c_client_conn uc = Some a" "c_handler_ctx uc = Some x" "in_i32 i"
    "ms_ctxs st x = Some \<lparr>fx_stage = STAGE_WAITING_ID, fx_name = name, fx_id = 0\<rparr>"
  have p: "resp_status_code (parsed_response 200 (id_body i)) = 200"
      "parse_id (cstring (resp_body (parsed_response 200 (id_body i)))) = Some i"
    using parse_id_body [OF u(4)] id_body_ok [of i] u(4) by (simp_all add: parsed_response_def BODY_SIZE_def)
  have "fo_upstream (mesh_fe_ops cfg) u st = Some (Some a, Some x)" using u by (simp add: mesh_fe_simps)
  note asks = fe_mesh.id_response_asks_attend [OF this _ _ p u(4) assms(1)]
  show "\<exists>s st'. mesh_frontend_upstream cfg u (parsed_response 200 (id_body i)) st = Some st'
      \<and> mesh_asked s st' a x (attend_service_name cfg, fe_namespace cfg) ''/attend'' (''id='' @ show_int i)
      \<and> ms_ctxs st' x = Some \<lparr>fx_stage = STAGE_WAITING_ATTEND, fx_name = name, fx_id = i\<rparr>"
    using asks u(5) unfolding mesh_frontend_upstream_def mesh_fe_simps mesh_peer.simps by fastforce
qed

definition demo_fe_mesh :: "frontend_ctx mesh" where
  "demo_fe_mesh = \<lparr>ms_ctx = demo_ctx, ms_conns = [0 \<mapsto> blank_dpu_conn, 1 \<mapsto> blank_dpu_conn\<lparr>c_client_conn := Some 0, c_handler_ctx := Some 0\<rparr>],
     ms_next = 2, ms_ctxs = [0 \<mapsto> \<lparr>fx_stage = STAGE_WAITING_ID, fx_name = ''bob'', fx_id = 0\<rparr>], ms_next_ctx = 1, ms_mem = [],
     ms_fds = [Some (5, 6)]\<rparr>"

lemma demo_fe_mesh_ready: "mesh_ready (mesh_main_config (\<lambda>_. None)) demo_fe_mesh 0"
proof -
  have "mesh_live demo_fe_mesh 0"
    using demo_ctx_inv demo_ctx_free
    by (simp add: mesh_live_def DPUMESH_MAX_PENDING_def names_ok_def plain_def demo_fe_mesh_def)
      (simp add: demo_ctx_def blank_inbound_def DPUMESH_MAX_PENDING_def)
  then show ?thesis by (simp add: mesh_ready_def mcfg_ok_def mesh_main_config_def demo_fe_mesh_def)
qed

theorem mesh_frontend_chain_witness:
  "\<exists>s st'. mesh_frontend_upstream (mesh_main_config (\<lambda>_. None)) 1 (parsed_response 200 (id_body 5)) demo_fe_mesh = Some st'
     \<and> mesh_asked s st' 0 0 (''attend-service'', ''mini-ms-dpumesh'') ''/attend'' (''id='' @ show_int 5)"
proof -
  let ?cfg = "mesh_main_config (\<lambda>_. None)"
  have n: "name_ok ''bob''" "in_i32 5" by (simp_all add: name_ok_def in_i32_def)
  have c: "ms_conns demo_fe_mesh 1 = Some (blank_dpu_conn\<lparr>c_client_conn := Some 0, c_handler_ctx := Some 0\<rparr>)"
      "c_client_conn (blank_dpu_conn\<lparr>c_client_conn := Some 0, c_handler_ctx := Some 0\<rparr>) = Some 0"
      "c_handler_ctx (blank_dpu_conn\<lparr>c_client_conn := Some 0, c_handler_ctx := Some 0\<rparr>) = Some 0"
      "ms_ctxs demo_fe_mesh 0 = Some \<lparr>fx_stage = STAGE_WAITING_ID, fx_name = ''bob'', fx_id = 0\<rparr>" by (simp_all add: demo_fe_mesh_def)
  have p: "(attend_service_name ?cfg, fe_namespace ?cfg) = (''attend-service'', ''mini-ms-dpumesh'')"
    by (simp add: mesh_main_config_def)
  from mesh_frontend_chain [OF demo_fe_mesh_ready n(1), of http_request_zero, THEN conjunct2, rule_format, OF c n(2), unfolded p]
  show ?thesis by blast
qed

text \<open>An upstream response that ends a lookup, over the mesh: the answer queued for the client's request
  is the same as over TCP (the upstream error passed on, 502 for a response without an id, or the
  assembled object), and the context is freed.\<close>

theorem mesh_frontend_answers:
  assumes "ms_conns st u = Some uc" and "c_client_conn uc = Some a" and "c_handler_ctx uc = Some x" and "ms_ctxs st x = Some ctx"
    and "mesh_live st a" and "ctx_ok ctx" and "resp_ok resp" and "frontend_reply ctx resp = Some r"
  shows "\<exists>st'. mesh_frontend_upstream cfg u resp st = Some st' \<and> ms_ctxs st' x = None \<and> mesh_answer st st' a = Some r"
proof -
  have "fo_upstream (mesh_fe_ops cfg) u st = Some (Some a, Some x)" "fo_get (mesh_fe_ops cfg) x st = Some ctx"
    using assms(1-4) by (simp_all add: mesh_fe_simps)
  from fe_mesh.upstream_response_answers [OF this assms(5-8)] show ?thesis
    by (simp add: mesh_frontend_upstream_def mesh_fe_simps)
qed

theorem mesh_frontend_answers_witness:
  "\<exists>st'. mesh_frontend_upstream (mesh_main_config (\<lambda>_. None)) 1 (parsed_response 404 ''gone'') demo_fe_mesh = Some st'
     \<and> ms_ctxs st' 0 = None \<and> mesh_answer demo_fe_mesh st' 0 = Some (404, ''gone'')"
proof (rule mesh_frontend_answers)
  show "ms_conns demo_fe_mesh 1 = Some (blank_dpu_conn\<lparr>c_client_conn := Some 0, c_handler_ctx := Some 0\<rparr>)"
      "ms_ctxs demo_fe_mesh 0 = Some \<lparr>fx_stage = STAGE_WAITING_ID, fx_name = ''bob'', fx_id = 0\<rparr>" by (simp_all add: demo_fe_mesh_def)
  show "mesh_live demo_fe_mesh 0" using demo_fe_mesh_ready by (simp add: mesh_ready_def)
qed (simp_all add: ctx_ok_def resp_ok_def parsed_response_def BODY_SIZE_def frontend_reply_def in_i32_def)

section \<open>A call over the mesh\<close>

lemma write_response_pipes:
  assumes "ctx_inv cx" and "dpumesh_write cx (respond_msg i status body n) False None = Some (rc, cx', out)"
  shows "cx_pipes cx' = cx_pipes cx" and "cx_notify_fd cx' = cx_notify_fd cx"
  using response_write_frame [OF assms(1) respond_msg_simps(1) assms(2)] by auto

lemma mesh_respond_quiet:
  assumes "ctx_inv (ms_ctx s)" and "mesh_respond a status body n s = Some s'" and "ms_conns s a = Some c" and "c_fd c < 0"
  shows "cx_notify_fd (ms_ctx s') = cx_notify_fd (ms_ctx s)" and "cx_pipes (ms_ctx s') = cx_pipes (ms_ctx s)"
  using assms write_response_pipes [OF assms(1)]
  by (auto simp: mesh_respond_def dpumesh_conn_respond_def dpu_conn_free_def bind_eq_Some_conv)

text \<open>A leaf service over the mesh: every request ends with one call to respond, which announces the reply.\<close>

definition mesh_leaf :: "'x mesh_request_handler \<Rightarrow> (http_request \<Rightarrow> int \<times> string) \<Rightarrow> bool" where
  "mesh_leaf svc reply \<longleftrightarrow> (\<forall>a req s. \<exists>body n. svc a req s = mesh_respond a (fst (reply req)) body n s \<and> announces (reply req) body n)"

lemma mesh_leaf_id: "kv_store_wf store \<Longrightarrow> mesh_leaf (mesh_id_service store) (id_reply store)"
  unfolding mesh_leaf_def mesh_id_service_def by (metis id_responds)

lemma mesh_leaf_attend: "mesh_leaf (mesh_attend_service store) (attend_reply store)"
  unfolding mesh_leaf_def mesh_attend_service_def by (metis attend_responds)

text \<open>What responding on a connection without a descriptor changes.\<close>

lemma respond_exact:
  assumes "ctx_inv (ms_ctx s)" and "dpumesh_conn_respond a status body n s = Some s'" and "ms_conns s a = Some c" and "c_fd c < 0"
  obtains ib th tb sq where "s' = s\<lparr>ms_ctx := (ms_ctx s)\<lparr>cx_inbound := ib, cx_tx_header := th, cx_tx_body := tb, cx_tx_sq := sq\<rparr>,
    ms_conns := (ms_conns s)(a := None)\<rparr>" "ctx_inv (ms_ctx s')"
proof -
  obtain rc cx' out where w: "dpumesh_write (ms_ctx s) (respond_msg (dpu_desc_index c) status body n) False None = Some (rc, cx', out)"
      "dpu_conn_free a (s\<lparr>ms_ctx := cx'\<rparr>) = Some s'"
    using assms(2,3) by (auto simp: dpumesh_conn_respond_def bind_eq_Some_conv)
  have i: "ctx_inv cx'" using dpumesh_write_outcome [OF assms(1) w(1)] by blast
  have s': "s' = s\<lparr>ms_ctx := cx', ms_conns := (ms_conns s)(a := None)\<rparr>" using w(2) assms(3,4) by (cases s) (auto simp: dpu_conn_free_def)
  obtain ib th tb sq where "cx' = (ms_ctx s)\<lparr>cx_inbound := ib, cx_tx_header := th, cx_tx_body := tb, cx_tx_sq := sq\<rparr>"
    using response_write_frame [OF assms(1) respond_msg_simps(1) w(1)] by blast
  with s' i show ?thesis by (intro that) simp_all
qed

lemma queued_free_rx: "queued cx rid fl hdr body (free_rx cx' d) = queued cx rid fl hdr body cx'"
  by (simp add: queued_def free_rx_def Let_def)

lemma free_rx_keeps [simp]:
  "cx_worker_id (free_rx cx d) = cx_worker_id cx" "cx_poller_running (free_rx cx d) = cx_poller_running cx"
  "cx_notify_fd (free_rx cx d) = cx_notify_fd cx" "cx_notify_write_fd (free_rx cx d) = cx_notify_write_fd cx"
  "cx_pipes (free_rx cx d) = cx_pipes cx" "cx_rx_sq (free_rx cx d) = cx_rx_sq cx" "cx_tx_sq (free_rx cx d) = cx_tx_sq cx"
  "cx_tx_header (free_rx cx d) = cx_tx_header cx" "cx_tx_body (free_rx cx d) = cx_tx_body cx" "cx_inbound (free_rx cx d) = cx_inbound cx"
  "cx_response_pipe_fds (free_rx cx d) = cx_response_pipe_fds cx" "cx_next_req_id (free_rx cx d) = cx_next_req_id cx"
  "cx_pod_id (free_rx cx d) = cx_pod_id cx"
  by (simp_all add: free_rx_def Let_def)

lemma plain_take: "plain s \<Longrightarrow> plain (take n s)"
  by (auto simp: plain_def dest: in_set_takeD)

lemma queued_same_tx:
  assumes "same_tx cx0 cx" and "tx_free cx0"
  shows "tx_free cx"
  using assms by (simp add: same_tx_def tx_free_def)

text \<open>What the event for a request leaves of a worker.\<close>

definition worker_kept :: "'x mesh \<Rightarrow> 'x mesh \<Rightarrow> bool" where
  "worker_kept rx rx' \<longleftrightarrow> ctx_inv (ms_ctx rx') \<and> ms_conns rx' = (ms_conns rx)(ms_next rx := None) \<and> ms_next rx' = Suc (ms_next rx)
     \<and> ms_mem rx' = ms_mem rx \<and> ms_ctxs rx' = ms_ctxs rx
     \<and> cx_worker_id (ms_ctx rx') = cx_worker_id (ms_ctx rx) \<and> cx_poller_running (ms_ctx rx') = cx_poller_running (ms_ctx rx)
     \<and> cx_notify_fd (ms_ctx rx') = cx_notify_fd (ms_ctx rx) \<and> cx_notify_write_fd (ms_ctx rx') = cx_notify_write_fd (ms_ctx rx)
     \<and> cx_pipes (ms_ctx rx') = snd (pipe_read (cx_notify_fd (ms_ctx rx)) (cx_pipes (ms_ctx rx)))
     \<and> cx_rx_sq (ms_ctx rx') = cx_rx_sq (ms_ctx rx)"

text \<open>The worker of a leaf service: the event for a request ends with the reply queued for it.\<close>

lemma leaf_worker_replies:
  fixes rx :: "'y mesh"
  assumes "mesh_leaf svc reply" and "header_ok h" and "length (header_text h) < HDR_SIZE" and "mh_method h = ''GET''"
    and "target_ok ''GET'' (mh_path h) (query_of (mh_query h))" and "set (mh_path h @ mh_query h) \<inter> {NUL, CR, LF} = {}"
    and "received (ms_ctx rx) d (header_text h) [NUL]" and "flags d = 3" and "valid d = 1"
    and "ctx_inv (ms_ctx rx)" and "tx_free (ms_ctx rx)" and "ms_mem rx = []"
    and "pipe_contents (cx_notify_fd (ms_ctx rx)) (cx_pipes (ms_ctx rx)) = [d]"
    and "plain (cx_worker_id (ms_ctx rx))" and "length (cx_worker_id (ms_ctx rx)) < 128"
    and rep: "rep = reply (parsed_request ''GET'' (mh_path h) (query_of (mh_query h)) [])"
  obtains rx' cx msg h' where "on_notify_cb svc rx = Some rx'" "worker_kept rx rx'"
    "queued cx (req_id d) (answer_flags cx msg) (header_text h') (snd rep) (ms_ctx rx')" "cx_tx_sq cx = cx_tx_sq (ms_ctx rx)"
    "header_ok h'" "length (header_text h') < HDR_SIZE" "mh_status h' = fst rep" "0 < fst rep"
    "snd rep \<noteq> []" "length (snd rep) < 4096" "NUL \<notin> set (snd rep)"
proof -
  let ?req = "parsed_request ''GET'' (mh_path h) (query_of (mh_query h)) []"
  have "flags d AND 0x0F \<noteq> CASE_INGRESS" using assms(8) by (simp add: CASE_INGRESS_def)
  then have dec: "decode_request ((ms_ctx rx)\<lparr>cx_pipes := ps\<rparr>) d = Some (delivered_request h [NUL] d, header_read (ms_ctx rx) ps h)" for ps
    using decode_local [OF assms(2) _ assms(3), of "(ms_ctx rx)\<lparr>cx_pipes := ps\<rparr>" d "[NUL]"] assms(7)
    by (simp add: received_pipes DPUMESH_SLOT_SIZE_def header_read_def)
  have m: "match_at eq_nocase (''GET'' @ '' '') ''Content-Length:'' = Some False" by code_simp
  have "length (mh_path h) \<le> 255" "length (mh_query h) \<le> 511"
    using assms(5) by (auto simp: target_ok_def query_of_def split: if_splits)
  then have ok: "request_ok (delivered_request h [NUL] d) ''GET'' (mh_path h) (mh_query h) [NUL]"
    using assms(4-6) m by (simp add: request_ok_def delivered_request_def body_of_def)
  have e: "body_of [NUL] = []" by (simp add: body_of_def)
  obtain c where c: "dpu_desc_index c = pending_index (req_id d)" "c_fd c = -1"
      "(\<And>s'. svc (ms_next rx) ?req (called_with rx d h [NUL] c) = Some s' \<Longrightarrow>
        cx_notify_fd (ms_ctx s') = cx_notify_fd (ms_ctx rx) \<and> pipe_contents (cx_notify_fd (ms_ctx rx)) (cx_pipes (ms_ctx s')) = [])
      \<Longrightarrow> on_notify_cb svc rx = do { s' \<leftarrow> svc (ms_next rx) ?req (called_with rx d h [NUL] c); Some (s'\<lparr>ms_ctx := free_rx (ms_ctx s') d\<rparr>) }"
    using notify_calls [OF dec assms(9,12,13) ok, of svc] unfolding e by blast
  let ?s = "called_with rx d h [NUL] c"
  have i: "ctx_inv (ms_ctx ?s)" by (rule called_with_inv [OF assms(10)])
  have tx: "same_tx (ms_ctx rx) (ms_ctx ?s)" by (simp add: called_with_def header_read_def store_inbound_def same_tx_def)
  note ib = called_with_inbound [OF assms(10), of d h "[NUL]" c]
  have names: "names_ok (ms_ctx ?s) (dpu_desc_index c)"
    using ib tx assms(2,14,15) by (simp add: names_ok_def same_tx_def header_ok_def plain_take min_less_iff_disj c(1))
  obtain body n where b: "svc (ms_next rx) ?req ?s = mesh_respond (ms_next rx) (fst rep) body n ?s" "announces rep body n"
    using assms(1) rep unfolding mesh_leaf_def by metis
  have "in_i32 (fst rep)" using b(2) by (simp add: announces_def in_i32_def)
  note ah = answer_header_names [OF names this, of "body @ [NUL]" n]
  let ?h = "answer_header (ms_ctx ?s) (respond_msg (dpu_desc_index c) (fst rep) (body @ [NUL]) n)"
  have n: "n \<le> length (body @ [NUL])" "n < 4096" "0 < n" "take n (body @ [NUL]) = snd rep" using b(2) by (simp_all add: announces_def)
  have cs: "ms_conns ?s (ms_next rx) = Some c" "dpu_desc_index c < DPUMESH_MAX_PENDING" by (simp_all add: c(1) pending_index_less)
  obtain s' where s': "dpumesh_conn_respond (ms_next rx) (fst rep) (body @ [NUL]) n ?s = Some s'"
      "queued (ms_ctx ?s) (req_id d) (answer_flags (ms_ctx ?s) (respond_msg (dpu_desc_index c) (fst rep) (body @ [NUL]) n))
        (header_text ?h) (snd rep) (ms_ctx s')"
    using conn_respond_queued [OF i queued_same_tx [OF tx assms(11)] cs n(1-3) ah(2)] unfolding c(1) ib(1) n(4) by blast
  obtain ibs th tb sq where f: "s' = ?s\<lparr>ms_ctx := (ms_ctx ?s)\<lparr>cx_inbound := ibs, cx_tx_header := th, cx_tx_body := tb, cx_tx_sq := sq\<rparr>,
      ms_conns := (ms_conns ?s)(ms_next rx := None)\<rparr>" "ctx_inv (ms_ctx s')"
    by (rule respond_exact [OF i s'(1) cs(1)]) (simp add: c(2))
  have r: "svc (ms_next rx) ?req ?s = Some s'" using b(1) s'(1) by (simp add: mesh_respond_def)
  have "pipe_contents (cx_notify_fd (ms_ctx rx)) (snd (pipe_read (cx_notify_fd (ms_ctx rx)) (cx_pipes (ms_ctx rx)))) = []"
    using pipe_contents_read [OF assms(13)] by simp
  then have "on_notify_cb svc rx = Some (s'\<lparr>ms_ctx := free_rx (ms_ctx s') d\<rparr>)"
    using c(3) r f(1) by (simp add: called_with_def header_read_def store_inbound_def)
  moreover have "worker_kept rx (s'\<lparr>ms_ctx := free_rx (ms_ctx s') d\<rparr>)"
    using free_rx_used(3) [OF f(2), of d]
    by (simp add: worker_kept_def) (simp add: f(1) called_with_def header_read_def store_inbound_def put_dpu_def)
  moreover have "queued (ms_ctx ?s) (req_id d) (answer_flags (ms_ctx ?s) (respond_msg (dpu_desc_index c) (fst rep) (body @ [NUL]) n))
        (header_text ?h) (snd rep) (ms_ctx (s'\<lparr>ms_ctx := free_rx (ms_ctx s') d\<rparr>))"
    using s'(2) by (simp add: queued_free_rx)
  moreover have "cx_tx_sq (ms_ctx ?s) = cx_tx_sq (ms_ctx rx)" using tx by (simp add: same_tx_def)
  moreover have "snd rep = take n body" using b(2) by (simp add: announces_def)
  then have "snd rep \<noteq> []" "length (snd rep) < 4096" "NUL \<notin> set (snd rep)" "0 < fst rep"
    using b(2) set_take_subset [of n body] by (auto simp: announces_def)
  ultimately show ?thesis using ah(1,2,3) that by blast
qed

end
