(* ===== verification/Mesh_Lookup.thy ===== *)
theory Mesh_Lookup
  imports Mesh_Services Lookup
begin

text \<open>
  A whole lookup over the mesh: the frontend, the id service and the attend service as three workers, each
  with its event loop and its poller thread, and the mesh that moves messages between them. The mesh is
  the program's environment and a parameter here: a function on the contexts of a sender and a
  receiver. What the code relies on is that it moves the one message queued at the sender into
  slots and the ring of the receiver, and changes nothing else (\<open>delivers\<close>).
\<close>

section \<open>The mesh\<close>

type_synonym mesh_move = "dpumesh_ctx \<Rightarrow> dpumesh_ctx \<Rightarrow> dpumesh_ctx \<times> dpumesh_ctx"

definition drained :: "dpumesh_ctx \<Rightarrow> dpumesh_ctx \<Rightarrow> bool" where
  "drained cx cx' \<longleftrightarrow> (\<exists>th tb sq. cx' = cx\<lparr>cx_tx_header := th, cx_tx_body := tb, cx_tx_sq := sq\<rparr>)
     \<and> ctx_inv cx' \<and> tx_free cx' \<and> dr_list (cx_tx_sq cx') = []"

definition filled :: "dpumesh_ctx \<Rightarrow> sw_descriptor \<Rightarrow> dpumesh_ctx \<Rightarrow> dpumesh_ctx \<Rightarrow> sw_descriptor \<Rightarrow> bool" where
  "filled cx d rx rx' d' \<longleftrightarrow> (\<exists>rh rb sq. rx' = rx\<lparr>cx_rx_header := rh, cx_rx_body := rb, cx_rx_sq := sq\<rparr>)
     \<and> ctx_inv rx' \<and> dr_list (cx_rx_sq rx') = [d'] \<and> relayed cx d rx' d'"

definition delivers :: "mesh_move \<Rightarrow> bool" where
  "delivers mesh \<longleftrightarrow> (\<forall>cx rx d. ctx_inv cx \<longrightarrow> ctx_inv rx \<longrightarrow> dr_list (cx_tx_sq cx) = [d] \<longrightarrow> dr_list (cx_rx_sq rx) = []
     \<longrightarrow> 0 \<le> sint (header_buf_slot d) \<longrightarrow> 0 \<le> sint (body_buf_slot d)
     \<longrightarrow> drained cx (fst (mesh cx rx)) \<and> (\<exists>d'. filled cx d rx (snd (mesh cx rx)) d'))"

lemma delivers_queued:
  assumes "delivers mesh" and "queued cx0 rid fl (header_text h) body cx" and "dr_list (cx_tx_sq cx0) = []" and "length (header_text h) < HDR_SIZE"
    and "length body \<le> DPUMESH_SLOT_SIZE" and "ctx_inv cx" and "ctx_inv rx" and "dr_list (cx_rx_sq rx) = []"
  obtains cx' rx' d where "mesh cx rx = (cx', rx')" "drained cx cx'" "\<exists>rh rb sq. rx' = rx\<lparr>cx_rx_header := rh, cx_rx_body := rb, cx_rx_sq := sq\<rparr>"
    "ctx_inv rx'" "dr_list (cx_rx_sq rx') = [d]" "received rx' d (header_text h) body" "req_id d = rid" "flags d = fl" "valid d = 1"
proof -
  obtain d0 where d0: "dr_list (cx_tx_sq cx) = [d0]" "0 \<le> sint (header_buf_slot d0)" "0 \<le> sint (body_buf_slot d0)"
    using assms(2,3) by (auto simp: queued_def tx_descriptor_def sint_slot)
  obtain cx' rx' where m: "mesh cx rx = (cx', rx')" by (rule prod.exhaust)
  obtain d where d: "drained cx cx'" "filled cx d0 rx rx' d"
    using assms(1) [unfolded delivers_def, rule_format, OF assms(6,7) d0(1) assms(8) d0(2,3)] m by auto
  have "relayed cx (last (dr_list (cx_tx_sq cx))) rx' d" using d(2) d0(1) by (simp add: filled_def)
  from queued_received [OF assms(2) this assms(4,5)] d m show ?thesis by (intro that) (auto simp: filled_def)
qed

section \<open>A leaf service's turn\<close>

text \<open>The mesh moves the sender's message to the worker, its poller passes it on, its event loop serves it,
  and the mesh moves the response back.\<close>

definition leaf_turn :: "mesh_move \<Rightarrow> 'y mesh_request_handler \<Rightarrow> dpumesh_ctx \<Rightarrow> 'y mesh \<Rightarrow> (dpumesh_ctx \<times> 'y mesh) option" where
  "leaf_turn mesh svc cx w = do {
     let (cx1, wc) = mesh cx (ms_ctx w);
     wc1 \<leftarrow> dpumesh_poller_step wc;
     w1 \<leftarrow> on_notify_cb svc (w\<lparr>ms_ctx := wc1\<rparr>);
     let (wc2, cx2) = mesh (ms_ctx w1) cx1;
     Some (cx2, w1\<lparr>ms_ctx := wc2\<rparr>)
   }"

text \<open>A worker between two events, with these messages in its RX ring.\<close>

definition idle :: "'y mesh \<Rightarrow> sw_descriptor list \<Rightarrow> bool" where
  "idle w ds \<longleftrightarrow> ctx_inv (ms_ctx w) \<and> tx_free (ms_ctx w) \<and> dr_list (cx_tx_sq (ms_ctx w)) = [] \<and> dr_list (cx_rx_sq (ms_ctx w)) = ds
     \<and> ms_mem w = [] \<and> cx_poller_running (ms_ctx w)
     \<and> pipe_ends (cx_pipes (ms_ctx w)) (cx_notify_fd (ms_ctx w)) (cx_notify_write_fd (ms_ctx w))
     \<and> pipe_contents (cx_notify_fd (ms_ctx w)) (cx_pipes (ms_ctx w)) = []
     \<and> plain (cx_worker_id (ms_ctx w)) \<and> length (cx_worker_id (ms_ctx w)) < 128
     \<and> (\<forall>b. ms_next w \<le> b \<longrightarrow> ms_conns w b = None)"

lemma poller_request:
  assumes "ctx_inv cx" and "cx_poller_running cx" and "dr_list (cx_rx_sq cx) = d # ds" and "valid d = 1" and "\<not> is_response d"
    and "pipe_ends (cx_pipes cx) (cx_notify_fd cx) (cx_notify_write_fd cx)" and "pipe_contents (cx_notify_fd cx) (cx_pipes cx) = []"
  obtains sq ps where "dpumesh_poller_step cx = Some (cx\<lparr>cx_rx_sq := sq, cx_pipes := ps\<rparr>)" "dr_inv sq" "dr_list sq = ds"
    "pipe_contents (cx_notify_fd cx) ps = [d]" "pp_fds ps = pp_fds (cx_pipes cx)"
proof -
  have "dr_inv (cx_rx_sq cx)" using assms(1) by (simp add: ctx_inv_def)
  then obtain sq where sq: "dr_get (cx_rx_sq cx) = Some (Some d, sq)" "dr_inv sq" "dr_list sq = ds"
    using assms(3) by (rule dr_get_head)
  let ?ps = "cx_pipes cx"
  obtain k where k: "map_of (pp_fds ?ps) (cx_notify_fd cx) = Some (Read_End k)" "map_of (pp_fds ?ps) (cx_notify_write_fd cx) = Some (Write_End k)"
      "pp_data ?ps k = []"
    using assms(6,7) by (auto simp: pipe_ends_def pipe_contents_def)
  let ?ps1 = "?ps\<lparr>pp_data := (pp_data ?ps)(k := [d])\<rparr>"
  have "pipe_write (cx_notify_write_fd cx) d ?ps = Some ?ps1"
    using pipe_write_ends [OF k(1,2), of d] k(3) by (simp add: PIPE_CAPACITY_def)
  then have "dpumesh_poller_step cx = Some (cx\<lparr>cx_rx_sq := sq, cx_pipes := ?ps1\<rparr>)"
    using assms(2,4,5) sq by (simp add: dpumesh_poller_step_def poller_deliver_def)
  moreover have "pipe_contents (cx_notify_fd cx) ?ps1 = [d]" using k(1) by (simp add: pipe_contents_def)
  ultimately show ?thesis using that [of ?ps1 sq] sq(2,3) by simp
qed

text \<open>The sender of a message and the receiver of the response: the message is gone from the TX ring and the
  response is the only entry of the RX ring.\<close>

definition replied :: "dpumesh_ctx \<Rightarrow> u32 \<Rightarrow> int \<times> string \<Rightarrow> dpumesh_ctx \<Rightarrow> bool" where
  "replied cx rid rep cx' \<longleftrightarrow> (\<exists>th tb tsq rh rb rsq. cx' = cx\<lparr>cx_tx_header := th, cx_tx_body := tb, cx_tx_sq := tsq,
       cx_rx_header := rh, cx_rx_body := rb, cx_rx_sq := rsq\<rparr>)
     \<and> ctx_inv cx' \<and> tx_free cx' \<and> dr_list (cx_tx_sq cx') = []
     \<and> (\<exists>d h. dr_list (cx_rx_sq cx') = [d] \<and> received cx' d (header_text h) (snd rep) \<and> req_id d = rid \<and> is_response d \<and> valid d = 1
          \<and> header_ok h \<and> length (header_text h) < HDR_SIZE \<and> mh_status h = fst rep)
     \<and> 0 < fst rep \<and> snd rep \<noteq> [] \<and> length (snd rep) < 4096 \<and> NUL \<notin> set (snd rep)"

lemma leaf_turn_replies:
  assumes "delivers mesh" and "idle w []" and "mesh_leaf svc reply" and "ctx_inv cx" and "dr_list (cx_rx_sq cx) = []"
    and "queued cx0 rid 3 (header_text h) [NUL] cx" and "dr_list (cx_tx_sq cx0) = []"
    and "header_ok h" and "length (header_text h) < HDR_SIZE" and "mh_method h = ''GET''"
    and "target_ok ''GET'' (mh_path h) (query_of (mh_query h))" and "set (mh_path h @ mh_query h) \<inter> {NUL, CR, LF} = {}"
    and rep: "rep = reply (parsed_request ''GET'' (mh_path h) (query_of (mh_query h)) [])"
  obtains cx2 w2 where "leaf_turn mesh svc cx w = Some (cx2, w2)" "replied cx rid rep cx2" "idle w2 []" "ms_conns w2 = ms_conns w"
proof -
  have w: "ctx_inv (ms_ctx w)" "dr_list (cx_rx_sq (ms_ctx w)) = []" "dr_list (cx_tx_sq (ms_ctx w)) = []" "tx_free (ms_ctx w)"
    using assms(2) by (simp_all add: idle_def)
  have n1: "length [NUL] \<le> DPUMESH_SLOT_SIZE" by (simp add: DPUMESH_SLOT_SIZE_def)
  obtain cx1 wc d where m1: "mesh cx (ms_ctx w) = (cx1, wc)" "drained cx cx1"
      "\<exists>rh rb sq. wc = (ms_ctx w)\<lparr>cx_rx_header := rh, cx_rx_body := rb, cx_rx_sq := sq\<rparr>"
      "ctx_inv wc" "dr_list (cx_rx_sq wc) = [d]" "received wc d (header_text h) [NUL]" "req_id d = rid" "flags d = 3" "valid d = 1"
    by (rule delivers_queued [OF assms(1,6,7,9) n1 assms(4) w(1,2)])
  obtain rh rb sq0 where wc: "wc = (ms_ctx w)\<lparr>cx_rx_header := rh, cx_rx_body := rb, cx_rx_sq := sq0\<rparr>" using m1(3) by blast
  have nr: "\<not> is_response d" using m1(8) by (simp add: is_response_def OP_RESPONSE_def)
  have pw: "cx_poller_running wc" "pipe_ends (cx_pipes wc) (cx_notify_fd wc) (cx_notify_write_fd wc)"
      "pipe_contents (cx_notify_fd wc) (cx_pipes wc) = []"
    using assms(2) by (simp_all add: wc idle_def)
  obtain sq ps where p: "dpumesh_poller_step wc = Some (wc\<lparr>cx_rx_sq := sq, cx_pipes := ps\<rparr>)" "dr_inv sq" "dr_list sq = []"
      "pipe_contents (cx_notify_fd wc) ps = [d]" "pp_fds ps = pp_fds (cx_pipes wc)"
    by (rule poller_request [OF m1(4) pw(1) m1(5,9) nr pw(2,3)])
  let ?w1 = "w\<lparr>ms_ctx := wc\<lparr>cx_rx_sq := sq, cx_pipes := ps\<rparr>\<rparr>"
  have w1: "received (ms_ctx ?w1) d (header_text h) [NUL]" "ctx_inv (ms_ctx ?w1)" "tx_free (ms_ctx ?w1)" "ms_mem ?w1 = []"
      "pipe_contents (cx_notify_fd (ms_ctx ?w1)) (cx_pipes (ms_ctx ?w1)) = [d]" "plain (cx_worker_id (ms_ctx ?w1))"
      "length (cx_worker_id (ms_ctx ?w1)) < 128"
    using m1(4,6) p(2,4) assms(2) by (simp_all add: received_def ctx_inv_def idle_def tx_free_def wc)
  obtain w2 cxm msg h' where w2: "on_notify_cb svc ?w1 = Some w2" "worker_kept ?w1 w2"
      "queued cxm (req_id d) (answer_flags cxm msg) (header_text h') (snd rep) (ms_ctx w2)" "cx_tx_sq cxm = cx_tx_sq (ms_ctx ?w1)"
      "header_ok h'" "length (header_text h') < HDR_SIZE" "mh_status h' = fst rep" "0 < fst rep"
      "snd rep \<noteq> []" "length (snd rep) < 4096" "NUL \<notin> set (snd rep)"
    by (rule leaf_worker_replies [OF assms(3,8-12) w1(1) m1(8,9) w1(2-7) rep])
  have k: "ctx_inv (ms_ctx w2)" "dr_list (cx_tx_sq cxm) = []" "length (snd rep) \<le> DPUMESH_SLOT_SIZE"
    using w2(2,4,10) w(3) by (simp_all add: worker_kept_def wc DPUMESH_SLOT_SIZE_def)
  obtain th tb tsq where cx1: "cx1 = cx\<lparr>cx_tx_header := th, cx_tx_body := tb, cx_tx_sq := tsq\<rparr>"
    using m1(2) by (auto simp: drained_def)
  have i1: "ctx_inv cx1" "dr_list (cx_rx_sq cx1) = []" "tx_free cx1" "dr_list (cx_tx_sq cx1) = []"
    using m1(2) assms(5) by (simp_all add: drained_def cx1)
  obtain wc2 cx2 d2 where m2: "mesh (ms_ctx w2) cx1 = (wc2, cx2)" "drained (ms_ctx w2) wc2"
      "\<exists>rh rb sq. cx2 = cx1\<lparr>cx_rx_header := rh, cx_rx_body := rb, cx_rx_sq := sq\<rparr>"
      "ctx_inv cx2" "dr_list (cx_rx_sq cx2) = [d2]" "received cx2 d2 (header_text h') (snd rep)" "req_id d2 = req_id d"
      "flags d2 = answer_flags cxm msg" "valid d2 = 1"
    by (rule delivers_queued [OF assms(1) w2(3) k(2) w2(6) k(3,1) i1(1,2)])
  have turn: "leaf_turn mesh svc cx w = Some (cx2, w2\<lparr>ms_ctx := wc2\<rparr>)"
    using m1(1) p(1) w2(1) m2(1) by (simp add: leaf_turn_def)
  obtain rh2 rb2 rsq2 where cx2: "cx2 = cx1\<lparr>cx_rx_header := rh2, cx_rx_body := rb2, cx_rx_sq := rsq2\<rparr>" using m2(3) by blast
  have "replied cx rid rep cx2"
    unfolding replied_def
  proof (intro conjI)
    show "\<exists>th tb tsq rh rb rsq. cx2 = cx\<lparr>cx_tx_header := th, cx_tx_body := tb, cx_tx_sq := tsq, cx_rx_header := rh, cx_rx_body := rb, cx_rx_sq := rsq\<rparr>"
      unfolding cx2 cx1 by blast
    show "tx_free cx2" "dr_list (cx_tx_sq cx2) = []" using i1(3,4) by (simp_all add: cx2 tx_free_def)
    show "\<exists>d h. dr_list (cx_rx_sq cx2) = [d] \<and> received cx2 d (header_text h) (snd rep) \<and> req_id d = rid \<and> is_response d \<and> valid d = 1
          \<and> header_ok h \<and> length (header_text h) < HDR_SIZE \<and> mh_status h = fst rep"
      using m2(5-7,9) m1(7) w2(5-7) is_response_answer [OF m2(8)] by (intro exI [of _ d2] exI [of _ h']) simp
  qed (fact m2(4) w2(8-11))+
  moreover have "idle (w2\<lparr>ms_ctx := wc2\<rparr>) []"
  proof -
    obtain th' tb' tsq' where wc2: "wc2 = (ms_ctx w2)\<lparr>cx_tx_header := th', cx_tx_body := tb', cx_tx_sq := tsq'\<rparr>"
        "ctx_inv wc2" "tx_free wc2" "dr_list (cx_tx_sq wc2) = []"
      using m2(2) by (auto simp: drained_def)
    have "pp_fds (cx_pipes (ms_ctx w2)) = pp_fds (cx_pipes (ms_ctx w))" "cx_notify_fd (ms_ctx w2) = cx_notify_fd (ms_ctx w)"
        "pipe_contents (cx_notify_fd (ms_ctx w)) (cx_pipes (ms_ctx w2)) = []"
      using w2(2) p(5) pipe_contents_read [OF p(4)] by (simp_all add: worker_kept_def wc)
    moreover have "cx_worker_id (ms_ctx w2) = cx_worker_id (ms_ctx w)" "cx_poller_running (ms_ctx w2) = cx_poller_running (ms_ctx w)"
        "cx_notify_write_fd (ms_ctx w2) = cx_notify_write_fd (ms_ctx w)" "dr_list (cx_rx_sq (ms_ctx w2)) = []" "ms_mem w2 = []"
        "\<forall>b. ms_next w2 \<le> b \<longrightarrow> ms_conns w2 b = None"
      using w2(2) p(3) assms(2) by (simp_all add: worker_kept_def idle_def wc)
    ultimately show ?thesis
      using wc2(2-4) assms(2) unfolding idle_def by (simp add: wc2(1) pipe_ends_def)
  qed
  moreover have "ms_conns (w2\<lparr>ms_ctx := wc2\<rparr>) = ms_conns w"
    using w2(2) assms(2) by (auto simp: worker_kept_def idle_def)
  ultimately show ?thesis using turn that by blast
qed

section \<open>A client's request\<close>

text \<open>A request in the RX slots of a worker: from outside the mesh, with the header and the body combined in
  the body slot, or from another worker.\<close>

definition arrived :: "dpumesh_ctx \<Rightarrow> sw_descriptor \<Rightarrow> mesh_header \<Rightarrow> char list \<Rightarrow> bool" where
  "arrived cx d h body \<longleftrightarrow> header_ok h \<and> length (header_text h) < HDR_SIZE \<and> valid d = 1 \<and> \<not> is_response d
     \<and> (if flags d AND 0x0F = CASE_INGRESS
        then header_no_braces h \<and> BSL \<notin> set body \<and> NUL \<notin> set body \<and> 0 \<le> sint (body_buf_slot d)
          \<and> length (case2_text (header_text h) body) < DPUMESH_SLOT_SIZE
          \<and> unat (body_len d) = length (case2_text (header_text h) body)
          \<and> bp_read (cx_rx_body cx) (sint (body_buf_slot d)) (length (case2_text (header_text h) body))
              = Some (int (length (case2_text (header_text h) body)), case2_text (header_text h) body)
        else body \<noteq> [] \<and> length body < DPUMESH_SLOT_SIZE \<and> received cx d (header_text h) body)"

lemma length_escape_quotes: "length body \<le> length (escape_quotes body)"
  by (induction body) auto

lemma NUL_escape_quotes: "NUL \<notin> set body \<Longrightarrow> NUL \<notin> set (escape_quotes body)"
  by (induction body) auto

lemma decode_arrived:
  assumes "arrived cx d h body"
  shows "decode_request (cx\<lparr>cx_pipes := ps\<rparr>) d = Some (delivered_request h body d, header_read cx ps h)"
proof (cases "flags d AND 0x0F = CASE_INGRESS")
  case True
  let ?t = "case2_text (header_text h) body"
  have a: "header_ok h" "length (header_text h) < HDR_SIZE" "header_no_braces h" "BSL \<notin> set body" "NUL \<notin> set body"
      "0 \<le> sint (body_buf_slot d)" "length ?t < DPUMESH_SLOT_SIZE" "unat (body_len d) = length ?t"
      "bp_read (cx_rx_body cx) (sint (body_buf_slot d)) (length ?t) = Some (int (length ?t), ?t)"
    using assms True by (simp_all add: arrived_def)
  obtain s where s: "header_text h = ''{'' @ s @ ''}''" "braces s"
    using header_text_braces [OF a(3)] by blast
  have nb: "strstr (''{'' @ s) (quoted ''body'' @ '':'') = None"
    by (rule header_text_no_body [OF a(1), of _ "''}''"]) (simp add: s)
  have lb: "length body < DPUMESH_SLOT_SIZE"
    using a(7) length_escape_quotes [of body] by (simp add: case2_text_def)
  have p: "parse_case2_body ?t HDR_SIZE DPUMESH_SLOT_SIZE = (0, Some (header_text h), Some body)"
    using case2_parts [OF s(2) _ nb a(4) lb] a(2) by (simp add: s(1))
  have c: "cstring ?t = ?t"
    using header_text_NUL [OF a(1)] NUL_escape_quotes [OF a(5)] by (simp add: cstring_def case2_text_def)
  have "?t \<noteq> []" by (simp add: case2_text_def)
  then have pos: "body_len d > 0" using a(8) by (simp add: word_less_nat_alt)
  have len: "read_len (body_len d) DPUMESH_SLOT_SIZE = length ?t" using a(7,8) by (simp add: read_len_def)
  show ?thesis
    using True pos a(6,9) by (simp add: decode_request_def Let_def blank_request_def len c p read_header_fields_ok [OF a(1)]
      delivered_request_def header_read_def)
next
  case False
  then show ?thesis
    using assms decode_local [of h "cx\<lparr>cx_pipes := ps\<rparr>" d body] by (simp add: arrived_def received_pipes header_read_def)
qed

lemma arrived_pipes: "arrived (cx\<lparr>cx_rx_sq := sq, cx_pipes := ps\<rparr>) d h body = arrived cx d h body"
  by (simp add: arrived_def received_def)

section \<open>A call of the frontend\<close>

text \<open>A service's turn on the call of an upstream connection, and the response at the caller: one iteration
  of its poller and the event of the response pipe.\<close>

definition exchange_mesh :: "mesh_move \<Rightarrow> 'x mesh_upstream_handler \<Rightarrow> 'y mesh_request_handler \<Rightarrow> nat \<Rightarrow> 'x mesh \<Rightarrow> 'y mesh
    \<Rightarrow> ('x mesh \<times> 'y mesh) option" where
  "exchange_mesh mesh uhandler svc u fe w = do {
     uc \<leftarrow> ms_conns fe u;
     (cx, w') \<leftarrow> leaf_turn mesh svc (ms_ctx fe) w;
     cx1 \<leftarrow> dpumesh_poller_step cx;
     fe' \<leftarrow> on_upstream_response_cb uhandler (c_fd uc) u (fe\<lparr>ms_ctx := cx1\<rparr>);
     Some (fe', w')
   }"

text \<open>A call is queued and its response awaited.\<close>

definition pending :: "'x mesh \<Rightarrow> nat \<Rightarrow> nat \<Rightarrow> nat \<Rightarrow> string \<Rightarrow> string \<Rightarrow> bool" where
  "pending fe u a x path q \<longleftrightarrow> (\<exists>cx0 rid h uc w. queued cx0 rid 3 (header_text h) [NUL] (ms_ctx fe) \<and> dr_list (cx_tx_sq cx0) = []
     \<and> header_ok h \<and> length (header_text h) < HDR_SIZE \<and> mh_method h = ''GET'' \<and> mh_path h = path \<and> mh_query h = q
     \<and> waiting (ms_ctx fe) rid (c_fd uc) w \<and> ms_conns fe u = Some uc \<and> c_client_conn uc = Some a \<and> c_handler_ctx uc = Some x
     \<and> length (c_rbuf uc) = BUF_SIZE \<and> ctx_inv (ms_ctx fe) \<and> dr_list (cx_rx_sq (ms_ctx fe)) = [] \<and> cx_poller_running (ms_ctx fe))"

text \<open>What a call keeps of the library's context, and the state of its rings after it.\<close>

definition call_done :: "dpumesh_ctx \<Rightarrow> dpumesh_ctx \<Rightarrow> bool" where
  "call_done cx cx' \<longleftrightarrow> cx_worker_id cx' = cx_worker_id cx \<and> cx_inbound cx' = cx_inbound cx \<and> cx_poller_running cx' = cx_poller_running cx
     \<and> ctx_inv cx' \<and> tx_free cx' \<and> dr_list (cx_tx_sq cx') = [] \<and> dr_list (cx_rx_sq cx') = []"

lemma exchange_mesh_reply:
  assumes "delivers mesh" and "idle w []" and "mesh_leaf svc reply" and "pending fe u a x path q"
    and "target_ok ''GET'' path (query_of q)" and "set (path @ q) \<inter> {NUL, CR, LF} = {}"
    and rep: "rep = reply (parsed_request ''GET'' path (query_of q) [])"
  obtains cx2 uc' w' where "exchange_mesh mesh uhandler svc u fe w = do {
        s' \<leftarrow> uhandler u (parsed_response (fst rep) (snd rep)) (put_dpu u uc' (fe\<lparr>ms_ctx := cx2\<rparr>));
        s'' \<leftarrow> dpu_conn_free u s'; Some (s'', w') }"
    "idle w' []" "ms_conns w' = ms_conns w" "c_client_conn uc' = Some a" "c_handler_ctx uc' = Some x" "c_fd uc' = -1"
    "call_done (ms_ctx fe) cx2"
proof -
  obtain cx0 rid h uc wfd where pe: "queued cx0 rid 3 (header_text h) [NUL] (ms_ctx fe)" "dr_list (cx_tx_sq cx0) = []"
      "header_ok h" "length (header_text h) < HDR_SIZE" "mh_method h = ''GET''" "mh_path h = path" "mh_query h = q"
      "waiting (ms_ctx fe) rid (c_fd uc) wfd" "ms_conns fe u = Some uc" "c_client_conn uc = Some a" "c_handler_ctx uc = Some x"
      "length (c_rbuf uc) = BUF_SIZE" "ctx_inv (ms_ctx fe)" "dr_list (cx_rx_sq (ms_ctx fe)) = []" "cx_poller_running (ms_ctx fe)"
    using assms(4) unfolding pending_def by blast
  obtain cx w' where t: "leaf_turn mesh svc (ms_ctx fe) w = Some (cx, w')" "replied (ms_ctx fe) rid rep cx" "idle w' []"
      "ms_conns w' = ms_conns w"
    by (rule leaf_turn_replies [OF assms(1-3) pe(13,14,1-5) assms(5,6) [folded pe(6,7)] rep [folded pe(6,7)]])
  obtain d h' where d: "dr_list (cx_rx_sq cx) = [d]" "received cx d (header_text h') (snd rep)" "req_id d = rid" "is_response d"
      "valid d = 1" "header_ok h'" "length (header_text h') < HDR_SIZE" "mh_status h' = fst rep"
    and rp: "0 < fst rep" "snd rep \<noteq> []" "length (snd rep) < 4096" "NUL \<notin> set (snd rep)" "ctx_inv cx" "tx_free cx"
      "dr_list (cx_tx_sq cx) = []"
    using t(2) unfolding replied_def by blast
  obtain th tb tsq rh rb rsq where cx: "cx = (ms_ctx fe)\<lparr>cx_tx_header := th, cx_tx_body := tb, cx_tx_sq := tsq,
       cx_rx_header := rh, cx_rx_body := rb, cx_rx_sq := rsq\<rparr>"
    using t(2) unfolding replied_def by blast
  let ?rx = "fe\<lparr>ms_ctx := cx\<rparr>"
  have w: "waiting (ms_ctx ?rx) (req_id d) (c_fd uc) wfd" "cx_poller_running (ms_ctx ?rx)" "ms_conns ?rx u = Some uc"
    using pe(8,9,15) d(3) by (simp_all add: waiting_def cx)
  have r: "received (ms_ctx ?rx) d (header_text h') (snd rep)" "0 < mh_status h'" "ctx_inv (ms_ctx ?rx)"
      "dr_list (cx_rx_sq (ms_ctx ?rx)) = d # []"
    using d(1,2,8) rp(1,5) by simp_all
  obtain cx1 cx2 uc' where s: "dpumesh_poller_step cx = Some cx1"
    "on_upstream_response_cb uhandler (c_fd uc) u (?rx\<lparr>ms_ctx := cx1\<rparr>)
        = do { s' \<leftarrow> uhandler u (parsed_response (fst rep) (snd rep)) (put_dpu u uc' (?rx\<lparr>ms_ctx := cx2\<rparr>)); dpu_conn_free u s' }"
    "c_client_conn uc' = Some a" "c_handler_ctx uc' = Some x" "c_fd uc' = -1"
    "\<exists>ps tab sq. cx2 = free_rx (cx\<lparr>cx_rx_sq := sq, cx_response_pipe_fds := tab, cx_pipes := ps\<rparr>) d" "ctx_inv cx2"
    "dr_list (cx_rx_sq cx2) = []"
    by (rule response_state [OF r(1) d(6,7,4,5) r(2) rp(2-4) r(3) w(2) r(4) w(1,3) pe(12), of uhandler])
      (simp add: d(8) pe(10,11) that)
  have "call_done (ms_ctx fe) cx2"
    using s(6-8) rp(6,7) by (auto simp: call_done_def tx_free_def cx)
  moreover have "exchange_mesh mesh uhandler svc u fe w = do {
        s' \<leftarrow> uhandler u (parsed_response (fst rep) (snd rep)) (put_dpu u uc' (fe\<lparr>ms_ctx := cx2\<rparr>));
        s'' \<leftarrow> dpu_conn_free u s'; Some (s'', w') }"
    using t(1) s(1,2) pe(9) by (simp add: exchange_mesh_def)
  ultimately show ?thesis using s(3-5) t(3,4) that by blast
qed

lemma asked_pending:
  assumes "mesh_asked s st a x peer path q" and "dr_list (cx_tx_sq (ms_ctx s)) = []" and "dr_list (cx_rx_sq (ms_ctx s)) = []"
    and "cx_poller_running (ms_ctx s)" and "ms_fds s = Some (r, w) # fs"
  obtains uc th tb sq where "pending st (ms_next s) a x path q" "ms_conns st = (ms_conns s)(ms_next s \<mapsto> uc)" "ms_next st = Suc (ms_next s)"
    "ms_ctxs st = ms_ctxs s" "ms_mem st = ms_mem s" "ms_fds st = fs"
    "ms_ctx st = (with_response_pipe (ms_ctx s) r w)\<lparr>cx_tx_header := th, cx_tx_body := tb, cx_tx_sq := sq\<rparr>"
proof -
  obtain h r' w' where h: "asked_upstream s st a x h r' w'" "header_ok h" "length (header_text h) < HDR_SIZE" "mh_method h = ''GET''"
      "mh_path h = path" "mh_query h = q"
    using assms(1) unfolding mesh_asked_def by blast
  have rw: "r' = r" "w' = w" "ms_fds st = fs" using h(1) assms(5) by (auto simp: asked_upstream_def)
  obtain uc where uc: "ms_conns st = (ms_conns s)(ms_next s \<mapsto> uc)" "c_client_conn uc = Some a" "c_handler_ctx uc = Some x"
      "c_fd uc = r" "length (c_rbuf uc) = BUF_SIZE"
    using h(1) unfolding asked_upstream_def rw by blast
  obtain th tb sq where f: "ms_ctx st = (with_response_pipe (ms_ctx s) r w)\<lparr>cx_tx_header := th, cx_tx_body := tb, cx_tx_sq := sq\<rparr>"
    using h(1) unfolding asked_upstream_def rw by blast
  have q: "queued (ms_ctx s) (cx_next_req_id (ms_ctx s)) 3 (header_text h) [NUL] (ms_ctx st)"
      "waiting (ms_ctx st) (cx_next_req_id (ms_ctx s)) (c_fd uc) w" "ctx_inv (ms_ctx st)"
      "ms_next st = Suc (ms_next s)" "ms_ctxs st = ms_ctxs s" "ms_mem st = ms_mem s"
    using h(1) unfolding asked_upstream_def rw uc(4) by blast+
  have c: "ms_conns st (ms_next s) = Some uc" "dr_list (cx_rx_sq (ms_ctx st)) = []" "cx_poller_running (ms_ctx st)"
    using uc(1) assms(3,4) by (simp_all add: f with_response_pipe_def)
  have "pending st (ms_next s) a x path q"
    unfolding pending_def using q(1) assms(2) h(2-6) q(2) c(1) uc(2,3,5) q(3) c(2,3) by blast
  then show ?thesis using that uc(1) q(4-6) rw(3) f by blast
qed

lemma pending_free_rx: "pending fe u a x path q \<Longrightarrow> pending (fe\<lparr>ms_ctx := free_rx (ms_ctx fe) d\<rparr>) u a x path q"
proof -
  assume "pending fe u a x path q"
  then obtain cx0 rid h uc w where p: "queued cx0 rid 3 (header_text h) [NUL] (ms_ctx fe)" "dr_list (cx_tx_sq cx0) = []"
      "header_ok h" "length (header_text h) < HDR_SIZE" "mh_method h = ''GET''" "mh_path h = path" "mh_query h = q"
      "waiting (ms_ctx fe) rid (c_fd uc) w" "ms_conns fe u = Some uc" "c_client_conn uc = Some a" "c_handler_ctx uc = Some x"
      "length (c_rbuf uc) = BUF_SIZE" "ctx_inv (ms_ctx fe)" "dr_list (cx_rx_sq (ms_ctx fe)) = []" "cx_poller_running (ms_ctx fe)"
    unfolding pending_def by blast
  let ?fe = "fe\<lparr>ms_ctx := free_rx (ms_ctx fe) d\<rparr>"
  have "queued cx0 rid 3 (header_text h) [NUL] (ms_ctx ?fe)" "waiting (ms_ctx ?fe) rid (c_fd uc) w" "ms_conns ?fe u = Some uc"
      "ctx_inv (ms_ctx ?fe)" "dr_list (cx_rx_sq (ms_ctx ?fe)) = []" "cx_poller_running (ms_ctx ?fe)"
    using p(1,8,9,14,15) free_rx_used(3) [OF p(13)] by (simp_all add: queued_free_rx waiting_def)
  with p(2-7,10-12) show ?thesis unfolding pending_def by blast
qed

lemma pending_conns: "pending fe u a x path q \<Longrightarrow> m u = ms_conns fe u \<Longrightarrow> pending (fe\<lparr>ms_conns := m\<rparr>) u a x path q"
  by (simp add: pending_def)

section \<open>The stages of a lookup\<close>

text \<open>The client waits: its connection remembers the descriptor of its request, under whose index the number
  and the sender of the request are kept.\<close>

definition client_waits :: "'x mesh \<Rightarrow> nat \<Rightarrow> sw_descriptor \<Rightarrow> bool" where
  "client_waits fe a d \<longleftrightarrow> (\<exists>c. ms_conns fe a = Some c \<and> c_fd c = -1 \<and> dpu_desc_index c = pending_index (req_id d))
     \<and> ib_req_id (cx_inbound (ms_ctx fe) ! pending_index (req_id d)) = req_id d \<and> names_ok (ms_ctx fe) (pending_index (req_id d))
     \<and> ms_mem fe = [] \<and> a < ms_next fe \<and> (\<forall>b. ms_next fe \<le> b \<longrightarrow> ms_conns fe b = None)"

definition fds_next :: "'x mesh \<Rightarrow> bool" where
  "fds_next fe \<longleftrightarrow> (\<exists>r w fs. ms_fds fe = Some (r, w) # fs \<and> r \<noteq> w \<and> 0 \<le> w)"

lemma client_waits_ready:
  assumes "client_waits fe a d" and "mcfg_ok cfg" and "ctx_inv (ms_ctx fe)" and "tx_free (ms_ctx fe)"
  shows "mesh_live fe a" and "fds_next fe \<Longrightarrow> mesh_ready cfg fe a"
proof -
  show l: "mesh_live fe a"
    using assms pending_index_less [of "req_id d"] by (auto simp: client_waits_def mesh_live_def)
  show "mesh_ready cfg fe a" if "fds_next fe"
    using that l assms(1,2) by (auto simp: mesh_ready_def fds_next_def client_waits_def)
qed

text \<open>The client's request arrives: the frontend asks the id service.\<close>

definition lookup_header :: "mesh_header \<Rightarrow> string \<Rightarrow> bool" where
  "lookup_header h name \<longleftrightarrow> mh_method h = ''GET'' \<and> mh_path h = ''/lookup'' \<and> mh_query h = ''name='' @ name"

lemma lookup_request_ok:
  assumes "lookup_header h name" and "name_ok name" and "NUL \<notin> set (body_of body)" and "length body < 4096"
  shows "request_ok (delivered_request h body d) ''GET'' ''/lookup'' (''name='' @ name) body"
proof -
  have "match_at eq_nocase (''GET'' @ '' '') ''Content-Length:'' = Some False" by code_simp
  moreover have "target_ok ''GET'' ''/lookup'' (query_of (''name='' @ name))"
    using assms(2) by (auto simp: target_ok_def name_ok_def query_of_def)
  moreover have "set (''GET'' @ ''/lookup'' @ ''name='' @ name) \<inter> {NUL, CR, LF} = {}" using assms(2) by (simp add: name_ok_def)
  ultimately show ?thesis
    using assms by (simp add: request_ok_def delivered_request_def lookup_header_def name_ok_def)
qed

lemma pipe_open_quiet:
  assumes "fd \<noteq> r" and "fd \<noteq> w" and "pipe_contents fd ps = []"
  shows "pipe_contents fd (pipe_open r w ps) = []"
  using assms by (simp add: pipe_contents_def pipe_open_def split: option.splits pipe_end.splits)

lemma lookup_asked:
  assumes "idle fe [d]" and "arrived (ms_ctx fe) d h body" and "lookup_header h name" and "name_ok name"
    and "NUL \<notin> set (body_of body)" and "length body < 4096" and "mcfg_ok cfg"
    and "ms_fds fe = Some (r, w) # fs" and "r \<noteq> w" and "0 \<le> w" and "cx_notify_fd (ms_ctx fe) \<notin> {r, w}"
  obtains cx fe1 where "dpumesh_poller_step (ms_ctx fe) = Some cx" "on_notify_cb (mesh_frontend cfg) (fe\<lparr>ms_ctx := cx\<rparr>) = Some fe1"
    "pending fe1 (Suc (ms_next fe)) (ms_next fe) (ms_next_ctx fe) ''/id'' (''name='' @ name)" "client_waits fe1 (ms_next fe) d"
    "\<exists>c uc. ms_conns fe1 = (ms_conns fe)(ms_next fe \<mapsto> c, Suc (ms_next fe) \<mapsto> uc)" "ms_next fe1 = Suc (Suc (ms_next fe))" "ms_fds fe1 = fs"
    "ms_ctxs fe1 = (ms_ctxs fe)(ms_next_ctx fe \<mapsto> \<lparr>fx_stage = STAGE_WAITING_ID, fx_name = name, fx_id = 0\<rparr>)"
proof -
  let ?a = "ms_next fe" and ?x = "ms_next_ctx fe" and ?v = "\<lparr>fx_stage = STAGE_WAITING_ID, fx_name = name, fx_id = 0\<rparr>"
  have f: "ctx_inv (ms_ctx fe)" "dr_list (cx_rx_sq (ms_ctx fe)) = d # []" "cx_poller_running (ms_ctx fe)" "ms_mem fe = []"
      "pipe_ends (cx_pipes (ms_ctx fe)) (cx_notify_fd (ms_ctx fe)) (cx_notify_write_fd (ms_ctx fe))"
      "pipe_contents (cx_notify_fd (ms_ctx fe)) (cx_pipes (ms_ctx fe)) = []" "dr_list (cx_tx_sq (ms_ctx fe)) = []" "tx_free (ms_ctx fe)"
      "plain (cx_worker_id (ms_ctx fe))" "length (cx_worker_id (ms_ctx fe)) < 128" "\<forall>b. ?a \<le> b \<longrightarrow> ms_conns fe b = None"
    using assms(1) by (simp_all add: idle_def)
  have v: "valid d = 1" "\<not> is_response d" "header_ok h" using assms(2) by (simp_all add: arrived_def)
  obtain sq ps where p: "dpumesh_poller_step (ms_ctx fe) = Some ((ms_ctx fe)\<lparr>cx_rx_sq := sq, cx_pipes := ps\<rparr>)" "dr_inv sq" "dr_list sq = []"
      "pipe_contents (cx_notify_fd (ms_ctx fe)) ps = [d]"
    by (rule poller_request [OF f(1,3,2) v(1,2) f(5,6)])
  let ?cx = "(ms_ctx fe)\<lparr>cx_rx_sq := sq, cx_pipes := ps\<rparr>"
  let ?rx = "fe\<lparr>ms_ctx := ?cx\<rparr>" and ?req = "parsed_request ''GET'' ''/lookup'' (query_of (''name='' @ name)) (body_of body)"
  have dec: "decode_request ((ms_ctx ?rx)\<lparr>cx_pipes := ps\<rparr>) d = Some (delivered_request h body d, header_read (ms_ctx ?rx) ps h)" for ps
    by (rule decode_arrived) (simp add: arrived_pipes assms(2))
  have n: "ms_mem ?rx = []" "pipe_contents (cx_notify_fd (ms_ctx ?rx)) (cx_pipes (ms_ctx ?rx)) = [d]" using f(4) p(4) by simp_all
  obtain c where c: "dpu_desc_index c = pending_index (req_id d)" "c_fd c = -1"
      "(\<And>s'. mesh_frontend cfg (ms_next ?rx) ?req (called_with ?rx d h body c) = Some s' \<Longrightarrow>
        cx_notify_fd (ms_ctx s') = cx_notify_fd (ms_ctx ?rx) \<and> pipe_contents (cx_notify_fd (ms_ctx ?rx)) (cx_pipes (ms_ctx s')) = [])
      \<Longrightarrow> on_notify_cb (mesh_frontend cfg) ?rx = do { s' \<leftarrow> mesh_frontend cfg (ms_next ?rx) ?req (called_with ?rx d h body c);
            Some (s'\<lparr>ms_ctx := free_rx (ms_ctx s') d\<rparr>) }"
    apply (rule notify_calls [OF dec v(1) n lookup_request_ok [OF assms(3-6)], of "mesh_frontend cfg"])
    subgoal premises prems for c by (rule prems(1), fact prems(2), fact prems(3), rule prems(5))
    done
  have nx: "ms_next ?rx = ?a" by simp
  let ?s = "called_with ?rx d h body c"
  let ?s1 = "?s\<lparr>ms_ctxs := (ms_ctxs ?s)(?x \<mapsto> ?v), ms_next_ctx := Suc ?x\<rparr>"
  have i: "ctx_inv (ms_ctx ?rx)" using f(1) p(2) by (simp add: ctx_inv_def)
  note ib = called_with_inbound [OF i, of d h body c] and ci = called_with_inv [OF i, of d h body c]
  have cs: "cx_worker_id (ms_ctx ?s) = cx_worker_id (ms_ctx fe)" "dr_list (cx_tx_sq (ms_ctx ?s)) = []" "dr_list (cx_rx_sq (ms_ctx ?s)) = []"
      "cx_poller_running (ms_ctx ?s)" "cx_notify_fd (ms_ctx ?s) = cx_notify_fd (ms_ctx fe)" "tx_free (ms_ctx ?s)"
      "pipe_contents (cx_notify_fd (ms_ctx fe)) (cx_pipes (ms_ctx ?s)) = []"
    using f p(3) pipe_contents_read [OF p(4)]
    by (simp_all add: called_with_def header_read_def store_inbound_def tx_free_def)
  have names: "names_ok (ms_ctx ?s) (pending_index (req_id d))"
    using ib cs(1) f(9,10) v(3) by (simp add: names_ok_def header_ok_def plain_take min_less_iff_disj)
  have cw: "client_waits ?s ?a d"
    using ib(1) c(1,2) names f(4,11) by (simp add: client_waits_def)
  have "fds_next ?s" using assms(8-10) by (simp add: fds_next_def)
  from client_waits_ready(2) [OF cw assms(7) ci cs(6) this] have rd: "mesh_ready cfg ?s ?a" .
  have al: "fo_calloc (mesh_fe_ops cfg) ?v ?s = (Some ?x, ?s1)"
    using f(4) by (simp add: mesh_fe_ops_def mesh_ctx_calloc_def mesh_calloc_def)
  have q: "query_of (''name='' @ name) = Some (''name='' @ name)" by (simp add: query_of_def)
  have g: "is_get ?req ''/lookup''" "query_get (Some (cstring (req_query ?req))) (Some ''name'') 64 = Some name"
    using lookup_parsed [OF assms(4), of "''/lookup''"] unfolding q by simp_all
  obtain st where st: "mesh_frontend cfg ?a ?req ?s = Some st" "mesh_asked ?s1 st ?a ?x (mesh_peer cfg Id_Service) ''/id'' (''name='' @ name)"
    using fe_mesh.lookup_asks_id [OF g assms(4) rd al] unfolding mesh_frontend_def by blast
  have s1: "dr_list (cx_tx_sq (ms_ctx ?s1)) = []" "dr_list (cx_rx_sq (ms_ctx ?s1)) = []" "cx_poller_running (ms_ctx ?s1)"
      "ms_fds ?s1 = Some (r, w) # fs"
    using cs(2-4) assms(8) by simp_all
  obtain uc th tb tsq where fr: "pending st (ms_next ?s1) ?a ?x ''/id'' (''name='' @ name)"
      "ms_conns st = (ms_conns ?s1)(ms_next ?s1 \<mapsto> uc)" "ms_next st = Suc (ms_next ?s1)" "ms_ctxs st = ms_ctxs ?s1" "ms_mem st = ms_mem ?s1"
      "ms_fds st = fs" "ms_ctx st = (with_response_pipe (ms_ctx ?s1) r w)\<lparr>cx_tx_header := th, cx_tx_body := tb, cx_tx_sq := tsq\<rparr>"
    by (rule asked_pending [OF st(2) s1])
  have qu: "cx_notify_fd (ms_ctx s') = cx_notify_fd (ms_ctx ?rx) \<and> pipe_contents (cx_notify_fd (ms_ctx ?rx)) (cx_pipes (ms_ctx s')) = []"
    if "mesh_frontend cfg ?a ?req ?s = Some s'" for s'
    using that st(1) cs(5,7) assms(11) by (auto simp: fr(7) with_response_pipe_def intro: pipe_open_quiet)
  let ?fe1 = "st\<lparr>ms_ctx := free_rx (ms_ctx st) d\<rparr>"
  have "on_notify_cb (mesh_frontend cfg) ?rx = Some ?fe1" using c(3) [unfolded nx, OF qu] st(1) by simp
  moreover have "pending ?fe1 (Suc ?a) ?a ?x ''/id'' (''name='' @ name)" using pending_free_rx [OF fr(1)] by simp
  moreover have "client_waits ?fe1 ?a d"
    using cw by (simp add: client_waits_def fr(2,3,5,7) names_ok_def with_response_pipe_def)
  moreover have "\<exists>c uc. ms_conns ?fe1 = (ms_conns fe)(?a \<mapsto> c, Suc ?a \<mapsto> uc)"
    using fr(2) by (intro exI [of _ c] exI [of _ uc]) simp
  moreover have "ms_next ?fe1 = Suc (Suc ?a)" "ms_fds ?fe1 = fs" "ms_ctxs ?fe1 = (ms_ctxs fe)(?x \<mapsto> ?v)" using fr(3,4,6) by simp_all
  ultimately show ?thesis by (rule that [OF p(1)])
qed

text \<open>The id arrives: the frontend keeps it, asks the attend service and frees the first upstream
  connection.\<close>

lemma id_reply_hit:
  assumes "name_ok name" and "kv_store_get ids name = Some i"
  shows "id_reply ids (parsed_request ''GET'' ''/id'' (query_of (''name='' @ name)) body) = (200, id_body i)"
  using lookup_parsed [OF assms(1), of "''/id''"] assms(2) by (simp add: id_reply_def query_of_def)

lemma attend_reply_hit:
  assumes "in_i32 i" and "kv_store_get attendance (show_int i) = Some v"
  shows "attend_reply attendance (parsed_request ''GET'' ''/attend'' (query_of (''id='' @ show_int i)) body) = (200, attend_body v)"
  using query_id [OF assms(1)] assms(2) by (simp add: attend_reply_def query_of_def is_get_def parsed_request_def)

lemma call_done_waits:
  assumes "client_waits fe a d" and "call_done (ms_ctx fe) cx" and "a \<noteq> u" and "u < ms_next fe"
  shows "client_waits (put_dpu u uc (fe\<lparr>ms_ctx := cx\<rparr>)) a d"
  using assms by (auto simp: client_waits_def call_done_def names_ok_def)

lemma lookup_got_id:
  assumes "delivers mesh" and "idle w []" and "kv_store_wf ids" and "name_ok name" and "kv_store_get ids name = Some i"
    and "pending fe u a x ''/id'' (''name='' @ name)" and "client_waits fe a d" and "mcfg_ok cfg"
    and "ms_ctxs fe x = Some \<lparr>fx_stage = STAGE_WAITING_ID, fx_name = name, fx_id = 0\<rparr>"
    and "ms_fds fe = Some (r, wr) # fs" and "r \<noteq> wr" and "0 \<le> wr" and "a \<noteq> u" and "u < ms_next fe"
  obtains fe' w' where "exchange_mesh mesh (mesh_frontend_upstream cfg) (mesh_id_service ids) u fe w = Some (fe', w')"
    "idle w' []" "ms_conns w' = ms_conns w" "pending fe' (ms_next fe) a x ''/attend'' (''id='' @ show_int i)" "client_waits fe' a d"
    "ms_ctxs fe' = (ms_ctxs fe)(x \<mapsto> \<lparr>fx_stage = STAGE_WAITING_ATTEND, fx_name = name, fx_id = i\<rparr>)"
    "\<exists>uc. ms_conns fe' = (ms_conns fe)(u := None, ms_next fe \<mapsto> uc)" "ms_next fe' = Suc (ms_next fe)" "ms_fds fe' = fs"
proof -
  let ?v = "\<lparr>fx_stage = STAGE_WAITING_ID, fx_name = name, fx_id = 0\<rparr>"
  have i: "in_i32 i" using assms(3,5) by (rule kv_get_wf)
  have t: "target_ok ''GET'' ''/id'' (query_of (''name='' @ name))" "set (''/id'' @ ''name='' @ name) \<inter> {NUL, CR, LF} = {}"
    using assms(4) by (auto simp: target_ok_def name_ok_def query_of_def)
  obtain cx2 uc' w' where e: "exchange_mesh mesh (mesh_frontend_upstream cfg) (mesh_id_service ids) u fe w = do {
        s' \<leftarrow> mesh_frontend_upstream cfg u (parsed_response (fst (200 :: int, id_body i)) (snd (200 :: int, id_body i))) (put_dpu u uc' (fe\<lparr>ms_ctx := cx2\<rparr>));
        s'' \<leftarrow> dpu_conn_free u s'; Some (s'', w') }"
      "idle w' []" "ms_conns w' = ms_conns w" "c_client_conn uc' = Some a" "c_handler_ctx uc' = Some x" "c_fd uc' = -1"
      "call_done (ms_ctx fe) cx2"
    by (rule exchange_mesh_reply [OF assms(1,2) mesh_leaf_id [OF assms(3)] assms(6) t id_reply_hit [OF assms(4,5), symmetric]])
  let ?s = "put_dpu u uc' (fe\<lparr>ms_ctx := cx2\<rparr>)" and ?resp = "parsed_response 200 (id_body i)"
  have cd: "ctx_inv (ms_ctx ?s)" "tx_free (ms_ctx ?s)" "dr_list (cx_tx_sq (ms_ctx ?s)) = []" "dr_list (cx_rx_sq (ms_ctx ?s)) = []"
      "cx_poller_running (ms_ctx ?s)"
    using e(7) assms(6) by (auto simp: call_done_def pending_def)
  have cw: "client_waits ?s a d" by (rule call_done_waits [OF assms(7) e(7) assms(13,14)])
  have "fds_next ?s" using assms(10-12) by (simp add: fds_next_def)
  from client_waits_ready(2) [OF cw assms(8) cd(1,2) this] have rd: "mesh_ready cfg ?s a" .
  have p: "resp_status_code ?resp = 200" "parse_id (cstring (resp_body ?resp)) = Some i"
    using parse_id_body [OF i] id_body_ok [of i] i by (simp_all add: parsed_response_def BODY_SIZE_def)
  have up: "fo_upstream (mesh_fe_ops cfg) u ?s = Some (Some a, Some x)" "fo_get (mesh_fe_ops cfg) x ?s = Some ?v" "fx_stage ?v = STAGE_WAITING_ID"
    using e(4,5) assms(9) by (simp_all add: mesh_fe_simps)
  define s3 where "s3 = ?s\<lparr>ms_ctxs := (ms_ctxs ?s)(x \<mapsto> ?v\<lparr>fx_id := i, fx_stage := STAGE_WAITING_ATTEND\<rparr>)\<rparr>"
  have s3: "fo_put (mesh_fe_ops cfg) x (?v\<lparr>fx_id := i, fx_stage := STAGE_WAITING_ATTEND\<rparr>) ?s = s3"
    by (simp add: mesh_fe_ops_def s3_def)
  obtain st where st: "mesh_frontend_upstream cfg u ?resp ?s = Some st" "mesh_asked s3 st a x (mesh_peer cfg Attend_Service) ''/attend'' (''id='' @ show_int i)"
    using fe_mesh.id_response_asks_attend [OF up p i rd] unfolding mesh_frontend_upstream_def s3 by blast
  have f3: "dr_list (cx_tx_sq (ms_ctx s3)) = []" "dr_list (cx_rx_sq (ms_ctx s3)) = []" "cx_poller_running (ms_ctx s3)"
      "ms_fds s3 = Some (r, wr) # fs" "ms_next s3 = ms_next fe"
    using cd(3-5) assms(10) by (simp_all add: s3_def)
  obtain uc th tb tsq where fr: "pending st (ms_next s3) a x ''/attend'' (''id='' @ show_int i)"
      "ms_conns st = (ms_conns s3)(ms_next s3 \<mapsto> uc)" "ms_next st = Suc (ms_next s3)" "ms_ctxs st = ms_ctxs s3" "ms_mem st = ms_mem s3"
      "ms_fds st = fs" "ms_ctx st = (with_response_pipe (ms_ctx s3) r wr)\<lparr>cx_tx_header := th, cx_tx_body := tb, cx_tx_sq := tsq\<rparr>"
    by (rule asked_pending [OF st(2) f3(1-4)])
  have u: "ms_conns st u = Some uc'" using fr(2) assms(14) by (simp add: s3_def)
  let ?fe = "st\<lparr>ms_conns := (ms_conns st)(u := None)\<rparr>"
  have "dpu_conn_free u st = Some ?fe" using u e(6) by (cases st) (simp add: dpu_conn_free_def)
  then have "exchange_mesh mesh (mesh_frontend_upstream cfg) (mesh_id_service ids) u fe w = Some (?fe, w')"
    using e(1) st(1) by simp
  moreover have "pending ?fe (ms_next fe) a x ''/attend'' (''id='' @ show_int i)"
    using pending_conns [OF fr(1)] f3(5) assms(14) by simp
  moreover have "client_waits ?fe a d"
    using cw assms(13,14) by (simp add: client_waits_def fr(2,3,5,7) names_ok_def with_response_pipe_def) (simp add: s3_def)
  moreover have "ms_ctxs ?fe = (ms_ctxs fe)(x \<mapsto> \<lparr>fx_stage = STAGE_WAITING_ATTEND, fx_name = name, fx_id = i\<rparr>)" "ms_fds ?fe = fs"
      "ms_next ?fe = Suc (ms_next fe)"
    using fr(3,4,6) by (simp_all add: s3_def)
  moreover have "ms_conns ?fe = (ms_conns fe)(u := None, ms_next fe \<mapsto> uc)"
    using fr(2) assms(14) by (auto simp: s3_def)
  ultimately show ?thesis using that e(2,3) by blast
qed

text \<open>The attendance arrives: the frontend answers, and frees the context, the client's connection and the
  second upstream connection.\<close>

definition reply_queued :: "dpumesh_ctx \<Rightarrow> u32 \<Rightarrow> int \<times> string \<Rightarrow> bool" where
  "reply_queued cx rid rep \<longleftrightarrow> (\<exists>d n hs m bs. dr_list (cx_tx_sq cx) = [d] \<and> is_response d \<and> req_id d = rid
     \<and> bp_read (cx_tx_header cx) (sint (header_buf_slot d)) (unat (header_len d)) = Some (n, hs)
     \<and> bp_read (cx_tx_body cx) (sint (body_buf_slot d)) (unat (body_len d)) = Some (m, bs)
     \<and> rep = (json_get_int (cstring hs) ''status_code'', bs))"

lemma mesh_answer_queued:
  assumes "mesh_answer s st a = Some rep" and "ms_conns s a = Some c" and "dr_list (cx_tx_sq (ms_ctx s)) = []"
  shows "reply_queued (ms_ctx st) (ib_req_id (cx_inbound (ms_ctx s) ! dpu_desc_index c)) rep"
  using assms by (auto simp: mesh_answer_def reply_queued_def Let_def bind_eq_Some_conv split: if_splits)

lemma mesh_final_frame:
  assumes "mesh_frontend_upstream cfg u resp s = Some s'" and "fo_upstream (mesh_fe_ops cfg) u s = Some (Some a, Some x)"
    and "ms_ctxs s x = Some ctx" and "fx_stage ctx = STAGE_WAITING_ATTEND" and "resp_status_code resp = 200"
    and "ctx_inv (ms_ctx s)" and "ms_conns s a = Some c" and "c_fd c < 0"
  shows "ms_conns s' = (ms_conns s)(a := None)" and "ms_ctxs s' = (ms_ctxs s)(x := None)"
proof -
  define att where "att = (strstr (cstring (resp_body resp)) ''true'' \<noteq> None)"
  let ?b = "snprintf 256 (lookup_body (fx_name ctx) (fx_id ctx) att)"
  obtain s1 where s1: "mesh_respond a 200 (fst ?b) (snd ?b) s = Some s1" "s' = s1\<lparr>ms_ctxs := (ms_ctxs s1)(x := None)\<rparr>"
    using assms(1-5)
    by (auto simp: mesh_frontend_upstream_def frontend_handle_upstream_response_def mesh_fe_ops_def split_beta bind_eq_Some_conv
        simp del: not_None_eq simp flip: att_def split: if_splits)
  obtain ib th tb sq where "s1 = s\<lparr>ms_ctx := (ms_ctx s)\<lparr>cx_inbound := ib, cx_tx_header := th, cx_tx_body := tb, cx_tx_sq := sq\<rparr>,
      ms_conns := (ms_conns s)(a := None)\<rparr>"
    by (rule respond_exact [OF assms(6) s1(1) [unfolded mesh_respond_def] assms(7,8)])
  then show "ms_conns s' = (ms_conns s)(a := None)" "ms_ctxs s' = (ms_ctxs s)(x := None)" using s1(2) by simp_all
qed

lemma lookup_got_attendance:
  assumes "delivers mesh" and "idle w []" and "name_ok name" and "in_i32 i" and "kv_store_get attendance (show_int i) = Some v"
    and "pending fe u a x ''/attend'' (''id='' @ show_int i)" and "client_waits fe a d" and "mcfg_ok cfg"
    and "ms_ctxs fe x = Some \<lparr>fx_stage = STAGE_WAITING_ATTEND, fx_name = name, fx_id = i\<rparr>" and "a \<noteq> u" and "u < ms_next fe"
  obtains fe' w' where "exchange_mesh mesh (mesh_frontend_upstream cfg) (mesh_attend_service attendance) u fe w = Some (fe', w')"
    "idle w' []" "ms_conns w' = ms_conns w" "reply_queued (ms_ctx fe') (req_id d) (200, lookup_body name i (v \<noteq> 0))"
    "ms_conns fe' = (ms_conns fe)(a := None, u := None)" "ms_ctxs fe' = (ms_ctxs fe)(x := None)"
proof -
  let ?v = "\<lparr>fx_stage = STAGE_WAITING_ATTEND, fx_name = name, fx_id = i\<rparr>"
  have t: "target_ok ''GET'' ''/attend'' (query_of (''id='' @ show_int i))" "set (''/attend'' @ ''id='' @ show_int i) \<inter> {NUL, CR, LF} = {}"
    using length_show_int [OF assms(4)] by (auto simp: target_ok_def query_of_def)
  obtain cx2 uc' w' where e: "exchange_mesh mesh (mesh_frontend_upstream cfg) (mesh_attend_service attendance) u fe w = do {
        s' \<leftarrow> mesh_frontend_upstream cfg u (parsed_response (fst (200 :: int, attend_body v)) (snd (200 :: int, attend_body v)))
          (put_dpu u uc' (fe\<lparr>ms_ctx := cx2\<rparr>));
        s'' \<leftarrow> dpu_conn_free u s'; Some (s'', w') }"
      "idle w' []" "ms_conns w' = ms_conns w" "c_client_conn uc' = Some a" "c_handler_ctx uc' = Some x" "c_fd uc' = -1"
      "call_done (ms_ctx fe) cx2"
    by (rule exchange_mesh_reply [OF assms(1,2) mesh_leaf_attend assms(6) t attend_reply_hit [OF assms(4,5), symmetric]])
  let ?s = "put_dpu u uc' (fe\<lparr>ms_ctx := cx2\<rparr>)" and ?resp = "parsed_response 200 (attend_body v)"
  have cd: "ctx_inv (ms_ctx ?s)" "tx_free (ms_ctx ?s)" "dr_list (cx_tx_sq (ms_ctx ?s)) = []"
    using e(7) by (simp_all add: call_done_def)
  have cw: "client_waits ?s a d" by (rule call_done_waits [OF assms(7) e(7) assms(10,11)])
  from client_waits_ready(1) [OF cw assms(8) cd(1,2)] have l: "mesh_live ?s a" .
  obtain c where c: "ms_conns ?s a = Some c" "c_fd c < 0" "ib_req_id (cx_inbound (ms_ctx ?s) ! dpu_desc_index c) = req_id d"
    using cw unfolding client_waits_def by fastforce
  have up: "fo_upstream (mesh_fe_ops cfg) u ?s = Some (Some a, Some x)" "fo_get (mesh_fe_ops cfg) x ?s = Some ?v"
      "fx_stage ?v = STAGE_WAITING_ATTEND" "ms_ctxs ?s x = Some ?v"
    using e(4,5) assms(9) by (simp_all add: mesh_fe_simps)
  have ok: "resp_status_code ?resp = 200" by (simp add: parsed_response_def)
  have att: "strstr (cstring (resp_body ?resp)) ''true'' \<noteq> None \<longleftrightarrow> v \<noteq> 0"
    using attend_body_true [of v] attend_body_ok [of v] by (simp add: parsed_response_def BODY_SIZE_def)
  have n: "length name < 64" "NUL \<notin> set name" using assms(3) by (simp_all add: name_ok_def)
  obtain st where st: "mesh_frontend_upstream cfg u ?resp ?s = Some st" "mesh_answer ?s st a = Some (200, lookup_body name i (v \<noteq> 0))"
    using fe_mesh.attend_response_answers [OF up(1-3) ok l] n assms(4) unfolding mesh_frontend_upstream_def att by auto
  note fr = mesh_final_frame [OF st(1) up(1,4,3) ok cd(1) c(1,2)]
  let ?fe = "st\<lparr>ms_conns := (ms_conns st)(u := None)\<rparr>"
  have "ms_conns st u = Some uc'" using fr(1) assms(10) by simp
  then have "dpu_conn_free u st = Some ?fe" using e(6) by (cases st) (simp add: dpu_conn_free_def)
  then have "exchange_mesh mesh (mesh_frontend_upstream cfg) (mesh_attend_service attendance) u fe w = Some (?fe, w')"
    using e(1) st(1) by simp
  moreover have "reply_queued (ms_ctx ?fe) (req_id d) (200, lookup_body name i (v \<noteq> 0))"
    using mesh_answer_queued [OF st(2) c(1) cd(3)] c(3) by simp
  moreover have "ms_conns ?fe = (ms_conns fe)(a := None, u := None)" "ms_ctxs ?fe = (ms_ctxs fe)(x := None)"
    using fr by auto
  ultimately show ?thesis using that e(2,3) by blast
qed

section \<open>The property\<close>

text \<open>The client's request is in the RX ring of the frontend; each call is made on the upstream connection
  allocated last.\<close>

definition mesh_lookup :: "mesh_move \<Rightarrow> mesh_config \<Rightarrow> kv_store \<Rightarrow> kv_store \<Rightarrow> frontend_ctx mesh \<Rightarrow> 'y mesh \<Rightarrow> 'z mesh
    \<Rightarrow> (frontend_ctx mesh \<times> 'y mesh \<times> 'z mesh) option" where
  "mesh_lookup mesh cfg ids attendance fe w1 w2 = do {
     cx \<leftarrow> dpumesh_poller_step (ms_ctx fe);
     fe1 \<leftarrow> on_notify_cb (mesh_frontend cfg) (fe\<lparr>ms_ctx := cx\<rparr>);
     (fe2, w1') \<leftarrow> exchange_mesh mesh (mesh_frontend_upstream cfg) (mesh_id_service ids) (ms_next fe1 - 1) fe1 w1;
     (fe3, w2') \<leftarrow> exchange_mesh mesh (mesh_frontend_upstream cfg) (mesh_attend_service attendance) (ms_next fe2 - 1) fe2 w2;
     Some (fe3, w1', w2')
   }"

text \<open>C2. A lookup of a name that both stores know is answered over the mesh with status 200 and the name,
  its id and its attendance. The client's request, from outside the mesh or from another worker, waits
  in the frontend's RX ring; the pollers and event loops of the frontend, the id service and the attend
  service run, and the mesh moves the four messages between them. At the end the only entry of the
  frontend's TX ring is a response to the client's request number with that status and body; the
  connections of all three workers and the frontend's contexts are as before, and both services are
  idle.\<close>

theorem mesh_lookup_answered:
  assumes "delivers mesh" and "idle fe [d]" and "idle w1 []" and "idle w2 []" and "arrived (ms_ctx fe) d h body"
    and "lookup_header h name" and "name_ok name" and "NUL \<notin> set (body_of body)" and "length body < 4096" and "mcfg_ok cfg"
    and "ms_fds fe = Some (r1, p1) # Some (r2, p2) # fs" and "r1 \<noteq> p1" and "0 \<le> p1" and "r2 \<noteq> p2" and "0 \<le> p2"
    and "cx_notify_fd (ms_ctx fe) \<notin> {r1, p1}" and "ms_ctxs fe (ms_next_ctx fe) = None"
    and "kv_store_wf ids" and "kv_store_get ids name = Some i" and "kv_store_get attendance (show_int i) = Some v"
  shows "\<exists>fe' w1' w2'. mesh_lookup mesh cfg ids attendance fe w1 w2 = Some (fe', w1', w2')
    \<and> reply_queued (ms_ctx fe') (req_id d) (200, lookup_body name i (v \<noteq> 0))
    \<and> ms_conns fe' = ms_conns fe \<and> ms_ctxs fe' = ms_ctxs fe
    \<and> idle w1' [] \<and> ms_conns w1' = ms_conns w1 \<and> idle w2' [] \<and> ms_conns w2' = ms_conns w2"
proof -
  let ?a = "ms_next fe" and ?x = "ms_next_ctx fe"
  have heap: "ms_conns fe b = None" if "?a \<le> b" for b using that assms(2) by (simp add: idle_def)
  obtain cx fe1 where s1: "dpumesh_poller_step (ms_ctx fe) = Some cx" "on_notify_cb (mesh_frontend cfg) (fe\<lparr>ms_ctx := cx\<rparr>) = Some fe1"
      "pending fe1 (Suc ?a) ?a ?x ''/id'' (''name='' @ name)" "client_waits fe1 ?a d"
      "\<exists>c uc. ms_conns fe1 = (ms_conns fe)(?a \<mapsto> c, Suc ?a \<mapsto> uc)" "ms_next fe1 = Suc (Suc ?a)" "ms_fds fe1 = Some (r2, p2) # fs"
      "ms_ctxs fe1 = (ms_ctxs fe)(?x \<mapsto> \<lparr>fx_stage = STAGE_WAITING_ID, fx_name = name, fx_id = 0\<rparr>)"
    by (rule lookup_asked [OF assms(2,5-13,16)])
  have x1: "ms_ctxs fe1 ?x = Some \<lparr>fx_stage = STAGE_WAITING_ID, fx_name = name, fx_id = 0\<rparr>" "?a \<noteq> Suc ?a" "Suc ?a < ms_next fe1"
    using s1(6,8) by simp_all
  obtain fe2 w1' where s2: "exchange_mesh mesh (mesh_frontend_upstream cfg) (mesh_id_service ids) (Suc ?a) fe1 w1 = Some (fe2, w1')"
      "idle w1' []" "ms_conns w1' = ms_conns w1" "pending fe2 (ms_next fe1) ?a ?x ''/attend'' (''id='' @ show_int i)" "client_waits fe2 ?a d"
      "ms_ctxs fe2 = (ms_ctxs fe1)(?x \<mapsto> \<lparr>fx_stage = STAGE_WAITING_ATTEND, fx_name = name, fx_id = i\<rparr>)"
      "\<exists>uc. ms_conns fe2 = (ms_conns fe1)(Suc ?a := None, ms_next fe1 \<mapsto> uc)" "ms_next fe2 = Suc (ms_next fe1)"
    by (rule lookup_got_id [OF assms(1,3,18,7,19) s1(3,4) assms(10) x1(1) s1(7) assms(14,15) x1(2,3)])
  have x2: "ms_ctxs fe2 ?x = Some \<lparr>fx_stage = STAGE_WAITING_ATTEND, fx_name = name, fx_id = i\<rparr>" "?a \<noteq> ms_next fe1" "ms_next fe1 < ms_next fe2"
    using s2(6,8) s1(6) by simp_all
  have i: "in_i32 i" using assms(18,19) by (rule kv_get_wf)
  obtain fe3 w2' where s3: "exchange_mesh mesh (mesh_frontend_upstream cfg) (mesh_attend_service attendance) (ms_next fe1) fe2 w2 = Some (fe3, w2')"
      "idle w2' []" "ms_conns w2' = ms_conns w2" "reply_queued (ms_ctx fe3) (req_id d) (200, lookup_body name i (v \<noteq> 0))"
      "ms_conns fe3 = (ms_conns fe2)(?a := None, ms_next fe1 := None)" "ms_ctxs fe3 = (ms_ctxs fe2)(?x := None)"
    by (rule lookup_got_attendance [OF assms(1,4,7) i assms(20) s2(4,5) assms(10) x2])
  have "mesh_lookup mesh cfg ids attendance fe w1 w2 = Some (fe3, w1', w2')"
    using s1(1,2,6) s2(1,8) s3(1) by (simp add: mesh_lookup_def)
  moreover have "ms_conns fe3 = ms_conns fe"
    using s3(5) s2(7) s1(5,6) heap by (auto simp: fun_eq_iff)
  moreover have "ms_ctxs fe3 = ms_ctxs fe" using s3(6) s2(6) s1(8) assms(17) by auto
  ultimately show ?thesis using s2(2,3) s3(2-4) by blast
qed

text \<open>What the id service replies to the frontend's question.\<close>

definition id_answer :: "kv_store \<Rightarrow> string \<Rightarrow> int \<times> string" where
  "id_answer ids name = (case kv_store_get ids name of None \<Rightarrow> (404, error_text ''name not found'') | Some i \<Rightarrow> (200, id_body i))"

lemma id_reply_name:
  assumes "name_ok name"
  shows "id_reply ids (parsed_request ''GET'' ''/id'' (query_of (''name='' @ name)) body) = id_answer ids name"
  using lookup_parsed [OF assms, of "''/id''"] by (simp add: id_reply_def id_answer_def query_of_def)

text \<open>C3. A call over the mesh, from the frontend's handler to its upstream handler: a lookup of any name makes
  the frontend ask the configured id service for that name, under a new context that keeps it; the id
  service, which may know the name or not, has a turn; and its reply (200 with the id, or 404) is what
  the frontend's handler for upstream responses is called with, on the connection that refers to the
  client and to the context. The service is idle again.\<close>

theorem mesh_round_trip:
  assumes "delivers mesh" and "idle w []" and "kv_store_wf ids" and "name_ok name"
    and "is_get req ''/lookup''" and "query_get (Some (cstring (req_query req))) (Some ''name'') 64 = Some name"
    and "mesh_ready cfg st a" and "dr_list (cx_tx_sq (ms_ctx st)) = []" and "dr_list (cx_rx_sq (ms_ctx st)) = []"
    and "cx_poller_running (ms_ctx st)"
  shows "\<exists>st1. mesh_frontend cfg a req st = Some st1
    \<and> (\<exists>s. mesh_asked s st1 a (ms_next_ctx st) (id_service_name cfg, fe_namespace cfg) ''/id'' (''name='' @ name))
    \<and> (\<forall>g. \<exists>s uc w'. exchange_mesh mesh g (mesh_id_service ids) (ms_next st) st1 w = do {
          s' \<leftarrow> g (ms_next st) (case kv_store_get ids name of
              None \<Rightarrow> parsed_response 404 (error_text ''name not found'') | Some i \<Rightarrow> parsed_response 200 (id_body i)) s;
          s'' \<leftarrow> dpu_conn_free (ms_next st) s';
          Some (s'', w') }
        \<and> ms_conns s = (ms_conns st)(ms_next st \<mapsto> uc) \<and> c_client_conn uc = Some a \<and> c_handler_ctx uc = Some (ms_next_ctx st)
        \<and> ms_ctxs s = (ms_ctxs st)(ms_next_ctx st \<mapsto> \<lparr>fx_stage = STAGE_WAITING_ID, fx_name = name, fx_id = 0\<rparr>)
        \<and> idle w' [] \<and> ms_conns w' = ms_conns w)"
proof -
  let ?x = "ms_next_ctx st" and ?v = "\<lparr>fx_stage = STAGE_WAITING_ID, fx_name = name, fx_id = 0\<rparr>"
  define s0 where "s0 = st\<lparr>ms_ctxs := (ms_ctxs st)(?x \<mapsto> ?v), ms_next_ctx := Suc ?x\<rparr>"
  obtain r wr fs where fds: "ms_fds st = Some (r, wr) # fs" "ms_mem st = []"
    using assms(7) by (auto simp: mesh_ready_def split: list.splits option.splits)
  have al: "fo_calloc (mesh_fe_ops cfg) ?v st = (Some ?x, s0)"
    using fds(2) by (simp add: mesh_fe_ops_def mesh_ctx_calloc_def mesh_calloc_def s0_def)
  obtain st1 where st1: "mesh_frontend cfg a req st = Some st1" "mesh_asked s0 st1 a ?x (mesh_peer cfg Id_Service) ''/id'' (''name='' @ name)"
    using fe_mesh.lookup_asks_id [OF assms(5,6,4,7) al] unfolding mesh_frontend_def by blast
  have f0: "dr_list (cx_tx_sq (ms_ctx s0)) = []" "dr_list (cx_rx_sq (ms_ctx s0)) = []" "cx_poller_running (ms_ctx s0)"
      "ms_fds s0 = Some (r, wr) # fs" "ms_next s0 = ms_next st" "ms_conns s0 = ms_conns st"
    using assms(8-10) fds(1) by (simp_all add: s0_def)
  obtain uc th tb sq where p: "pending st1 (ms_next s0) a ?x ''/id'' (''name='' @ name)" "ms_conns st1 = (ms_conns s0)(ms_next s0 \<mapsto> uc)"
      "ms_next st1 = Suc (ms_next s0)" "ms_ctxs st1 = ms_ctxs s0" "ms_mem st1 = ms_mem s0" "ms_fds st1 = fs"
      "ms_ctx st1 = (with_response_pipe (ms_ctx s0) r wr)\<lparr>cx_tx_header := th, cx_tx_body := tb, cx_tx_sq := sq\<rparr>"
    by (rule asked_pending [OF st1(2) f0(1-4)])
  have t: "target_ok ''GET'' ''/id'' (query_of (''name='' @ name))" "set (''/id'' @ ''name='' @ name) \<inter> {NUL, CR, LF} = {}"
    using assms(4) by (auto simp: target_ok_def name_ok_def query_of_def)
  have "\<exists>s uc w'. exchange_mesh mesh g (mesh_id_service ids) (ms_next st) st1 w = do {
          s' \<leftarrow> g (ms_next st) (case kv_store_get ids name of
              None \<Rightarrow> parsed_response 404 (error_text ''name not found'') | Some i \<Rightarrow> parsed_response 200 (id_body i)) s;
          s'' \<leftarrow> dpu_conn_free (ms_next st) s'; Some (s'', w') }
        \<and> ms_conns s = (ms_conns st)(ms_next st \<mapsto> uc) \<and> c_client_conn uc = Some a \<and> c_handler_ctx uc = Some ?x
        \<and> ms_ctxs s = (ms_ctxs st)(?x \<mapsto> ?v) \<and> idle w' [] \<and> ms_conns w' = ms_conns w" for g
  proof -
    obtain cx2 uc' w' where e: "exchange_mesh mesh g (mesh_id_service ids) (ms_next s0) st1 w = do {
          s' \<leftarrow> g (ms_next s0) (parsed_response (fst (id_answer ids name)) (snd (id_answer ids name))) (put_dpu (ms_next s0) uc' (st1\<lparr>ms_ctx := cx2\<rparr>));
          s'' \<leftarrow> dpu_conn_free (ms_next s0) s'; Some (s'', w') }"
        "idle w' []" "ms_conns w' = ms_conns w" "c_client_conn uc' = Some a" "c_handler_ctx uc' = Some ?x" "c_fd uc' = -1"
        "call_done (ms_ctx st1) cx2"
      by (rule exchange_mesh_reply [OF assms(1,2) mesh_leaf_id [OF assms(3)] p(1) t id_reply_name [OF assms(4), symmetric]])
    let ?s = "put_dpu (ms_next s0) uc' (st1\<lparr>ms_ctx := cx2\<rparr>)"
    have "parsed_response (fst (id_answer ids name)) (snd (id_answer ids name)) = (case kv_store_get ids name of
        None \<Rightarrow> parsed_response 404 (error_text ''name not found'') | Some i \<Rightarrow> parsed_response 200 (id_body i))"
      by (simp add: id_answer_def split: option.split)
    note run = e(1) [unfolded this f0(5)]
    have c: "ms_conns ?s = (ms_conns st)(ms_next st \<mapsto> uc')" using p(2) f0(5,6) by (simp add: put_dpu_def)
    have x: "ms_ctxs ?s = (ms_ctxs st)(?x \<mapsto> ?v)" using p(4) by (simp add: put_dpu_def s0_def)
    show ?thesis
      by (rule exI [of _ ?s], rule exI [of _ uc'], rule exI [of _ w'], intro conjI)
        (use run c x e(2-5) f0(5) in simp_all)
  qed
  with st1 show ?thesis by auto
qed

section \<open>A concrete run\<close>

text \<open>A mesh that copies the sender's pools and ring to the receiver and clears the sender's.\<close>

definition empty_ring :: desc_ring where
  "empty_ring = dr_reset (replicate DPUMESH_MAX_DESCRIPTORS zero_descriptor)"

definition copy_mesh :: mesh_move where
  "copy_mesh cx rx = (cx\<lparr>cx_tx_header := empty_pool, cx_tx_body := empty_pool, cx_tx_sq := empty_ring\<rparr>,
     rx\<lparr>cx_rx_header := cx_tx_header cx, cx_rx_body := cx_tx_body cx, cx_rx_sq := cx_tx_sq cx\<rparr>)"

lemma copy_mesh_delivers: "delivers copy_mesh"
  unfolding delivers_def
proof (intro allI impI conjI)
  fix cx rx :: dpumesh_ctx and d
  assume a: "ctx_inv cx" "ctx_inv rx" "dr_list (cx_tx_sq cx) = [d]" "dr_list (cx_rx_sq rx) = []"
    "0 \<le> sint (header_buf_slot d)" "0 \<le> sint (body_buf_slot d)"
  have "tx_free (fst (copy_mesh cx rx))" using demo_ctx_free by (simp add: copy_mesh_def tx_free_def demo_ctx_def empty_ring_def)
  then show "drained cx (fst (copy_mesh cx rx))"
    using a(1) empty_pool_ok dr_reset_ok by (auto simp: drained_def copy_mesh_def ctx_inv_def empty_ring_def)
  show "\<exists>d'. filled cx d rx (snd (copy_mesh cx rx)) d'"
    using a by (intro exI [of _ d]) (auto simp: filled_def copy_mesh_def ctx_inv_def relayed_def)
qed

definition demo_lookup_header :: mesh_header where
  "demo_lookup_header = \<lparr>mh_method = ''GET'', mh_url = ''/lookup?name=bob'', mh_path = ''/lookup'', mh_query = ''name=bob'',
     mh_status = 0, mh_req_id_str = ''r-7'', mh_source_worker = [], mh_dest_worker = []\<rparr>"

definition demo_lookup_text :: string where
  "demo_lookup_text = case2_text (header_text demo_lookup_header) []"

definition demo_lookup_desc :: sw_descriptor where
  "demo_lookup_desc = zero_descriptor\<lparr>req_id := 7, flags := CASE_INGRESS, valid := 1, header_buf_slot := -1, body_buf_slot := 0,
     body_len := of_nat (length demo_lookup_text)\<rparr>"

definition demo_worker :: "(int \<times> int) option list \<Rightarrow> 'x mesh" where
  "demo_worker fds = \<lparr>ms_ctx = demo_ctx, ms_conns = Map.empty, ms_next = 0, ms_ctxs = Map.empty, ms_next_ctx = 0, ms_mem = [],
     ms_fds = fds\<rparr>"

definition demo_lookup_frontend :: "frontend_ctx mesh" where
  "demo_lookup_frontend = (demo_worker [Some (5, 6), Some (5, 6)])\<lparr>ms_ctx := demo_ctx\<lparr>
     cx_rx_body := snd (the (bp_write empty_pool 0 demo_lookup_text (length demo_lookup_text))),
     cx_rx_sq := snd (the (dr_put empty_ring demo_lookup_desc))\<rparr>\<rparr>"

lemma demo_worker_idle: "idle (demo_worker fds) []"
  using demo_ctx_inv demo_ctx_free dr_reset_ok(2)
  by (simp add: idle_def demo_worker_def)
    (simp add: demo_ctx_def plain_def pipe_ends_def pipe_contents_def pipe_open_def no_pipes_def)

lemma demo_lookup_length: "length demo_lookup_text < 1000"
  by (simp add: demo_lookup_text_def case2_text_def header_text_def demo_lookup_header_def show_zero)

lemma demo_lookup_ready:
  "idle demo_lookup_frontend [demo_lookup_desc]" "arrived (ms_ctx demo_lookup_frontend) demo_lookup_desc demo_lookup_header []"
proof -
  note ok = pool_ok_bp_inv [OF empty_pool_ok]
  obtain bp where bp: "bp_write empty_pool 0 demo_lookup_text (length demo_lookup_text) = Some (int (length demo_lookup_text), bp)"
      "bp_read bp 0 (length demo_lookup_text) = Some (int (length demo_lookup_text), demo_lookup_text)"
    using bp_write_slot [OF ok, of 0 "length demo_lookup_text" demo_lookup_text] demo_lookup_length
    by (auto simp: empty_pool_def DPUMESH_NUM_SLOTS_def DPUMESH_SLOT_SIZE_def)
  have b: "pool_ok bp" by (rule pool_ok_write [OF empty_pool_ok bp(1)])
  have e: "dr_inv empty_ring" "dr_list empty_ring = []" using dr_reset_ok by (simp_all add: empty_ring_def)
  obtain sq where sq: "dr_put empty_ring demo_lookup_desc = Some (0, sq)" "dr_inv sq" "dr_list sq = [demo_lookup_desc]"
    using dr_put_cases [OF e(1), of demo_lookup_desc thesis] e(2) by auto
  have cx: "ms_ctx demo_lookup_frontend = demo_ctx\<lparr>cx_rx_body := bp, cx_rx_sq := sq\<rparr>"
    by (simp add: demo_lookup_frontend_def bp(1) sq(1))
  have "ctx_inv (ms_ctx demo_lookup_frontend)" using demo_ctx_inv b sq(2) by (simp add: cx ctx_inv_def)
  moreover have "tx_free (ms_ctx demo_lookup_frontend)" using demo_ctx_free by (simp add: cx tx_free_def)
  moreover have "idle (demo_worker [Some (5, 6), Some (5, 6)] :: frontend_ctx mesh) []" by (rule demo_worker_idle)
  ultimately show "idle demo_lookup_frontend [demo_lookup_desc]"
    using sq(3) by (simp add: idle_def cx) (simp add: demo_lookup_frontend_def demo_worker_def)
  have t: "unat (body_len demo_lookup_desc) = length demo_lookup_text"
    using demo_lookup_length by (simp add: demo_lookup_desc_def unat_of_nat take_bit_nat_eq_self)
  have h: "header_ok demo_lookup_header" "length (header_text demo_lookup_header) < HDR_SIZE" "header_no_braces demo_lookup_header"
    by (simp_all add: demo_lookup_header_def header_ok_def plain_def in_i32_def header_text_def show_zero HDR_SIZE_def
        header_no_braces_def no_braces_def)
  have f: "flags demo_lookup_desc AND 0x0F = CASE_INGRESS" "valid demo_lookup_desc = 1" "\<not> is_response demo_lookup_desc"
      "sint (body_buf_slot demo_lookup_desc) = 0"
    by (simp_all add: demo_lookup_desc_def CASE_INGRESS_def is_response_def OP_RESPONSE_def)
  show "arrived (ms_ctx demo_lookup_frontend) demo_lookup_desc demo_lookup_header []"
    using h f t bp(2) demo_lookup_length
    by (simp add: arrived_def cx demo_lookup_text_def [symmetric] DPUMESH_SLOT_SIZE_def)
qed

theorem mesh_lookup_answered_witness:
  "\<exists>fe' w1' w2'. mesh_lookup copy_mesh (mesh_main_config (\<lambda>_. None)) demo_ids demo_attendance demo_lookup_frontend
       (demo_worker [] :: unit mesh) (demo_worker [] :: unit mesh) = Some (fe', w1', w2')
     \<and> reply_queued (ms_ctx fe') 7 (200, lookup_body ''bob'' 5 True)"
proof -
  have l: "lookup_header demo_lookup_header ''bob''" by (simp add: lookup_header_def demo_lookup_header_def)
  have c: "mcfg_ok (mesh_main_config (\<lambda>_. None))" by (simp add: mcfg_ok_def mesh_main_config_def)
  have n: "name_ok ''bob''" "kv_store_wf demo_ids" "kv_store_get demo_ids ''bob'' = Some 5"
      "kv_store_get demo_attendance (show_int 5) = Some 1"
    by (simp_all add: name_ok_def kv_store_wf_def entry_wf_def demo_ids_def demo_attendance_def kv_store_get_def
        in_i32_def show_five MAX_KEY_LEN_def MAX_ENTRIES_def)
  have f: "ms_fds demo_lookup_frontend = Some (5, 6) # Some (5, 6) # []" "cx_notify_fd (ms_ctx demo_lookup_frontend) \<notin> {5, 6}"
      "ms_ctxs demo_lookup_frontend (ms_next_ctx demo_lookup_frontend) = None"
    by (simp_all add: demo_lookup_frontend_def demo_worker_def) (simp add: demo_ctx_def)
  have b: "NUL \<notin> set (body_of [])" "length ([] :: char list) < 4096" "req_id demo_lookup_desc = 7"
    by (simp_all add: body_of_def demo_lookup_desc_def)
  from mesh_lookup_answered [where ?w1.0 = "demo_worker [] :: unit mesh" and ?w2.0 = "demo_worker [] :: unit mesh",
      OF copy_mesh_delivers demo_lookup_ready(1) demo_worker_idle demo_worker_idle demo_lookup_ready(2) l n(1) b(1,2) c
      f(1) _ _ _ _ f(2,3) n(2-4)] b(3)
  show ?thesis by fastforce
qed

text \<open>The id service does not know the name; the handler for upstream responses accepts its reply only.\<close>

theorem mesh_round_trip_witness:
  "\<exists>st1 s w'. mesh_frontend (mesh_main_config (\<lambda>_. None)) 0 (parsed_request ''GET'' ''/lookup'' (Some ''name=eve'') []) demo_fe_mesh = Some st1
     \<and> exchange_mesh copy_mesh (\<lambda>u resp s. if u = 2 \<and> resp = parsed_response 404 (error_text ''name not found'') then Some s else None)
         (mesh_id_service demo_ids) 2 st1 (demo_worker [] :: unit mesh) = Some (s, w')
     \<and> ms_conns s 2 = None \<and> idle w' []"
proof -
  let ?g = "\<lambda>u resp s. if u = 2 \<and> resp = parsed_response 404 (error_text ''name not found'') then Some s else None"
  let ?req = "parsed_request ''GET'' ''/lookup'' (Some ''name=eve'') []"
  have n: "name_ok ''eve''" "kv_store_wf demo_ids" "kv_store_get demo_ids ''eve'' = None"
    by (simp_all add: name_ok_def kv_store_wf_def entry_wf_def demo_ids_def kv_store_get_def in_i32_def MAX_KEY_LEN_def MAX_ENTRIES_def)
  have q: "is_get ?req ''/lookup''" "query_get (Some (cstring (req_query ?req))) (Some ''name'') 64 = Some ''eve''"
    using lookup_parsed [OF n(1), of "''/lookup''"] by simp_all
  have "ms_ctx demo_fe_mesh = ms_ctx (demo_worker [] :: unit mesh)" by (simp add: demo_fe_mesh_def demo_worker_def)
  moreover have idle: "idle (demo_worker [] :: unit mesh) []" by (rule demo_worker_idle)
  ultimately have d: "dr_list (cx_tx_sq (ms_ctx demo_fe_mesh)) = []" "dr_list (cx_rx_sq (ms_ctx demo_fe_mesh)) = []" "cx_poller_running (ms_ctx demo_fe_mesh)"
    by (simp_all add: idle_def)
  have x: "ms_next demo_fe_mesh = 2" by (simp add: demo_fe_mesh_def)
  obtain st1 where st1: "mesh_frontend (mesh_main_config (\<lambda>_. None)) 0 ?req demo_fe_mesh = Some st1"
      "\<And>g. \<exists>s uc w'. exchange_mesh copy_mesh g (mesh_id_service demo_ids) 2 st1 (demo_worker [] :: unit mesh) = do {
          s' \<leftarrow> g 2 (parsed_response 404 (error_text ''name not found'')) s; s'' \<leftarrow> dpu_conn_free 2 s'; Some (s'', w') }
        \<and> ms_conns s 2 = Some uc \<and> idle w' []"
    using mesh_round_trip [OF copy_mesh_delivers idle n(2,1) q demo_fe_mesh_ready d]
    unfolding n(3) option.case x by fastforce
  from st1(2) [of ?g] obtain s uc w' where e: "exchange_mesh copy_mesh ?g (mesh_id_service demo_ids) 2 st1 (demo_worker [] :: unit mesh)
      = do { s'' \<leftarrow> dpu_conn_free 2 s; Some (s'', w') }" "ms_conns s 2 = Some uc" "idle w' []" by auto
  then show ?thesis using st1(1) by (auto simp: dpu_conn_free_def)
qed

end
