(* ===== verification/Mesh_Loop.thy ===== *)
theory Mesh_Loop
  imports Mesh_Lookup
begin

text \<open>
  The event of the notify pipe at a leaf service over the mesh (\<open>on_notify_cb\<close> and \<open>on_request\<close> of
  \<open>common/dpumesh_handler.c\<close> on \<open>dpumesh_read\<close> of \<open>common/dpumesh.c\<close>): it returns for all messages between
  workers and all ingress messages that have a header, whatever else is in them, and leaves nothing
  behind in the notify pipe and the RX pools.
\<close>

section \<open>The printed request\<close>

text \<open>The text that is parsed again is bounded up to its blank line, and a body that does not fit is cut by
  \<open>snprintf\<close>; so the parser stays inside the connection's buffer, although it is given the full length.\<close>

lemma printed_request_parsed:
  assumes "bounded_request rq"
  shows "\<exists>rc req. http_parse_request (store_text (replicate BUF_SIZE NUL) (take (BUF_SIZE - 1) (request_text rq))) (length (request_text rq))
    = Some (rc, req)"
proof -
  define meth path qs where "meth = or_text ''GET'' (rq_method rq)" and "path = or_text ''/'' (rq_path rq)"
    and "qs = or_text [] (rq_query_string rq)"
  define n where "n = request_body_len rq"
  define pre where "pre = meth @ '' '' @ path @ (if qs \<noteq> [] then ''?'' @ qs else []) @ '' HTTP/1.1'' @ CRLF @ ''Host: dpumesh'' @ CRLF"
  define u where "u = pre @ ''Content-Length: '' @ show_nat n"
  define b where "b = fmt_prec (i32 (int n)) (cstring (or_text [] (rq_body rq)))"
  define v where "v = take (BUF_SIZE - 1 - (length u + 4)) b @ NUL # drop (Suc (length (take (BUF_SIZE - 1) (request_text rq)))) (replicate BUF_SIZE NUL)"
  have len: "length meth \<le> 15" "length path \<le> 255" "length qs \<le> 511"
    using assms by (auto simp: meth_def path_def qs_def bounded_request_def or_text_def nullable_def split: option.splits)
  have "n < DPUMESH_SLOT_SIZE" using assms by (simp add: n_def request_body_len_def bounded_request_def DPUMESH_SLOT_SIZE_def)
  then have "n < 10 ^ 7" by (simp add: DPUMESH_SLOT_SIZE_def)
  then have l: "length (show_nat n) \<le> 7" by (rule length_show_nat) simp
  have pre: "26 \<le> length pre" "length pre \<le> 810" using len by (auto simp: pre_def)
  then have lu: "length u + 4 \<le> 837" using l by (simp add: u_def)
  have t: "request_text rq = u @ CR # LF # CR # LF # b"
    by (simp add: request_text_def u_def pre_def b_def n_def meth_def path_def qs_def Let_def)
  have "take k (w @ b) = w @ take (k - length w) b" if "length w \<le> k" for w k using that by simp
  from this [of "u @ [CR, LF, CR, LF]" "BUF_SIZE - 1"]
  have "take (BUF_SIZE - 1) ((u @ [CR, LF, CR, LF]) @ b) = (u @ [CR, LF, CR, LF]) @ take (BUF_SIZE - 1 - (length u + 4)) b"
    using lu by (simp add: BUF_SIZE_def)
  moreover have "request_text rq = (u @ [CR, LF, CR, LF]) @ b" using t by simp
  ultimately have cut: "take (BUF_SIZE - 1) (request_text rq) = (u @ [CR, LF, CR, LF]) @ take (BUF_SIZE - 1 - (length u + 4)) b"
    by (simp only:)
  have buf: "store_text (replicate BUF_SIZE NUL) (take (BUF_SIZE - 1) (request_text rq)) = u @ CR # LF # CR # LF # v"
    unfolding store_text_def v_def cut by simp
  have "length (store_text (replicate BUF_SIZE NUL) (take (BUF_SIZE - 1) (request_text rq))) = BUF_SIZE"
    by (simp add: store_text_def BUF_SIZE_def min_def)
  then have lb: "length (u @ CR # LF # CR # LF # v) = 8192" unfolding buf by (simp add: BUF_SIZE_def)
  have "(u @ CR # LF # CR # LF # v) ! length pre = CHR ''C''" by (simp add: u_def nth_append)
  moreover have "NUL \<in> set v" by (simp add: v_def)
  ultimately show ?thesis
    unfolding buf using pre lu lb by (intro http_parse_request_total [OF refl, where j = "length pre"]) (simp_all add: t BODY_SIZE_def)
qed

section \<open>The callback\<close>

text \<open>A response always returns, with room in the TX objects or without.\<close>

lemma respond_returns:
  assumes "serving (ms_ctx s)" and "names_fit (ms_ctx s) (dpu_desc_index c)" and "dpu_desc_index c < DPUMESH_MAX_PENDING"
    and "ms_conns s a = Some c" and "announces r body n"
  shows "\<exists>s'. mesh_respond a (fst r) body n s = Some s'"
proof -
  let ?msg = "respond_msg (dpu_desc_index c) (fst r) (body @ [NUL]) n" and ?cx = "ms_ctx s"
  let ?h = "header_text (answer_header ?cx ?msg)" and ?ib = "cx_inbound ?cx ! dpu_desc_index c"
  let ?cx1 = "?cx\<lparr>cx_inbound := (cx_inbound ?cx)[dpu_desc_index c := ?ib\<lparr>ib_active := False\<rparr>]\<rparr>"
  have inv: "ctx_inv ?cx" "length (cx_worker_id ?cx) < 128" using assms(1) by (simp_all add: serving_def)
  have "in_i32 (fst r)" using assms(5) by (simp add: announces_def in_i32_def)
  from length_show_int [OF this] have len: "length ?h < HDR_SIZE"
    using assms(2) inv(2) by (simp add: answer_header_def Let_def header_text_def names_fit_def HDR_SIZE_def)
  then have h: "response_header ?cx ?msg ?ib = (?h, length ?h)"
    by (simp add: response_header_def serialize_header_def snprintf_def nullable_def answer_header_def Let_def)
  have i1: "ctx_inv ?cx1" using inv(1) by (simp add: ctx_inv_def)
  have b: "body_ok ?msg" using assms(5) by (simp add: body_ok_def respond_msg_def announces_def DPUMESH_SLOT_SIZE_def)
  obtain rc cx' where e: "tx_enqueue ?cx1 (ib_req_id ?ib) (OP_RESPONSE OR (if ib_source_worker ?ib = [] then CASE_INGRESS else CASE_LOCAL))
      ?h (length ?h) ?msg = Some (rc, cx')"
    using tx_enqueue_total [OF i1 b len order_refl] by blast
  have "dpu_desc_index c < length (cx_inbound ?cx)" using inv(1) assms(3) by (simp add: ctx_inv_def)
  then have "dpumesh_write ?cx ?msg False None = Some (rc, cx', None)" using e by (simp add: dpumesh_write_def h Let_def)
  then show ?thesis using assms(4) by (simp add: mesh_respond_def dpumesh_conn_respond_def dpu_conn_free_def)
qed

definition request_callback :: "'x mesh_request_handler \<Rightarrow> dpumesh_request \<Rightarrow> 'x mesh \<Rightarrow> dpumesh_ctx \<Rightarrow> ('x mesh \<times> dpumesh_ctx) option" where
  "request_callback svc = (\<lambda>rq s c. map_option (\<lambda>s'. (s', ms_ctx s')) (on_request svc rq (s\<lparr>ms_ctx := c\<rparr>)))"

lemma leaf_polite:
  assumes "mesh_leaf svc reply"
  shows "polite (request_callback svc)"
  unfolding polite_def
proof (intro allI impI)
  fix rq and s :: "'a mesh" and cx
  assume a: "serving cx" "bounded_request rq" "names_fit cx (rq_desc_index rq)"
  have fin: "\<exists>s' cx'. request_callback svc rq s cx = Some (s', cx') \<and> ctx_inv cx' \<and> rx_kept cx cx'"
    if "on_request svc rq (s\<lparr>ms_ctx := cx\<rparr>) = Some s'" "ctx_inv (ms_ctx s')" "rx_kept cx (ms_ctx s')" for s'
    using that by (simp add: request_callback_def)
  have inv: "ctx_inv cx" using a(1) by (simp add: serving_def)
  obtain ok s0 where m: "mesh_calloc (s\<lparr>ms_ctx := cx\<rparr>) = (ok, s0)" by (rule prod.exhaust)
  have f: "ms_ctx s0 = cx" using m by (auto simp: mesh_calloc_def split: list.splits)
  show "\<exists>s' cx'. request_callback svc rq s cx = Some (s', cx') \<and> ctx_inv cx' \<and> rx_kept cx cx'"
  proof (cases ok)
    case False
    then show ?thesis using m f inv by (intro fin [of s0]) (simp_all add: on_request_def dpu_conn_alloc_def rx_kept_def)
  next
    case True
    let ?c = "blank_dpu_conn\<lparr>dpu_desc_index := rq_desc_index rq, c_rlen := length (request_text rq),
      c_rbuf := store_text (replicate BUF_SIZE NUL) (take (BUF_SIZE - Suc 0) (request_text rq))\<rparr>"
    let ?s = "put_dpu (ms_next s0) ?c ((put_dpu (ms_next s0) blank_dpu_conn s0)\<lparr>ms_next := Suc (ms_next s0)\<rparr>)"
    have sx: "ms_ctx ?s = cx" "ms_conns ?s (ms_next s0) = Some ?c" by (simp_all add: put_dpu_def f)
    obtain ret req where p: "http_parse_request (c_rbuf ?c) (c_rlen ?c) = Some (ret, req)"
      using printed_request_parsed [OF a(2)] by auto
    have r: "on_request svc rq (s\<lparr>ms_ctx := cx\<rparr>) = (if ret = 0 then svc (ms_next s0) req ?s else Some ?s)"
      using True m p by (simp add: on_request_def dpu_conn_alloc_def snprintf_def Let_def)
    show ?thesis
    proof (cases "ret = 0")
      case False
      with r sx inv show ?thesis by (intro fin [of ?s]) (simp_all add: rx_kept_def)
    next
      case True
      obtain body n where b: "svc (ms_next s0) req ?s = mesh_respond (ms_next s0) (fst (reply req)) body n ?s" "announces (reply req) body n"
        using assms unfolding mesh_leaf_def by blast
      have "dpu_desc_index ?c < DPUMESH_MAX_PENDING" "dpu_desc_index ?c = rq_desc_index rq" using a(2) by (simp_all add: bounded_request_def)
      then obtain s' where s': "mesh_respond (ms_next s0) (fst (reply req)) body n ?s = Some s'"
        using respond_returns [of ?s ?c "ms_next s0", OF _ _ _ sx(2) b(2)] a(1,3) unfolding sx(1) by metis
      obtain ib th tb sq where k: "s' = ?s\<lparr>ms_ctx := (ms_ctx ?s)\<lparr>cx_inbound := ib, cx_tx_header := th, cx_tx_body := tb, cx_tx_sq := sq\<rparr>,
          ms_conns := (ms_conns ?s)(ms_next s0 := None)\<rparr>" "ctx_inv (ms_ctx s')"
        by (rule respond_exact [of ?s _ _ _ _ s', OF _ s' [unfolded mesh_respond_def] sx(2)]) (simp_all add: f inv)
      have "rx_kept cx (ms_ctx s')" by (simp add: k(1) rx_kept_def) (simp add: put_dpu_def f)
      with r True b(1) s' k(2) show ?thesis by (intro fin [of s']) simp_all
    qed
  qed
qed

section \<open>The event of the notify pipe\<close>

lemma notify_serves:
  assumes "mesh_leaf svc reply" and "serving (ms_ctx st)" and "pipe_contents (cx_notify_fd (ms_ctx st)) (cx_pipes (ms_ctx st)) = ds"
    and "\<forall>d \<in> valid_ones ds. readable_msg (ms_ctx st) d"
  shows "\<exists>st'. on_notify_cb svc st = Some st' \<and> serving (ms_ctx st')
    \<and> pipe_contents (cx_notify_fd (ms_ctx st)) (cx_pipes (ms_ctx st')) = []
    \<and> bp_used (cx_rx_header (ms_ctx st')) = bp_used (cx_rx_header (ms_ctx st)) - (\<lambda>d. sint (header_buf_slot d)) ` valid_ones ds
    \<and> bp_used (cx_rx_body (ms_ctx st')) = bp_used (cx_rx_body (ms_ctx st)) - (\<lambda>d. sint (body_buf_slot d)) ` valid_ones ds"
proof -
  obtain s' cx' where r: "dpumesh_read (Suc (length ds)) (request_callback svc) st (ms_ctx st)
        = Some (length (filter (\<lambda>d. valid d = 1) ds), s', cx')"
      and k: "serving cx'" "pipe_contents (cx_notify_fd (ms_ctx st)) (cx_pipes cx') = []"
        "bp_used (cx_rx_header cx') = bp_used (cx_rx_header (ms_ctx st)) - (\<lambda>d. sint (header_buf_slot d)) ` valid_ones ds"
        "bp_used (cx_rx_body cx') = bp_used (cx_rx_body (ms_ctx st)) - (\<lambda>d. sint (body_buf_slot d)) ` valid_ones ds"
    using read_drains [OF leaf_polite [OF assms(1)] assms(2-4) lessI, of st] by blast
  have "on_notify_cb svc st = Some (s'\<lparr>ms_ctx := cx'\<rparr>)"
    using r assms(3) by (simp add: on_notify_cb_def request_callback_def Let_def del: dpumesh_read.simps)
  with k show ?thesis by simp
qed

text \<open>C29. The event for requests at the leaf services over the mesh: whatever messages are in the notify pipe,
  between workers or from clients outside the mesh (of the latter it is required that their text has a
  header object), with room in the TX objects or not, the callback returns; it has read the pipe empty,
  freed exactly the RX slots of the messages that are marked valid, and the context is well formed and
  bounded as before, so that the next event is served as well.\<close>

theorem notify_event_served:
  assumes "kv_store_wf ids" and "svc \<in> {mesh_id_service ids, mesh_attend_service attendance}"
    and "serving (ms_ctx st)" and "pipe_contents (cx_notify_fd (ms_ctx st)) (cx_pipes (ms_ctx st)) = ds"
    and "\<forall>d \<in> set ds. valid d = 1 \<longrightarrow> readable_msg (ms_ctx st) d"
  shows "\<exists>st'. on_notify_cb svc st = Some st' \<and> serving (ms_ctx st')
    \<and> pipe_contents (cx_notify_fd (ms_ctx st)) (cx_pipes (ms_ctx st')) = []
    \<and> bp_used (cx_rx_header (ms_ctx st')) = bp_used (cx_rx_header (ms_ctx st))
        - (\<lambda>d. sint (header_buf_slot d)) ` set (filter (\<lambda>d. valid d = 1) ds)
    \<and> bp_used (cx_rx_body (ms_ctx st')) = bp_used (cx_rx_body (ms_ctx st))
        - (\<lambda>d. sint (body_buf_slot d)) ` set (filter (\<lambda>d. valid d = 1) ds)"
proof -
  obtain reply where "mesh_leaf svc reply" using assms(2) mesh_leaf_id [OF assms(1)] mesh_leaf_attend [of attendance] by auto
  then show ?thesis using assms(3-5) by (intro notify_serves) auto
qed

text \<open>The pipe holds a client's message, a descriptor that is not valid and a message without header and body.\<close>

lemma parse_case2_failed: "fst (parse_case2_body c h n) \<noteq> 0 \<Longrightarrow> parse_case2_body c h n = (-1, None, None)"
  by (auto simp: parse_case2_body_def Let_def split: option.splits if_splits)

lemma decode_readable:
  assumes "decode_request cx d = Some r" and "flags d AND 0x0F = CASE_INGRESS"
  shows "readable_msg cx d"
proof (cases "0 \<le> sint (body_buf_slot d) \<and> 0 < body_len d")
  case True
  then obtain x bs where b: "bp_read (cx_rx_body cx) (sint (body_buf_slot d)) (read_len (body_len d) DPUMESH_SLOT_SIZE) = Some (x, bs)"
      "(case parse_case2_body (cstring bs) HDR_SIZE DPUMESH_SLOT_SIZE of
          (rc, Some header_json, Some body) \<Rightarrow>
            let (rq', cx') = read_header_fields cx (blank_request d) header_json
            in Some (rq'\<lparr>rq_body := Some body, rq_body_len := length body\<rparr>, cx')
        | _ \<Rightarrow> None) = Some r"
    using assms by (auto simp: decode_request_def case_flag_blank Let_def bind_eq_Some_conv)
  have "fst (parse_case2_body (cstring bs) HDR_SIZE DPUMESH_SLOT_SIZE) = 0"
    using parse_case2_failed b(2) by (metis (no_types, lifting) case_prod_conv option.case(1) option.distinct(1))
  with b(1) show ?thesis by (simp add: readable_msg_def)
qed (auto simp: readable_msg_def)

definition demo_inbound :: "sw_descriptor list" where
  "demo_inbound = [demo_lookup_desc, demo_lookup_desc\<lparr>valid := 0\<rparr>, zero_descriptor\<lparr>flags := 3, valid := 1, header_buf_slot := -1, body_buf_slot := -1\<rparr>]"

definition inbound_worker :: "unit mesh" where
  "inbound_worker = (demo_worker [])\<lparr>ms_ctx := (ms_ctx demo_lookup_frontend)\<lparr>cx_pipes := (pipe_open 3 4 no_pipes)\<lparr>pp_data := (\<lambda>_. [])(0 := demo_inbound)\<rparr>\<rparr>\<rparr>"

theorem notify_event_served_witness:
  "\<exists>st'. on_notify_cb (mesh_id_service demo_ids) inbound_worker = Some st' \<and> pipe_contents 3 (cx_pipes (ms_ctx st')) = []
     \<and> 0 \<notin> bp_used (cx_rx_body (ms_ctx st'))"
proof -
  let ?cx = "ms_ctx inbound_worker"
  have fd: "cx_notify_fd ?cx = 3" by (simp add: inbound_worker_def demo_lookup_frontend_def demo_ctx_def)
  have "ctx_inv (ms_ctx demo_lookup_frontend)" using demo_lookup_ready(1) by (simp add: idle_def)
  then have "ctx_inv ?cx" by (simp add: ctx_inv_def inbound_worker_def)
  then have s: "serving ?cx"
    by (simp add: serving_def bufs_bounded_def) (simp add: inbound_worker_def demo_lookup_frontend_def demo_ctx_def)
  have p: "pipe_contents (cx_notify_fd ?cx) (cx_pipes ?cx) = demo_inbound"
    unfolding fd by (simp add: inbound_worker_def pipe_contents_def pipe_open_def no_pipes_def)
  have "flags demo_lookup_desc AND 0x0F = CASE_INGRESS" by (simp add: demo_lookup_desc_def CASE_INGRESS_def)
  with decode_arrived [OF demo_lookup_ready(2)] have "readable_msg ?cx demo_lookup_desc"
    unfolding inbound_worker_def by (auto intro!: decode_readable)
  then have r: "\<forall>d \<in> set demo_inbound. valid d = 1 \<longrightarrow> readable_msg ?cx d"
    by (simp add: demo_inbound_def readable_msg_def CASE_INGRESS_def)
  have wf: "kv_store_wf demo_ids" by (simp add: kv_store_wf_def entry_wf_def demo_ids_def in_i32_def MAX_KEY_LEN_def MAX_ENTRIES_def)
  have b: "sint (body_buf_slot demo_lookup_desc) = 0" "valid demo_lookup_desc = 1" by (simp_all add: demo_lookup_desc_def)
  from notify_event_served [OF wf insertI1 s p r] obtain st' where
    st': "on_notify_cb (mesh_id_service demo_ids) inbound_worker = Some st'" "pipe_contents 3 (cx_pipes (ms_ctx st')) = []"
      "bp_used (cx_rx_body (ms_ctx st')) = bp_used (cx_rx_body ?cx) - (\<lambda>d. sint (body_buf_slot d)) ` set (filter (\<lambda>d. valid d = 1) demo_inbound)"
    unfolding fd by blast
  have "demo_lookup_desc \<in> set (filter (\<lambda>d. valid d = 1) demo_inbound)" by (simp add: demo_inbound_def b(2))
  then have "0 \<in> (\<lambda>d. sint (body_buf_slot d)) ` set (filter (\<lambda>d. valid d = 1) demo_inbound)" using b(1) by (metis imageI)
  then have "0 \<notin> bp_used (cx_rx_body (ms_ctx st'))" unfolding st'(3) by simp
  with st'(1,2) show ?thesis by blast
qed

end
