(* ===== verification/Programs.thy ===== *)
theory Programs
  imports Event_Loop Mesh_Services
begin

text \<open>
  The programs from \<open>main\<close> on: their configuration, the listening socket (\<open>make_listen_socket\<close> of
  \<open>common/tcp_handler.c\<close>), the start of the mesh handler (\<open>dpumesh_handler_init\<close> and \<open>dpumesh_run\<close> of
  \<open>common/dpumesh_handler.c\<close>) and the event loop over the mesh. A program either exits with a code or
  enters its event loop; what happens there are all states of the loop's relation.
\<close>

section \<open>The listening socket\<close>

text \<open>The sockets of a process, and what the system calls on the new one return. The port goes through
  \<open>htons\<close>, which keeps its lower 16 bits.\<close>

datatype sock = Fresh_Sock | Bound_Sock "16 word" | Listening "16 word" nat

type_synonym socks = "int \<Rightarrow> sock option"

record listen_env =
  le_socket :: int
  le_bind :: bool
  le_listen :: bool

definition make_listen_socket :: "listen_env \<Rightarrow> int \<Rightarrow> socks \<Rightarrow> int \<times> socks" where
  "make_listen_socket env port s =
     (let fd = le_socket env
      in if fd < 0 then (-1, s)
         else let s1 = s(fd \<mapsto> Fresh_Sock)
           in if \<not> le_bind env then (-1, s1(fd := None))
              else let s2 = s1(fd \<mapsto> Bound_Sock (of_int port))
                in if \<not> le_listen env then (-1, s2(fd := None))
                   else (fd, s2(fd \<mapsto> Listening (of_int port) 128)))"

section \<open>The programs over TCP\<close>

text \<open>The result of a \<open>main\<close>: \<open>Inl\<close> its return value, or \<open>Inr\<close> what its event loop runs on.\<close>

definition listen_port :: "(string \<Rightarrow> string option) \<Rightarrow> int" where
  "listen_port getenv = (case getenv ''PORT'' of None \<Rightarrow> 8080 | Some p \<Rightarrow> atoi p)"

definition tcp_leaf_main :: "string \<Rightarrow> (string \<Rightarrow> string option) \<Rightarrow> (string \<Rightarrow> file_env) \<Rightarrow> listen_env \<Rightarrow> socks
    \<Rightarrow> ((int + kv_store \<times> int) \<times> socks) option" where
  "tcp_leaf_main default_file getenv files env s = do {
     (rc, store) \<leftarrow> kv_store_load \<lparr>entries = []\<rparr> (files (or_text default_file (getenv ''DATA_FILE'')));
     if rc \<noteq> 0 then Some (Inl 1, s)
     else let (fd, s') = make_listen_socket env (listen_port getenv) s
       in Some (if fd < 0 then Inl 1 else Inr (store, fd), s')
   }"

definition id_main :: "(string \<Rightarrow> string option) \<Rightarrow> (string \<Rightarrow> file_env) \<Rightarrow> listen_env \<Rightarrow> socks
    \<Rightarrow> ((int + kv_store \<times> int) \<times> socks) option" where
  "id_main = tcp_leaf_main ''data/ids.json''"

definition attend_main :: "(string \<Rightarrow> string option) \<Rightarrow> (string \<Rightarrow> file_env) \<Rightarrow> listen_env \<Rightarrow> socks
    \<Rightarrow> ((int + kv_store \<times> int) \<times> socks) option" where
  "attend_main = tcp_leaf_main ''data/attendance.json''"

definition frontend_main :: "(string \<Rightarrow> string option) \<Rightarrow> listen_env \<Rightarrow> socks \<Rightarrow> (int + fe_config \<times> int) \<times> socks" where
  "frontend_main getenv env s =
     (let (fd, s') = make_listen_socket env (listen_port getenv) s
      in (if fd < 0 then Inl 1 else Inr (fe_main_config getenv, fd), s'))"

section \<open>The programs over the mesh\<close>

text \<open>\<open>dpumesh_handler_init\<close>: the handler's state for a context, with no connection yet; the outcomes of
  later calls of \<open>calloc\<close> and \<open>pipe\<close> are given.\<close>

definition dpumesh_handler_init :: "dpumesh_ctx \<Rightarrow> bool list \<Rightarrow> (int \<times> int) option list \<Rightarrow> 'x mesh" where
  "dpumesh_handler_init cx mem fds =
     \<lparr>ms_ctx = cx, ms_conns = Map.empty, ms_next = 0, ms_ctxs = Map.empty, ms_next_ctx = 0, ms_mem = mem, ms_fds = fds\<rparr>"

definition worker_number :: "(string \<Rightarrow> string option) \<Rightarrow> int" where
  "worker_number getenv = (case getenv ''WORKER_ID'' of None \<Rightarrow> 0 | Some w \<Rightarrow> atoi w)"

definition mesh_leaf_main :: "string \<Rightarrow> string \<Rightarrow> (string \<Rightarrow> string option) \<Rightarrow> (string \<Rightarrow> file_env) \<Rightarrow> init_env \<Rightarrow> host
    \<Rightarrow> ((int + kv_store \<times> dpumesh_ctx) \<times> host) option" where
  "mesh_leaf_main default_file default_app getenv files ie m = do {
     (rc, store) \<leftarrow> kv_store_load \<lparr>entries = []\<rparr> (files (or_text default_file (getenv ''DATA_FILE'')));
     if rc \<noteq> 0 then Some (Inl 1, m)
     else let (cx, m') = dpumesh_init ie (or_text default_app (getenv ''APP'')) (worker_number getenv) m
       in Some (case cx of None \<Rightarrow> Inl 1 | Some cx \<Rightarrow> Inr (store, cx), m')
   }"

definition mesh_id_main :: "(string \<Rightarrow> string option) \<Rightarrow> (string \<Rightarrow> file_env) \<Rightarrow> init_env \<Rightarrow> host
    \<Rightarrow> ((int + kv_store \<times> dpumesh_ctx) \<times> host) option" where
  "mesh_id_main = mesh_leaf_main ''data/ids.json'' ''id-service''"

definition mesh_attend_main :: "(string \<Rightarrow> string option) \<Rightarrow> (string \<Rightarrow> file_env) \<Rightarrow> init_env \<Rightarrow> host
    \<Rightarrow> ((int + kv_store \<times> dpumesh_ctx) \<times> host) option" where
  "mesh_attend_main = mesh_leaf_main ''data/attendance.json'' ''attend-service''"

definition mesh_frontend_main :: "(string \<Rightarrow> string option) \<Rightarrow> init_env \<Rightarrow> host
    \<Rightarrow> (int + mesh_config \<times> dpumesh_ctx) \<times> host" where
  "mesh_frontend_main getenv ie m =
     (let (cx, m') = dpumesh_init ie (or_text ''frontend'' (getenv ''APP'')) (worker_number getenv) m
      in (case cx of None \<Rightarrow> Inl 1 | Some cx \<Rightarrow> Inr (mesh_main_config getenv, cx), m'))"

text \<open>The states of \<open>dpumesh_run\<close> from a context on: events of the notify pipe and of response pipes, with
  iterations of the poller thread and moves of the mesh in between.\<close>

inductive mesh_served :: "'x mesh_request_handler \<Rightarrow> 'x mesh_upstream_handler \<Rightarrow> dpumesh_ctx \<Rightarrow> 'x mesh \<Rightarrow> bool" for h g cx where
  ms_start: "mesh_served h g cx (dpumesh_handler_init cx mem fds)"
| ms_notify: "mesh_served h g cx st \<Longrightarrow> on_notify_cb h st = Some st' \<Longrightarrow> mesh_served h g cx st'"
| ms_response: "mesh_served h g cx st \<Longrightarrow> ms_conns st u = Some uc \<Longrightarrow> c_ev uc = Some On_Upstream_Response
    \<Longrightarrow> on_upstream_response_cb g (c_fd uc) u st = Some st' \<Longrightarrow> mesh_served h g cx st'"
| ms_poll: "mesh_served h g cx st \<Longrightarrow> dpumesh_poller_step (ms_ctx st) = Some cx' \<Longrightarrow> mesh_served h g cx (st\<lparr>ms_ctx := cx'\<rparr>)"
| ms_move: "mesh_served h g cx st \<Longrightarrow> mesh_change (ms_ctx st) cx' \<Longrightarrow> mesh_served h g cx (st\<lparr>ms_ctx := cx'\<rparr>)"

section \<open>Starting over TCP\<close>

lemma make_listen_socket_ok:
  assumes "0 \<le> le_socket env" and "le_bind env" and "le_listen env"
  shows "make_listen_socket env port s = (le_socket env, s(le_socket env \<mapsto> Listening (of_int port) 128))"
  using assms by (simp add: make_listen_socket_def Let_def)

lemma make_listen_socket_fails:
  assumes "make_listen_socket env port s = (fd, s')" and "fd < 0" and "s (le_socket env) = None"
  shows "s' = s \<and> fd = -1"
  using assms by (auto simp: make_listen_socket_def Let_def fun_upd_idem split: if_splits)

lemma load_doc_wf:
  assumes "\<forall>x \<in> set xs. item_ok x" and "CHR ''{'' \<notin> set pre" and "NUL \<notin> set pre"
  obtains store where "kv_store_load \<lparr>entries = []\<rparr> (readable (doc_text pre xs post)) = Some (0, store)"
    "kv_store_wf store" "entries store = take MAX_ENTRIES (map item_entry xs)"
proof -
  let ?s = "\<lparr>entries = take MAX_ENTRIES (map item_entry xs)\<rparr>"
  have l: "kv_store_load \<lparr>entries = []\<rparr> (readable (doc_text pre xs post)) = Some (0, ?s)"
    using kv_store_load_doc [OF assms, of "\<lparr>entries = []\<rparr>" post] by simp
  have "kv_store_wf \<lparr>entries = []\<rparr>" by (simp add: kv_store_wf_def)
  with load_keeps_wf [OF _ l] that [OF l] show ?thesis by simp
qed

text \<open>C4. The id service and the attend service over TCP, from \<open>main\<close> on: with a data file of the expected
  form and working socket calls the program enters its event loop on exactly the entries of the file
  (the first 256), listening on the configured port modulo 2^16, and from then on, whatever clients
  do, every state of the loop is safe.\<close>

theorem tcp_leaf_program:
  assumes "\<forall>x \<in> set xs. item_ok x" and "CHR ''{'' \<notin> set pre" and "NUL \<notin> set pre"
    and "files (or_text default_file (getenv ''DATA_FILE'')) = readable (doc_text pre xs post)"
    and "0 \<le> le_socket env" and "le_bind env" and "le_listen env"
  shows "\<exists>store s'. tcp_leaf_main default_file getenv files env s = Some (Inr (store, le_socket env), s')
    \<and> entries store = take MAX_ENTRIES (map item_entry xs)
    \<and> s' = s(le_socket env \<mapsto> Listening (of_int (listen_port getenv)) 128)
    \<and> (\<forall>g acc st. served (id_service store) g acc st \<longrightarrow> safe_state (id_service store) g acc (st :: 'x tcp))
    \<and> (\<forall>g acc st. served (attend_service store) g acc st \<longrightarrow> safe_state (attend_service store) g acc (st :: 'x tcp))"
proof -
  obtain store where l: "kv_store_load \<lparr>entries = []\<rparr> (readable (doc_text pre xs post)) = Some (0, store)"
      "kv_store_wf store" "entries store = take MAX_ENTRIES (map item_entry xs)"
    by (rule load_doc_wf [OF assms(1-3)])
  then have "tcp_leaf_main default_file getenv files env s
      = Some (Inr (store, le_socket env), s(le_socket env \<mapsto> Listening (of_int (listen_port getenv)) 128))"
    using assms(4,5) make_listen_socket_ok [OF assms(5-7)] by (simp add: tcp_leaf_main_def)
  with l(3) id_loop.loop_safe [OF l(2)] attend_loop.loop_safe [OF TrueI] show ?thesis by blast
qed

definition demo_listen :: listen_env where
  "demo_listen = \<lparr>le_socket = 3, le_bind = True, le_listen = True\<rparr>"

theorem tcp_leaf_program_witness:
  "\<exists>store. tcp_leaf_main ''data/ids.json'' (\<lambda>_. None) (\<lambda>_. readable (doc_text [] demo_items [])) demo_listen Map.empty
      = Some (Inr (store, 3), [3 \<mapsto> Listening 8080 128])
    \<and> entries store = [\<lparr>key = ''alice'', kv_value = 1\<rparr>, \<lparr>key = ''bob'', kv_value = 1\<rparr>]
    \<and> (\<forall>g acc (st :: unit tcp). served (id_service store) g acc st \<longrightarrow> safe_state (id_service store) g acc st)"
proof -
  have e: "take MAX_ENTRIES (map item_entry demo_items) = [\<lparr>key = ''alice'', kv_value = 1\<rparr>, \<lparr>key = ''bob'', kv_value = 1\<rparr>]"
    by (simp add: demo_items_def item_entry_def MAX_ENTRIES_def MAX_KEY_LEN_def)
  have "listen_port (\<lambda>_. None) = 8080" by (simp add: listen_port_def)
  then show ?thesis
    using tcp_leaf_program [OF demo_items_ok, of "[]" "\<lambda>_. readable (doc_text [] demo_items [])" "''data/ids.json''" "\<lambda>_. None" "[]"
        demo_listen Map.empty, where 'x = unit] e
    by (auto simp: demo_listen_def)
qed

text \<open>A program over TCP that does not enter its event loop returns 1 and leaves no socket behind.\<close>

theorem tcp_mains_exit:
  assumes "s (le_socket env) = None"
  shows "(\<forall>rc s'. tcp_leaf_main default_file getenv files env s = Some (Inl rc, s') \<longrightarrow> rc = 1 \<and> s' = s)
    \<and> (\<forall>rc s'. frontend_main getenv env s = (Inl rc, s') \<longrightarrow> rc = 1 \<and> s' = s)"
proof -
  obtain fd s1 where m: "make_listen_socket env (listen_port getenv) s = (fd, s1)" by (rule prod.exhaust)
  note f = make_listen_socket_fails [OF m _ assms]
  show ?thesis
    by (auto simp: tcp_leaf_main_def frontend_main_def m bind_eq_Some_conv dest: f split: if_splits)
qed

theorem tcp_mains_exit_witness:
  "frontend_main (\<lambda>_. None) (demo_listen\<lparr>le_bind := False\<rparr>) Map.empty = (Inl 1, Map.empty)"
proof -
  obtain rc s' where f: "frontend_main (\<lambda>_. None) (demo_listen\<lparr>le_bind := False\<rparr>) Map.empty = (Inl rc, s')"
    by (simp add: frontend_main_def make_listen_socket_def demo_listen_def Let_def)
  with tcp_mains_exit [where s = Map.empty and env = "demo_listen\<lparr>le_bind := False\<rparr>" and getenv = "\<lambda>_. None"] show ?thesis by simp
qed

section \<open>Running over the mesh\<close>

text \<open>Connections of a leaf service wait for nothing and own no descriptor.\<close>

definition detached :: "'x mesh \<Rightarrow> bool" where
  "detached st \<longleftrightarrow> (\<forall>a c. ms_conns st a = Some c \<longrightarrow> c_ev c = None \<and> c_fd c < 0)"

lemma conn_respond_reach:
  assumes "dpumesh_conn_respond a status body n st = Some st'" and "detached st"
  shows "detached st' \<and> worker_reach (ms_ctx st) (ms_ctx st')"
proof -
  obtain dc rc cx out where w: "ms_conns st a = Some dc"
      "dpumesh_write (ms_ctx st) (respond_msg (dpu_desc_index dc) status body n) False None = Some (rc, cx, out)"
      "dpu_conn_free a (st\<lparr>ms_ctx := cx\<rparr>) = Some st'"
    using assms(1) by (auto simp: dpumesh_conn_respond_def bind_eq_Some_conv)
  have "c_fd dc < 0" using assms(2) w(1) by (auto simp: detached_def)
  then have st': "st' = st\<lparr>ms_ctx := cx, ms_conns := (ms_conns st)(a := None)\<rparr>"
    using w(1,3) by (auto simp: dpu_conn_free_def)
  then have "worker_reach (ms_ctx st) (ms_ctx st')"
    using reach_step [OF reach_refl step_respond [OF _ w(2)]] by (simp add: respond_msg_def)
  with assms(2) show ?thesis by (simp add: st' detached_def)
qed

lemma bind_pair_SomeE: "Option.bind m (\<lambda>(a, b). f a b) = Some y \<Longrightarrow> (\<And>a b. f a b = Some y \<Longrightarrow> P) \<Longrightarrow> P"
  by (auto simp: bind_eq_Some_conv)

text \<open>The contract of a leaf service's handler: it makes one call to respond.\<close>

locale mesh_leaf_handlers =
  fixes h :: "kv_store \<Rightarrow> 'x mesh_request_handler" and good :: "kv_store \<Rightarrow> bool"
  assumes responds_once: "good store \<Longrightarrow> \<exists>status body n. h store a req st = dpumesh_conn_respond a status body n st"
begin

lemma on_request_reach:
  assumes "good store" and "detached st" and "on_request (h store) rq st = Some st'"
  shows "detached st' \<and> worker_reach (ms_ctx st) (ms_ctx st')"
proof -
  obtain ok st0 where m: "mesh_calloc st = (ok, st0)" by (rule prod.exhaust)
  have f: "ms_ctx st0 = ms_ctx st" "ms_conns st0 = ms_conns st" using m by (auto simp: mesh_calloc_def split: list.splits)
  show ?thesis
  proof (cases ok)
    case False
    then show ?thesis using assms(2,3) m f by (auto simp: on_request_def dpu_conn_alloc_def detached_def reach_refl)
  next
    case True
    let ?c = "blank_dpu_conn\<lparr>dpu_desc_index := rq_desc_index rq, c_rlen := length (request_text rq),
      c_rbuf := store_text (replicate BUF_SIZE NUL) (take (BUF_SIZE - Suc 0) (request_text rq))\<rparr>"
    let ?s = "put_dpu (ms_next st0) ?c ((put_dpu (ms_next st0) blank_dpu_conn st0)\<lparr>ms_next := Suc (ms_next st0)\<rparr>)"
    have d: "detached ?s" "ms_ctx ?s = ms_ctx st" using assms(2) f by (auto simp: detached_def put_dpu_def)
    have "do { (ret, req) \<leftarrow> http_parse_request (c_rbuf ?c) (c_rlen ?c); if ret = 0 then h store (ms_next st0) req ?s else Some ?s } = Some st'"
      using assms(3) True m by (simp add: on_request_def dpu_conn_alloc_def snprintf_def Let_def)
    then obtain ret req where "(if ret = (0 :: int) then h store (ms_next st0) req ?s else Some ?s) = Some st'"
      by (rule bind_pair_SomeE) (rule that)
    then have h: "h store (ms_next st0) req ?s = Some st' \<or> st' = ?s" by (auto split: if_splits)
    from h show ?thesis
    proof
      assume "h store (ms_next st0) req ?s = Some st'"
      then show ?thesis using responds_once [OF assms(1), of "ms_next st0" req ?s] conn_respond_reach [OF _ d(1)] d(2) by metis
    qed (use d in \<open>simp add: reach_refl\<close>)
  qed
qed

lemma notify_reach:
  assumes "good store" and "detached st" and "on_notify_cb (h store) st = Some st'"
  shows "detached st' \<and> worker_reach (ms_ctx st) (ms_ctx st')"
proof -
  obtain fuel n s cx where r: "dpumesh_read fuel (\<lambda>rq s c. map_option (\<lambda>s'. (s', ms_ctx s')) (on_request (h store) rq (s\<lparr>ms_ctx := c\<rparr>)))
      st (ms_ctx st) = Some (n, s, cx)" "st' = s\<lparr>ms_ctx := cx\<rparr>"
    using assms(3) by (auto simp: on_notify_cb_def Let_def bind_eq_Some_conv simp del: dpumesh_read.simps)
  have "detached s \<and> worker_reach (ms_ctx st) cx"
    using r(1) assms(2)
  proof (rule dpumesh_read_reach)
    fix rq and s s' :: "'x mesh" and c c'
    assume a: "detached s" "map_option (\<lambda>s'. (s', ms_ctx s')) (on_request (h store) rq (s\<lparr>ms_ctx := c\<rparr>)) = Some (s', c')"
    have "detached (s\<lparr>ms_ctx := c\<rparr>)" using a(1) by (simp add: detached_def)
    from on_request_reach [OF assms(1) this] a(2) show "detached s' \<and> worker_reach c c'" by force
  qed
  with r(2) show ?thesis by (simp add: detached_def)
qed

lemma mesh_served_reach:
  assumes "good store" and "mesh_served (h store) g cx st"
  shows "detached st \<and> worker_reach cx (ms_ctx st)"
  using assms(2)
proof induction
  case (ms_start mem fds)
  then show ?case by (simp add: dpumesh_handler_init_def detached_def reach_refl)
next
  case (ms_notify st st')
  then show ?case using notify_reach [OF assms(1)] worker_reach_trans by blast
next
  case (ms_response st u uc st')
  then show ?case by (auto simp: detached_def)
next
  case (ms_poll st cx')
  then show ?case using reach_step [OF _ step_poll] by (auto simp: detached_def)
next
  case (ms_move st cx')
  then show ?case using reach_step [OF _ step_mesh] by (auto simp: detached_def)
qed

end

interpretation mesh_id_loop: mesh_leaf_handlers mesh_id_service kv_store_wf
proof
  fix store a req and st :: "'x mesh"
  assume "kv_store_wf store"
  from id_responds [OF this, of mesh_respond a req st]
  show "\<exists>status body n. mesh_id_service store a req st = dpumesh_conn_respond a status body n st"
    unfolding mesh_id_service_def mesh_respond_def by metis
qed

interpretation mesh_attend_loop: mesh_leaf_handlers mesh_attend_service "\<lambda>_. True"
proof
  fix store a req and st :: "'x mesh"
  from attend_responds [of mesh_respond store a req st]
  show "\<exists>status body n. mesh_attend_service store a req st = dpumesh_conn_respond a status body n st"
    unfolding mesh_attend_service_def mesh_respond_def by metis
qed

text \<open>C12. The leaf services over the mesh, from \<open>main\<close> on: with a data file of the expected form and working
  calls of the initialisation the program enters its loop with exactly the entries of the file (the
  first 256), with no slot of the four pools in use, nothing queued in the two rings or in the notify
  pipe and no response awaited; and in every state of the loop, whatever requests arrive and however the
  poller and the mesh interleave with the callbacks, the pools, rings and tables are well formed, the
  library's texts fit their buffers (so that the next event of the notify pipe is served,
  \<open>notify_event_served\<close>), and the registered descriptors are open and pairwise different.\<close>

theorem mesh_leaf_program:
  assumes "\<forall>x \<in> set xs. item_ok x" and "CHR ''{'' \<notin> set pre" and "NUL \<notin> set pre"
    and "files (or_text default_file (getenv ''DATA_FILE'')) = readable (doc_text pre xs post)"
    and "init_calls_ok ie" and "0 \<le> fst (pod_registry_alloc_id (ie_counter ie) (h_files m))" and "host_wf m"
    and "ie_pipe ie = Some (r, w)" and "r \<noteq> w"
  shows "\<exists>store cx m'. mesh_leaf_main default_file default_app getenv files ie m = Some (Inr (store, cx), m')
    \<and> entries store = take MAX_ENTRIES (map item_entry xs) \<and> starts_empty cx \<and> tx_free cx
    \<and> (\<forall>g st. mesh_served (mesh_id_service store) g cx (st :: 'x mesh) \<longrightarrow> serving (ms_ctx st) \<and> fds_ok (ms_ctx st))
    \<and> (\<forall>g st. mesh_served (mesh_attend_service store) g cx (st :: 'x mesh) \<longrightarrow> serving (ms_ctx st) \<and> fds_ok (ms_ctx st))"
proof -
  obtain store where l: "kv_store_load \<lparr>entries = []\<rparr> (readable (doc_text pre xs post)) = Some (0, store)"
      "kv_store_wf store" "entries store = take MAX_ENTRIES (map item_entry xs)"
    by (rule load_doc_wf [OF assms(1-3)])
  obtain cx m' where c: "dpumesh_init ie (or_text default_app (getenv ''APP'')) (worker_number getenv) m = (Some cx, m')"
    using dpumesh_init_ex [OF assms(5,6)] by blast
  have "mesh_leaf_main default_file default_app getenv files ie m = Some (Inr (store, cx), m')"
    using l(1) c assms(4) by (simp add: mesh_leaf_main_def)
  moreover note i = dpumesh_init_ok [OF c assms(7-9)]
  ultimately show ?thesis
    using l(3) mesh_id_loop.mesh_served_reach [OF l(2)] mesh_attend_loop.mesh_served_reach [OF TrueI] worker_reach_keeps worker_reach_serving by blast
qed

theorem mesh_leaf_program_witness:
  "\<exists>store cx m'. mesh_leaf_main ''data/ids.json'' ''id-service'' (\<lambda>_. None) (\<lambda>_. readable (doc_text [] demo_items [])) demo_env demo_host
      = Some (Inr (store, cx), m')
    \<and> entries store = take MAX_ENTRIES (map item_entry demo_items) \<and> starts_empty cx \<and> tx_free cx
    \<and> (\<forall>g (st :: unit mesh). mesh_served (mesh_id_service store) g cx st \<longrightarrow> serving (ms_ctx st) \<and> fds_ok (ms_ctx st))"
proof -
  have "init_calls_ok demo_env" by (simp add: init_calls_ok_def demo_env_def files_ok_def)
  moreover have "0 \<le> fst (pod_registry_alloc_id (ie_counter demo_env) (h_files demo_host))"
    by (simp add: pod_registry_alloc_id_def demo_env_def demo_host_def files_ok_def)
  moreover have "host_wf demo_host" by (simp add: host_wf_def demo_host_def)
  moreover have "ie_pipe demo_env = Some (4, 5)" by (simp add: demo_env_def)
  ultimately show ?thesis
    using mesh_leaf_program [OF demo_items_ok, of "[]" "\<lambda>_. readable (doc_text [] demo_items [])" "''data/ids.json''" "\<lambda>_. None" "[]"
        demo_env demo_host 4 5 "''id-service''", where 'x = unit] by fastforce
qed

end
