(* ===== verification/Frontend_Loop.thy ===== *)
theory Frontend_Loop
  imports Lookup Programs
begin

text \<open>
  The event loop of the frontend over TCP. Its callbacks share memory: an upstream connection points to
  the connection of the client that waits for it and to the context of the lookup. As long as waiting
  clients neither send nor close (what happens when they do is shown in \<open>Tcp_Handler\<close>), every state of
  the loop keeps these pointers alive, whatever the upstream services answer, in whatever pieces, and
  whichever system calls fail.
\<close>

section \<open>The response parser stays inside its buffer\<close>

lemma http_parse_response_total:
  assumes "n < length buf" and "buf ! n = NUL"
  shows "\<exists>ret resp. http_parse_response buf n = Some (ret, resp) \<and> ret \<in> {-1, 0, 1} \<and> in_i32 (resp_status_code resp)
    \<and> resp_body_len resp < BODY_SIZE"
proof -
  have nul: "NUL \<in> set (drop k buf)" if "k \<le> n" for k
  proof -
    have "drop k buf ! (n - k) = NUL" "n - k < length (drop k buf)" using assms that by simp_all
    then show ?thesis by (metis nth_mem)
  qed
  have z: "in_i32 0" "0 < BODY_SIZE" by (simp_all add: in_i32_def BODY_SIZE_def)
  obtain r where r: "find_header_end buf n = Some r"
    using find_header_end_Some [of n buf 0] assms(1) by (auto simp: find_header_end_def)
  show ?thesis
  proof (cases r)
    case None
    with r z show ?thesis by (simp add: http_parse_response_def http_response_zero_def)
  next
    case (Some hlen)
    with r have hlen: "hlen \<le> n" using find_header_end_le [of 0 buf n hlen] by (simp add: find_header_end_def)
    show ?thesis
    proof (cases "n < 12")
      case True
      with r Some z show ?thesis by (simp add: http_parse_response_def http_response_zero_def)
    next
      case False
      obtain cl where cl: "parse_content_length buf hlen = Some cl"
        using content_length_Some [OF nul [OF hlen], of True] by (auto simp: parse_content_length_def)
      obtain s where s: "str_arg (drop 9 buf) = Some s" using nul [of 9] False by (simp add: str_arg_def)
      have b: "\<exists>b. copy_body buf hlen cl = Some b \<and> length b < BODY_SIZE" if "cl \<le> n - hlen"
        using that hlen assms(1) by (auto simp: copy_body_def Let_def BODY_SIZE_def)
      have "in_i32 (atoi s)" by (simp add: atoi_def)
      then show ?thesis
        using r Some False cl s b z
        by (cases "n - hlen < cl") (auto simp: http_parse_response_def http_response_zero_def Let_def)
    qed
  qed
qed

section \<open>The heap of the frontend\<close>

text \<open>The invariant of an upstream connection, and of the heap: the connection of a client has no pointers;
  an upstream connection points to a live connection of a client that is registered for reading and to
  a live context, and no other upstream connection points to these.\<close>

definition up_ok :: "conn \<Rightarrow> bool" where
  "up_ok c \<longleftrightarrow> 0 \<le> c_fd c \<and> length (c_rbuf c) = BUF_SIZE \<and> c_rlen c < BUF_SIZE \<and> length (c_wbuf c) = BUF_SIZE
     \<and> c_wpos c \<le> c_wlen c \<and> c_wlen c < BUF_SIZE \<and> c_ev c \<in> {Some On_Upstream_Connect, Some On_Upstream_Write, Some On_Upstream_Read}"

definition waited :: "(nat \<Rightarrow> conn option) \<Rightarrow> nat \<Rightarrow> bool" where
  "waited h a \<longleftrightarrow> (\<exists>u uc. h u = Some uc \<and> c_client_conn uc = Some a)"

definition held :: "(nat \<Rightarrow> conn option) \<Rightarrow> nat \<Rightarrow> bool" where
  "held h x \<longleftrightarrow> (\<exists>u uc. h u = Some uc \<and> c_handler_ctx uc = Some x)"

definition fe_conn :: "(nat \<Rightarrow> conn option) \<Rightarrow> (nat \<Rightarrow> frontend_ctx option) \<Rightarrow> conn \<Rightarrow> bool" where
  "fe_conn h cs c \<longleftrightarrow> (case c_client_conn c of
     None \<Rightarrow> conn_ok c \<and> c_handler_ctx c = None
   | Some a \<Rightarrow> up_ok c \<and> (\<exists>cc. h a = Some cc \<and> c_client_conn cc = None \<and> c_ev cc = Some On_Client_Read)
       \<and> (\<exists>x v. c_handler_ctx c = Some x \<and> cs x = Some v))"

definition ctx_fits :: "frontend_ctx \<Rightarrow> bool" where
  "ctx_fits v \<longleftrightarrow> length (fx_name v) < 64 \<and> in_i32 (fx_id v)"

definition unshared :: "(nat \<Rightarrow> conn option) \<Rightarrow> (conn \<Rightarrow> 'v option) \<Rightarrow> bool" where
  "unshared h f \<longleftrightarrow> (\<forall>u v uc vc y. h u = Some uc \<longrightarrow> h v = Some vc \<longrightarrow> f uc = Some y \<longrightarrow> f vc = Some y \<longrightarrow> u = v)"

definition fe_heap :: "(nat \<Rightarrow> conn option) \<Rightarrow> nat \<Rightarrow> (nat \<Rightarrow> frontend_ctx option) \<Rightarrow> nat \<Rightarrow> bool" where
  "fe_heap h n cs m \<longleftrightarrow> (\<forall>a c. h a = Some c \<longrightarrow> a < n \<and> fe_conn h cs c) \<and> unshared h (\<lambda>c. Some (c_fd c))
     \<and> unshared h c_client_conn \<and> unshared h c_handler_ctx \<and> (\<forall>x v. cs x = Some v \<longrightarrow> x < m \<and> ctx_fits v)"

lemma unshared_put: "h a = Some c \<Longrightarrow> unshared h f \<Longrightarrow> f c' = f c \<Longrightarrow> unshared (h(a \<mapsto> c')) f"
  unfolding unshared_def by (metis fun_upd_apply option.inject)

lemma unshared_free: "unshared h f \<Longrightarrow> unshared (h(a := None)) f"
  unfolding unshared_def by (metis fun_upd_apply option.distinct(1))

lemma unshared_new:
  assumes "unshared h f" and "\<And>u uc y. h u = Some uc \<Longrightarrow> f uc = Some y \<Longrightarrow> f c \<noteq> Some y"
  shows "unshared (h(n \<mapsto> c)) f"
  using assms unfolding unshared_def by (metis fun_upd_apply option.inject)

lemma fe_conn_heap:
  assumes "fe_conn h cs c" and "\<And>a cc. c_client_conn c = Some a \<Longrightarrow> h a = Some cc \<Longrightarrow> c_client_conn cc = None \<Longrightarrow> c_ev cc = Some On_Client_Read
    \<Longrightarrow> \<exists>cc'. h' a = Some cc' \<and> c_client_conn cc' = None \<and> c_ev cc' = Some On_Client_Read"
    and "\<And>x v. c_handler_ctx c = Some x \<Longrightarrow> cs x = Some v \<Longrightarrow> cs' x \<noteq> None"
  shows "fe_conn h' cs' c"
  using assms unfolding fe_conn_def by (auto split: option.splits)

lemma fe_heapD: "fe_heap h n cs m \<Longrightarrow> h a = Some c \<Longrightarrow> a < n \<and> fe_conn h cs c"
  by (simp add: fe_heap_def)

lemma fe_conn_client: "fe_conn h cs c \<Longrightarrow> c_client_conn c = None \<Longrightarrow> conn_ok c \<and> c_handler_ctx c = None"
  by (simp add: fe_conn_def)

lemma fe_conn_up:
  assumes "fe_conn h cs c" and "c_client_conn c = Some a"
  obtains cc x v where "up_ok c" "h a = Some cc" "c_client_conn cc = None" "c_ev cc = Some On_Client_Read" "c_handler_ctx c = Some x" "cs x = Some v"
  using assms by (auto simp: fe_conn_def)

lemma heap_put_client:
  assumes "fe_heap h n cs m" and "h a = Some c" and "c_client_conn c = None" and "\<not> waited h a"
    and "conn_ok c'" and "c_fd c' = c_fd c" and "c_client_conn c' = None" and "c_handler_ctx c' = None"
  shows "fe_heap (h(a \<mapsto> c')) n cs m"
proof -
  have k: "c_handler_ctx c = None" using fe_conn_client assms(3) fe_heapD [OF assms(1,2)] by blast
  have "b < n \<and> fe_conn (h(a \<mapsto> c')) cs d" if d: "(h(a \<mapsto> c')) b = Some d" for b d
  proof (cases "b = a")
    case True
    then show ?thesis using that assms(1,2,5,7,8) by (auto simp: fe_heap_def fe_conn_def)
  next
    case False
    then have hb: "h b = Some d" using d by simp
    then have "fe_conn h cs d" "b < n" using assms(1) by (simp_all add: fe_heap_def)
    moreover have "fe_conn (h(a \<mapsto> c')) cs d"
      by (rule fe_conn_heap [OF \<open>fe_conn h cs d\<close>]) (use hb assms(4) in \<open>auto simp: waited_def\<close>)
    ultimately show ?thesis by simp
  qed
  moreover have "unshared (h(a \<mapsto> c')) (\<lambda>c. Some (c_fd c))" "unshared (h(a \<mapsto> c')) c_client_conn" "unshared (h(a \<mapsto> c')) c_handler_ctx"
    using assms(1,3,6-8) k by (auto intro!: unshared_put [where h = h, OF assms(2)] simp: fe_heap_def)
  ultimately show ?thesis using assms(1) by (simp add: fe_heap_def)
qed

lemma heap_put_up:
  assumes "fe_heap h n cs m" and "h u = Some uc" and "c_client_conn uc = Some a" and "up_ok uc'" and "c_fd uc' = c_fd uc"
    and "c_client_conn uc' = c_client_conn uc" and "c_handler_ctx uc' = c_handler_ctx uc"
  shows "fe_heap (h(u \<mapsto> uc')) n cs m"
proof -
  have "b < n \<and> fe_conn (h(u \<mapsto> uc')) cs d" if d: "(h(u \<mapsto> uc')) b = Some d" for b d
  proof (cases "b = u")
    case True
    then have "d = uc'" using d by simp
    moreover have "fe_conn h cs uc'" "b < n"
      using fe_heapD [OF assms(1,2)] assms(3,4,6,7) True by (auto simp: fe_conn_def)
    moreover have "fe_conn (h(u \<mapsto> uc')) cs uc'"
      by (rule fe_conn_heap [OF \<open>fe_conn h cs uc'\<close>]) (use assms(2,3) in auto)
    ultimately show ?thesis by simp
  next
    case False
    then have "fe_conn h cs d" "b < n" using d assms(1) by (simp_all add: fe_heap_def)
    moreover have "fe_conn (h(u \<mapsto> uc')) cs d" by (rule fe_conn_heap [OF \<open>fe_conn h cs d\<close>]) (use assms(2,3) in auto)
    ultimately show ?thesis by simp
  qed
  moreover have "unshared (h(u \<mapsto> uc')) (\<lambda>c. Some (c_fd c))" "unshared (h(u \<mapsto> uc')) c_client_conn" "unshared (h(u \<mapsto> uc')) c_handler_ctx"
    using assms(1,5-7) by (auto intro!: unshared_put [where h = h, OF assms(2)] simp: fe_heap_def)
  ultimately show ?thesis using assms(1) by (simp add: fe_heap_def)
qed

lemma heap_free:
  assumes "fe_heap h n cs m" and "\<not> waited h u"
  shows "fe_heap (h(u := None)) n cs m"
proof -
  have "b < n \<and> fe_conn (h(u := None)) cs d" if d: "(h(u := None)) b = Some d" for b d
  proof -
    have hb: "h b = Some d" using d by (auto split: if_splits)
    then have "fe_conn h cs d" "b < n" using assms(1) by (simp_all add: fe_heap_def)
    moreover have "fe_conn (h(u := None)) cs d"
      by (rule fe_conn_heap [OF \<open>fe_conn h cs d\<close>]) (use hb assms(2) in \<open>auto simp: waited_def\<close>)
    ultimately show ?thesis by simp
  qed
  then show ?thesis using assms(1) by (simp add: fe_heap_def unshared_free)
qed

lemma heap_new:
  assumes "fe_heap h n cs m" and "fe_conn (h(n \<mapsto> c)) cs c" and "\<And>b d. h b = Some d \<Longrightarrow> c_fd d \<noteq> c_fd c"
    and "\<And>a. c_client_conn c = Some a \<Longrightarrow> \<not> waited h a" and "\<And>x. c_handler_ctx c = Some x \<Longrightarrow> \<not> held h x"
  shows "fe_heap (h(n \<mapsto> c)) (Suc n) cs m"
proof -
  have n: "h n = None" using assms(1) by (cases "h n") (auto simp: fe_heap_def)
  have "b < Suc n \<and> fe_conn (h(n \<mapsto> c)) cs d" if d: "(h(n \<mapsto> c)) b = Some d" for b d
  proof (cases "b = n")
    case False
    then have "fe_conn h cs d" "b < n" using d assms(1) by (simp_all add: fe_heap_def)
    moreover have "fe_conn (h(n \<mapsto> c)) cs d" by (rule fe_conn_heap [OF \<open>fe_conn h cs d\<close>]) (use n in auto)
    ultimately show ?thesis by simp
  qed (use d assms(2) in auto)
  moreover have "unshared (h(n \<mapsto> c)) (\<lambda>c. Some (c_fd c))" "unshared (h(n \<mapsto> c)) c_client_conn" "unshared (h(n \<mapsto> c)) c_handler_ctx"
    using assms(1,3-5) by (intro unshared_new; force simp: fe_heap_def waited_def held_def)+
  ultimately show ?thesis using assms(1) by (simp add: fe_heap_def)
qed

lemma heap_ctx_put:
  assumes "fe_heap h n cs m" and "ctx_fits v" and "x < m'" and "m \<le> m'"
  shows "fe_heap h n (cs(x \<mapsto> v)) m'"
proof -
  have "fe_conn h (cs(x \<mapsto> v)) c" if "fe_conn h cs c" for c by (rule fe_conn_heap [OF that]) auto
  moreover have "y < m' \<and> ctx_fits w" if "(cs(x \<mapsto> v)) y = Some w" for y w
  proof (cases "y = x")
    case False
    then have "y < m \<and> ctx_fits w" using that assms(1) by (simp add: fe_heap_def)
    then show ?thesis using assms(4) by simp
  qed (use assms(2,3) that in auto)
  ultimately show ?thesis using assms(1) by (auto simp: fe_heap_def)
qed

lemma heap_ctx_free:
  assumes "fe_heap h n cs m" and "\<not> held h x"
  shows "fe_heap h n (cs(x := None)) m"
proof -
  have "fe_conn h (cs(x := None)) c" if "fe_conn h cs c" "h a = Some c" for a c
    by (rule fe_conn_heap [OF that(1)]) (use assms(2) that(2) in \<open>auto simp: held_def\<close>)
  then show ?thesis using assms(1) unfolding fe_heap_def by (metis fun_upd_apply option.distinct(1))
qed

lemma heap_mono: "fe_heap h n cs m \<Longrightarrow> n \<le> n' \<Longrightarrow> fe_heap h n' cs m"
  unfolding fe_heap_def by (meson less_le_trans)

section \<open>What the handlers do\<close>

text \<open>The outcome of the next call of \<open>connect\<close>: none is needed, it fails, or it gives a new descriptor. The
  sockets handed out between two states.\<close>

definition net_ok :: "'x tcp \<Rightarrow> bool" where
  "net_ok st \<longleftrightarrow> (case t_net st of [] \<Rightarrow> True | [Unresolved] \<Rightarrow> True | [No_Socket] \<Rightarrow> True
     | [Refused fd] \<Rightarrow> 0 \<le> fd \<and> \<not> owned st fd | [Connecting fd] \<Rightarrow> 0 \<le> fd \<and> \<not> owned st fd | _ \<Rightarrow> False)"

definition handed :: "'x tcp \<Rightarrow> 'x tcp \<Rightarrow> int list" where
  "handed st st' = (case t_net st of [Refused fd] \<Rightarrow> (if t_net st' = [] then [fd] else [])
     | [Connecting fd] \<Rightarrow> (if t_net st' = [] then [fd] else []) | _ \<Rightarrow> [])"

definition responded :: "conn \<Rightarrow> conn \<Rightarrow> bool" where
  "responded c c' \<longleftrightarrow> answers_in c c' \<and> c_client_conn c' = c_client_conn c \<and> c_handler_ctx c' = c_handler_ctx c"

lemma start_response_exact:
  assumes "t_conns st a = Some c" and "length (c_wbuf c) = BUF_SIZE" and "in_i32 status" and "n \<le> 7168"
  shows "\<exists>c'. conn_start_response a status body n st = Some (put_conn a c' st) \<and> responded c c'"
proof -
  obtain t m where tm: "http_format_response BUF_SIZE status body n = (t, m)" by (rule prod.exhaust)
  from http_format_response_length [OF assms(3,4) tm [unfolded BUF_SIZE_def]]
  have "m < BUF_SIZE" "length t = m" by (simp_all add: BUF_SIZE_def)
  then show ?thesis
    using assms(1,2)
    by (intro exI [of _ "c\<lparr>c_wbuf := store_text (c_wbuf c) t, c_wlen := m, c_wpos := 0, c_ev := Some On_Client_Write\<rparr>"])
      (simp add: conn_start_response_def tm responded_def answers_in_def length_store_text)
qed

lemma respond_exact_tcp:
  assumes "t_conns st a = Some c" and "length (c_wbuf c) = BUF_SIZE" and "in_i32 status" and "n \<le> 7168"
  shows "\<exists>c'. tcp_respond a status body n st = Some (put_conn a c' st) \<and> responded c c'"
  unfolding tcp_respond_def by (rule start_response_exact [OF assms])

lemma in_i32_small: "0 \<le> i \<Longrightarrow> i < 1000 \<Longrightarrow> in_i32 i"
  by (simp add: in_i32_def)

lemma start_upstream_effect:
  assumes "t_conns st a = Some c" and "net_ok st" and "length host < 256" and "length path < 256"
  obtains (refused) st' where "conn_start_upstream a host port ''GET'' path x st = Some (-1, st')" "t_conns st' = t_conns st"
      "t_next st' = t_next st" "t_ctxs st' = t_ctxs st" "t_next_ctx st' = t_next_ctx st" "t_closed st' = handed st st' @ t_closed st"
      "t_sent st' = t_sent st"
  | (started) st' uc where "conn_start_upstream a host port ''GET'' path x st = Some (0, st')"
      "t_conns st' = (t_conns st)(t_next st \<mapsto> uc)" "t_next st' = Suc (t_next st)" "t_ctxs st' = t_ctxs st" "t_next_ctx st' = t_next_ctx st"
      "t_closed st' = t_closed st" "handed st st' = [c_fd uc]" "up_ok uc" "c_client_conn uc = Some a" "c_handler_ctx uc = Some x"
      "\<not> owned st (c_fd uc)"
proof -
  consider "t_net st = []" | "t_net st = [Unresolved]" | "t_net st = [No_Socket]" | fd where "t_net st = [Refused fd]"
    | fd where "t_net st = [Connecting fd]" "0 \<le> fd" "\<not> owned st fd"
    using assms(2) by (auto simp: net_ok_def split: list.splits net_result.splits)
  then show ?thesis
  proof cases
    case 1
    then show ?thesis using refused [of st] by (simp add: conn_start_upstream_def handed_def)
  next
    case 2
    then show ?thesis using refused [of "st\<lparr>t_net := []\<rparr>"] by (simp add: conn_start_upstream_def handed_def)
  next
    case 3
    then show ?thesis using refused [of "st\<lparr>t_net := []\<rparr>"] by (simp add: conn_start_upstream_def handed_def)
  next
    case (4 fd)
    let ?s = "st\<lparr>t_net := [], t_dialed := t_dialed st @ [(fd, host, port_text port)], t_closed := fd # t_closed st\<rparr>"
    show ?thesis using refused [of ?s] 4 by (simp add: conn_start_upstream_def handed_def)
  next
    case (5 fd)
    obtain ok st1 where m: "calloc_ok (st\<lparr>t_net := [], t_dialed := t_dialed st @ [(fd, host, port_text port)]\<rparr>) = (ok, st1)"
      by (rule prod.exhaust)
    have f: "t_conns st1 = t_conns st" "t_next st1 = t_next st" "t_closed st1 = t_closed st" "t_ctxs st1 = t_ctxs st"
        "t_next_ctx st1 = t_next_ctx st" "t_net st1 = []" "t_sent st1 = t_sent st"
      using m by (auto simp: calloc_ok_def split: list.splits)
    let ?t = "upstream_text ''GET'' path host"
    have l: "length ?t < BUF_SIZE" using assms(3,4) by (simp add: upstream_text_def BUF_SIZE_def)
    then have s: "snprintf BUF_SIZE ?t = (?t, length ?t)" by (simp add: snprintf_def)
    show ?thesis
    proof (cases ok)
      case False
      let ?s = "st1\<lparr>t_closed := fd # t_closed st1\<rparr>"
      have "conn_start_upstream a host port ''GET'' path x st = Some (-1, ?s)"
        using 5(1) assms(1) m False by (simp add: conn_start_upstream_def conn_alloc_def)
      then show ?thesis using f 5(1) by (intro refused [of ?s]) (simp_all add: handed_def)
    next
      case True
      let ?uc = "(blank_conn fd)\<lparr>c_client_conn := Some a, c_handler_ctx := Some x,
        c_wbuf := store_text (replicate BUF_SIZE NUL) ?t, c_wlen := length ?t, c_wpos := 0, c_ev := Some On_Upstream_Connect\<rparr>"
      let ?s = "st1\<lparr>t_conns := (t_conns st1)(t_next st1 \<mapsto> ?uc), t_next := Suc (t_next st1)\<rparr>"
      have "conn_start_upstream a host port ''GET'' path x st = Some (0, ?s)"
        unfolding conn_start_upstream_def s using 5(1) assms(1) m True by (simp add: conn_alloc_def put_conn_def)
      moreover have "up_ok ?uc" using 5(2) l by (simp add: up_ok_def blank_conn_def length_store_text BUF_SIZE_def)
      ultimately show ?thesis
        using f 5 by (intro started [of ?s ?uc]) (simp_all add: handed_def, simp_all add: blank_conn_def)
    qed
  qed
qed

text \<open>The effects of a handler on the heap: a response is set up on the client's connection, or an upstream
  connection for the client is started.\<close>

definition sets_answer :: "'x tcp \<Rightarrow> 'x tcp \<Rightarrow> nat \<Rightarrow> conn \<Rightarrow> bool" where
  "sets_answer st st' a c \<longleftrightarrow> (\<exists>c'. responded c c' \<and> t_conns st' = (t_conns st)(a \<mapsto> c')) \<and> t_next st' = t_next st
     \<and> t_closed st' = handed st st' @ t_closed st"

definition asks_for :: "'x tcp \<Rightarrow> 'x tcp \<Rightarrow> nat \<Rightarrow> nat \<Rightarrow> bool" where
  "asks_for st st' a x \<longleftrightarrow> (\<exists>uc. t_conns st' = (t_conns st)(t_next st \<mapsto> uc) \<and> up_ok uc \<and> c_client_conn uc = Some a
     \<and> c_handler_ctx uc = Some x \<and> handed st st' = [c_fd uc] \<and> \<not> owned st (c_fd uc))
     \<and> t_next st' = Suc (t_next st) \<and> t_closed st' = t_closed st"

definition hosts_ok :: "fe_config \<Rightarrow> bool" where
  "hosts_ok cfg \<longleftrightarrow> length (id_host cfg) < 256 \<and> length (attend_host cfg) < 256"

lemma length_snprintf_256: "length (fst (snprintf 256 s)) < 256"
  by (simp add: snprintf_def)

lemma handed_cong: "t_net s1 = t_net s2 \<Longrightarrow> handed st s1 = handed st s2" "t_net s1 = t_net s2 \<Longrightarrow> handed s1 st = handed s2 st"
  unfolding handed_def by (simp_all split: list.splits net_result.splits option.splits)

lemma respond_sets_answer:
  assumes "t_conns st a = Some c" and "length (c_wbuf c) = BUF_SIZE" and "in_i32 status" and "n \<le> 7168"
    and "t_conns st = t_conns st0" and "t_next st = t_next st0" and "t_closed st = handed st0 st @ t_closed st0"
  obtains st' where "tcp_respond a status body n st = Some st'" "sets_answer st0 st' a c" "t_ctxs st' = t_ctxs st"
    "t_next_ctx st' = t_next_ctx st"
proof -
  obtain c' where c: "tcp_respond a status body n st = Some (put_conn a c' st)" "responded c c'"
    using respond_exact_tcp [OF assms(1-4)] by blast
  have "handed st0 (put_conn a c' st) = handed st0 st" by (rule handed_cong) (simp add: put_conn_def)
  then have "sets_answer st0 (put_conn a c' st) a c"
    unfolding sets_answer_def using c(2) assms(5-7) by (auto simp: put_conn_def)
  with that c(1) show ?thesis by (simp add: put_conn_def)
qed

lemma tcp_ctx_calloc_cases:
  obtains (null) st' where "tcp_ctx_calloc v st = (None, st')" "t_conns st' = t_conns st" "t_next st' = t_next st" "t_ctxs st' = t_ctxs st"
      "t_next_ctx st' = t_next_ctx st" "t_closed st' = t_closed st" "t_net st' = t_net st"
  | (new) st' where "tcp_ctx_calloc v st = (Some (t_next_ctx st), st')" "t_conns st' = t_conns st" "t_next st' = t_next st"
      "t_ctxs st' = (t_ctxs st)(t_next_ctx st \<mapsto> v)" "t_next_ctx st' = Suc (t_next_ctx st)" "t_closed st' = t_closed st" "t_net st' = t_net st"
proof -
  obtain ok st1 where m: "calloc_ok st = (ok, st1)" by (rule prod.exhaust)
  have f: "t_conns st1 = t_conns st" "t_next st1 = t_next st" "t_closed st1 = t_closed st" "t_ctxs st1 = t_ctxs st"
      "t_next_ctx st1 = t_next_ctx st" "t_net st1 = t_net st"
    using m by (auto simp: calloc_ok_def split: list.splits)
  show ?thesis
  proof (cases ok)
    case False
    with m f null [of st1] show ?thesis by (simp add: tcp_ctx_calloc_def)
  next
    case True
    with m f new show ?thesis by (simp add: tcp_ctx_calloc_def)
  qed
qed

lemma handed_refl: "net_ok st \<Longrightarrow> t_net st' = t_net st \<Longrightarrow> handed st st' = []"
  by (simp add: handed_def split: list.splits net_result.splits option.splits)

lemma tcp_fe_simps:
  "fo_respond (tcp_fe_ops cfg) = tcp_respond" "fo_calloc (tcp_fe_ops cfg) = tcp_ctx_calloc" "fo_get (tcp_fe_ops cfg) x st = t_ctxs st x"
  "fo_put (tcp_fe_ops cfg) x v st = st\<lparr>t_ctxs := (t_ctxs st)(x \<mapsto> v)\<rparr>"
  "fo_free (tcp_fe_ops cfg) x st = (if t_ctxs st x = None then None else Some (st\<lparr>t_ctxs := (t_ctxs st)(x := None)\<rparr>))"
  "fo_upstream (tcp_fe_ops cfg) u st = map_option (\<lambda>uc. (c_client_conn uc, c_handler_ctx uc)) (t_conns st u)"
  "fo_ask_id (tcp_fe_ops cfg) client name x
    = conn_start_upstream client (id_host cfg) (id_port cfg) ''GET'' (fst (snprintf 256 (''/id?name='' @ name))) x"
  "fo_ask_attend (tcp_fe_ops cfg) client i x
    = conn_start_upstream client (attend_host cfg) (attend_port cfg) ''GET'' (fst (snprintf 256 (''/attend?id='' @ show_int i))) x"
  by (simp_all add: tcp_fe_ops_def fun_eq_iff)

text \<open>The request handler.\<close>

lemma frontend_effect:
  assumes "t_conns st a = Some c" and "length (c_wbuf c) = BUF_SIZE" and "net_ok st" and "hosts_ok cfg" and "t_ctxs st (t_next_ctx st) = None"
  obtains (answers) st' where "frontend cfg a req st = Some st'" "sets_answer st st' a c" "t_ctxs st' = t_ctxs st" "t_next_ctx st \<le> t_next_ctx st'"
  | (asks) st' v where "frontend cfg a req st = Some st'" "asks_for st st' a (t_next_ctx st)" "t_ctxs st' = (t_ctxs st)(t_next_ctx st \<mapsto> v)"
      "ctx_fits v" "t_next_ctx st' = Suc (t_next_ctx st)"
proof -
  have r: thesis if q: "frontend cfg a req st = tcp_respond a status body n st" "in_i32 status" "n \<le> 7168" for status body n
  proof -
    obtain st' where "tcp_respond a status body n st = Some st'" "sets_answer st st' a c" "t_ctxs st' = t_ctxs st" "t_next_ctx st' = t_next_ctx st"
      by (rule respond_sets_answer [OF assms(1,2) q(2,3) refl refl]) (simp add: handed_refl assms(3))
    with q(1) show thesis by (intro answers [of st']) simp_all
  qed
  show ?thesis
  proof (cases "is_get req ''/lookup''")
    case False
    then show ?thesis by (intro r [of 404 "error_text ''not found''" 20]) (simp_all add: frontend_def frontend_handle_request_def tcp_fe_ops_def in_i32_def)
  next
    case get: True
    show ?thesis
    proof (cases "query_get (Some (cstring (req_query req))) (Some ''name'') 64")
      case None
      with get show ?thesis by (intro r [of 400 "error_text ''missing name''" 23]) (simp_all add: frontend_def frontend_handle_request_def tcp_fe_ops_def in_i32_def)
    next
      case (Some name)
      let ?v = "\<lparr>fx_stage = STAGE_WAITING_ID, fx_name = fst (snprintf 64 name), fx_id = 0\<rparr>" and ?x = "t_next_ctx st"
      let ?path = "fst (snprintf 256 (''/id?name='' @ name))"
      have fe: "frontend cfg a req st = (case tcp_ctx_calloc ?v st of
          (None, s1) \<Rightarrow> tcp_respond a 500 (error_text ''alloc failed'') 23 s1
        | (Some x, s1) \<Rightarrow> do {
            (rc, s2) \<leftarrow> conn_start_upstream a (id_host cfg) (id_port cfg) ''GET'' ?path x s1;
            if rc < 0 then do {
              s3 \<leftarrow> (if t_ctxs s2 x = None then None else Some (s2\<lparr>t_ctxs := (t_ctxs s2)(x := None)\<rparr>));
              tcp_respond a 502 (error_text ''upstream failed'') 26 s3
            } else Some s2 })"
        unfolding frontend_def frontend_handle_request_def tcp_fe_simps using get Some by simp
      show ?thesis
      proof (cases rule: tcp_ctx_calloc_cases [of ?v st])
        case (null s1)
        have i: "in_i32 500" "(23 :: nat) \<le> 7168" by (simp_all add: in_i32_def)
        have c1: "t_conns s1 a = Some c" "t_closed s1 = handed st s1 @ t_closed st"
          using assms(1,3) null by (simp_all add: handed_refl)
        obtain st' where "tcp_respond a 500 (error_text ''alloc failed'') 23 s1 = Some st'" "sets_answer st st' a c" "t_ctxs st' = t_ctxs s1"
            "t_next_ctx st' = t_next_ctx s1"
          by (rule respond_sets_answer [OF c1(1) assms(2) i null(2,3) c1(2)])
        with null show ?thesis by (intro answers [of st']) (simp_all add: fe)
      next
        case (new s1)
        have ow: "owned s1 = owned st" using new(2) by (simp add: owned_def fun_eq_iff)
        have c1: "t_conns s1 a = Some c" "net_ok s1" using assms(1,3) new(2) unfolding net_ok_def new(7) ow by simp_all
        have hd: "handed s1 s2 = handed st s2" for s2 unfolding handed_def new(7) ..
        show ?thesis
        proof (cases rule: start_upstream_effect [OF c1 _ length_snprintf_256, of "id_host cfg" "id_port cfg" "''/id?name='' @ name" ?x,
              case_names hosts refused started])
          case hosts
          then show ?case using assms(4) by (simp add: hosts_ok_def)
        next
          case (refused s2)
          let ?s3 = "s2\<lparr>t_ctxs := (t_ctxs s2)(?x := None)\<rparr>"
          have i: "in_i32 502" "(26 :: nat) \<le> 7168" by (simp_all add: in_i32_def)
          have h3: "handed st ?s3 = handed st s2" by (rule handed_cong) simp
          have c3: "t_conns ?s3 a = Some c" "t_conns ?s3 = t_conns st" "t_next ?s3 = t_next st" "t_closed ?s3 = handed st ?s3 @ t_closed st"
              "t_ctxs ?s3 = t_ctxs st"
            using c1 new refused hd [of s2] h3 assms(5) by (simp_all add: fun_upd_idem)
          obtain st' where "tcp_respond a 502 (error_text ''upstream failed'') 26 ?s3 = Some st'" "sets_answer st st' a c" "t_ctxs st' = t_ctxs ?s3"
              "t_next_ctx st' = t_next_ctx ?s3"
            by (rule respond_sets_answer [OF c3(1) assms(2) i c3(2-4)])
          with new refused c3(5) show ?thesis by (intro answers [of st']) (simp_all add: fe)
        next
          case (started s2 uc)
          have "asks_for st s2 a ?x" unfolding asks_for_def using started new hd [of s2] ow by (intro conjI exI [of _ uc]) simp_all
          moreover have "ctx_fits ?v" by (simp add: ctx_fits_def snprintf_def in_i32_def)
          ultimately show ?thesis using new started by (intro asks [of s2 ?v]) (simp_all add: fe)
        qed
      qed
    qed
  qed
qed

lemma sets_answer_ctxs: "sets_answer st (st'\<lparr>t_ctxs := cs\<rparr>) a c = sets_answer st st' a c"
proof -
  have "handed st (st'\<lparr>t_ctxs := cs\<rparr>) = handed st st'" by (rule handed_cong) simp
  then show ?thesis by (simp add: sets_answer_def)
qed

text \<open>The upstream handler.\<close>

definition release :: "nat \<Rightarrow> frontend_ctx tcp \<Rightarrow> frontend_ctx tcp option" where
  "release x s = (if t_ctxs s x = None then None else Some (s\<lparr>t_ctxs := (t_ctxs s)(x := None)\<rparr>))"

lemma upstream_effect:
  assumes "t_conns st u = Some uc" and "c_client_conn uc = Some a" and "c_handler_ctx uc = Some x" and "t_ctxs st x = Some v" and "ctx_fits v"
    and "t_conns st a = Some c" and "length (c_wbuf c) = BUF_SIZE" and "net_ok st" and "hosts_ok cfg"
    and "in_i32 (resp_status_code resp)" and "resp_body_len resp < BODY_SIZE"
  obtains (answers) st' where "frontend_upstream cfg u resp st = Some st'" "sets_answer st st' a c" "t_ctxs st' = (t_ctxs st)(x := None)"
      "t_next_ctx st' = t_next_ctx st"
  | (asks) st' v' where "frontend_upstream cfg u resp st = Some st'" "asks_for st st' a x" "t_ctxs st' = (t_ctxs st)(x \<mapsto> v')" "ctx_fits v'"
      "t_next_ctx st' = t_next_ctx st"
proof -
  have r: thesis if q: "frontend_upstream cfg u resp st = do { s1 \<leftarrow> tcp_respond a status body n s0; release x s1 }" "in_i32 status" "n \<le> 7168"
      "t_conns s0 = t_conns st" "t_next s0 = t_next st" "t_closed s0 = handed st s0 @ t_closed st" "(t_ctxs s0)(x := None) = (t_ctxs st)(x := None)"
      "t_ctxs s0 x \<noteq> None" "t_next_ctx s0 = t_next_ctx st" for status body n s0
  proof -
    have c0: "t_conns s0 a = Some c" using assms(6) q(4) by simp
    obtain s1 where s1: "tcp_respond a status body n s0 = Some s1" "sets_answer st s1 a c" "t_ctxs s1 = t_ctxs s0" "t_next_ctx s1 = t_next_ctx s0"
      by (rule respond_sets_answer [OF c0 assms(7) q(2-6)])
    let ?s = "s1\<lparr>t_ctxs := (t_ctxs s1)(x := None)\<rparr>"
    have "frontend_upstream cfg u resp st = Some ?s" using q(1,8) s1(1,3) by (auto simp: release_def)
    moreover have "sets_answer st ?s a c" using s1(2) by (simp add: sets_answer_ctxs)
    ultimately show thesis using answers [of ?s] s1(3,4) q(7,9) by simp
  qed
  have d: "t_conns st = t_conns st" "t_next st = t_next st" "t_closed st = handed st st @ t_closed st" "t_ctxs st x \<noteq> None"
    using assms(4,8) by (simp_all add: handed_refl)
  have fe: "frontend_upstream cfg u resp st = (if resp_status_code resp \<noteq> 200
      then do { s1 \<leftarrow> tcp_respond a (resp_status_code resp) (resp_body resp) (resp_body_len resp) st; release x s1 }
      else case fx_stage v of
        STAGE_WAITING_ID \<Rightarrow> (case parse_id (cstring (resp_body resp)) of
          None \<Rightarrow> do { s1 \<leftarrow> tcp_respond a 502 (error_text ''bad id response'') 26 st; release x s1 }
        | Some i \<Rightarrow> do {
            (rc, s2) \<leftarrow> conn_start_upstream a (attend_host cfg) (attend_port cfg) ''GET'' (fst (snprintf 256 (''/attend?id='' @ show_int i))) x
              (st\<lparr>t_ctxs := (t_ctxs st)(x \<mapsto> v\<lparr>fx_id := i, fx_stage := STAGE_WAITING_ATTEND\<rparr>)\<rparr>);
            if rc < 0 then do { s3 \<leftarrow> tcp_respond a 502 (error_text ''upstream failed'') 26 s2; release x s3 } else Some s2 })
      | STAGE_WAITING_ATTEND \<Rightarrow> (case snprintf 256 (lookup_body (fx_name v) (fx_id v) (strstr (cstring (resp_body resp)) ''true'' \<noteq> None)) of
          (body, n) \<Rightarrow> do { s1 \<leftarrow> tcp_respond a 200 body n st; release x s1 }))"
    unfolding frontend_upstream_def frontend_handle_upstream_response_def tcp_fe_simps release_def Let_def using assms(1-4) by simp
  show ?thesis
  proof (cases "resp_status_code resp = 200")
    case False
    then show ?thesis using fe assms(10,11) d by (intro r [of "resp_status_code resp" "resp_body resp" "resp_body_len resp" st]) (simp_all add: BODY_SIZE_def)
  next
    case ok: True
    show ?thesis
    proof (cases "fx_stage v")
      case STAGE_WAITING_ATTEND
      define att where "att = (strstr (cstring (resp_body resp)) ''true'' \<noteq> None)"
      let ?b = "lookup_body (fx_name v) (fx_id v) att"
      have i: "in_i32 200" by (simp add: in_i32_def)
      have l: "length ?b \<le> 7168" using assms(5) length_show_int [of "fx_id v"] by (simp add: lookup_body_def ctx_fits_def)
      have "frontend_upstream cfg u resp st = do { s1 \<leftarrow> tcp_respond a 200 (fst (snprintf 256 ?b)) (length ?b) st; release x s1 }"
        unfolding fe att_def [symmetric] using ok STAGE_WAITING_ATTEND by (simp add: snprintf_def)
      from r [OF this i l d(1-3) refl d(4) refl] show ?thesis .
    next
      case STAGE_WAITING_ID
      show ?thesis
      proof (cases "parse_id (cstring (resp_body resp))")
        case None
        with ok STAGE_WAITING_ID fe d show ?thesis
          by (intro r [of 502 "error_text ''bad id response''" 26 st]) (simp_all add: in_i32_def)
      next
        case (Some i)
        let ?v = "v\<lparr>fx_id := i, fx_stage := STAGE_WAITING_ATTEND\<rparr>"
        let ?s = "st\<lparr>t_ctxs := (t_ctxs st)(x \<mapsto> ?v)\<rparr>"
        have "in_i32 i" using Some by (auto simp: parse_id_def atoi_def)
        then have fits: "ctx_fits ?v" using assms(5) by (simp add: ctx_fits_def)
        have ow: "owned ?s = owned st" by (simp add: owned_def fun_eq_iff)
        have "t_net ?s = t_net st" by simp
        then have c1: "t_conns ?s a = Some c" "net_ok ?s" using assms(6,8) by (simp_all only: net_ok_def ow) simp
        have hd: "handed ?s s2 = handed st s2" for s2 by (rule handed_cong) simp
        show ?thesis
        proof (cases rule: start_upstream_effect [OF c1 _ length_snprintf_256, of "attend_host cfg" "attend_port cfg" "''/attend?id='' @ show_int i" x,
              case_names hosts refused started])
          case hosts
          then show ?case using assms(9) by (simp add: hosts_ok_def)
        next
          case (refused s2)
          have h2: "handed st ?s = []" by (rule handed_refl [OF assms(8)]) simp
          have e: "frontend_upstream cfg u resp st = do { s3 \<leftarrow> tcp_respond a 502 (error_text ''upstream failed'') 26 s2; release x s3 }"
            using fe ok STAGE_WAITING_ID Some refused(1) by simp
          show ?thesis
            by (rule r [OF e]) (use refused hd [of s2] in \<open>simp_all add: in_i32_def\<close>)
        next
          case (started s2 uc')
          have "asks_for st s2 a x" unfolding asks_for_def using started hd [of s2] ow by (intro conjI exI [of _ uc']) simp_all
          then show ?thesis using fe ok STAGE_WAITING_ID Some started fits by (intro asks [of s2 ?v]) simp_all
        qed
      qed
    qed
  qed
qed

section \<open>Accounting\<close>

definition fe_ok :: "frontend_ctx tcp \<Rightarrow> bool" where
  "fe_ok st \<longleftrightarrow> fe_heap (t_conns st) (t_next st) (t_ctxs st) (t_next_ctx st)"

lemma fe_ok_next: "fe_ok st \<Longrightarrow> t_conns st (t_next st) = None \<and> t_ctxs st (t_next_ctx st) = None"
  unfolding fe_ok_def fe_heap_def by (metis less_irrefl option.exhaust)

lemma owned_put:
  assumes "t_conns st a = Some c" and "c_fd c' = c_fd c" and "t_conns st' = (t_conns st)(a \<mapsto> c')"
  shows "owned st' = owned st"
proof -
  have "owned st' fd = owned st fd" for fd
    using assms(1,2) unfolding owned_def assms(3) by (metis fun_upd_apply option.inject)
  then show ?thesis by blast
qed

lemma owned_new:
  assumes "t_conns st n = None" and "t_conns st' = (t_conns st)(n \<mapsto> c)"
  shows "owned st' fd \<longleftrightarrow> owned st fd \<or> fd = c_fd c"
proof
  assume "owned st' fd"
  then show "owned st fd \<or> fd = c_fd c" unfolding owned_def assms(2) by (metis fun_upd_apply option.inject)
next
  assume "owned st fd \<or> fd = c_fd c"
  then show "owned st' fd" using assms(1) unfolding owned_def assms(2) by (metis fun_upd_apply option.distinct(1))
qed

lemma accounted_cong:
  "accounted acc st \<Longrightarrow> owned st' = owned st \<Longrightarrow> t_closed st' = fds @ t_closed st \<Longrightarrow> accounted (fds @ acc) st'"
  by (simp add: accounted_def)

lemma accounted_answer:
  assumes "accounted acc st" and "sets_answer st st' a c" and "t_conns st a = Some c"
  shows "accounted (handed st st' @ acc) st'"
proof -
  obtain c' where c: "responded c c'" "t_conns st' = (t_conns st)(a \<mapsto> c')" using assms(2) by (auto simp: sets_answer_def)
  have "owned st' = owned st" by (rule owned_put [OF assms(3) _ c(2)]) (use c(1) in \<open>simp add: responded_def answers_in_def\<close>)
  with assms(1,2) show ?thesis by (simp add: accounted_cong sets_answer_def)
qed

lemma accounted_asks:
  assumes "accounted acc st" and "asks_for st st' a x" and "t_conns st (t_next st) = None"
  shows "accounted (handed st st' @ acc) st'"
proof -
  obtain uc where uc: "t_conns st' = (t_conns st)(t_next st \<mapsto> uc)" "handed st st' = [c_fd uc]" "\<not> owned st (c_fd uc)" "t_closed st' = t_closed st"
    using assms(2) by (auto simp: asks_for_def)
  have "owned st' fd \<longleftrightarrow> owned st fd \<or> fd = c_fd uc" for fd by (rule owned_new [OF assms(3) uc(1)])
  then show ?thesis using assms(1) uc(2-4) by (simp add: accounted_def)
qed

lemma accounted_release:
  assumes "accounted acc st" and "unshared (t_conns st) (\<lambda>c. Some (c_fd c))" and "t_conns st u = Some uc" and "0 \<le> c_fd uc"
  obtains st' where "conn_free u st = Some st'" "accounted acc st'" "t_conns st' = (t_conns st)(u := None)" "t_next st' = t_next st"
    "t_ctxs st' = t_ctxs st" "t_next_ctx st' = t_next_ctx st" "t_net st' = t_net st"
proof -
  let ?s = "st\<lparr>t_conns := (t_conns st)(u := None), t_closed := c_fd uc # t_closed st\<rparr>"
  have f: "conn_free u st = Some ?s" using assms(3,4) by (simp add: conn_free_def)
  have "c_fd d \<noteq> c_fd uc" if "t_conns st b = Some d" "b \<noteq> u" for b d using assms(2,3) that unfolding unshared_def by blast
  then have "(\<exists>d. t_conns ?s b = Some d \<and> c_fd d = fd) \<longleftrightarrow> (\<exists>d. t_conns st b = Some d \<and> c_fd d = fd) \<and> fd \<noteq> c_fd uc" for b fd
    using assms(3) by (cases "b = u") auto
  then have "owned ?s fd \<longleftrightarrow> owned st fd \<and> fd \<noteq> c_fd uc" for fd unfolding owned_def by simp
  then have "accounted acc ?s" using assms(1,3) by (auto simp: accounted_def owned_def)
  with that f show ?thesis by simp
qed

lemma heap_unshared: "fe_heap h n cs m \<Longrightarrow> unshared h (\<lambda>c. Some (c_fd c))"
  by (simp add: fe_heap_def)

section \<open>An upstream connection ends\<close>

lemma responded_client:
  assumes "responded c c'" and "conn_ok c" and "c_client_conn c = None" and "c_handler_ctx c = None"
  shows "conn_ok c'" and "c_fd c' = c_fd c" and "c_client_conn c' = None" and "c_handler_ctx c' = None"
  using assms answers_conn_ok [of c c'] by (simp_all add: responded_def answers_in_def)

text \<open>What an upstream connection points to, and that nothing else does.\<close>

lemma upstream_points:
  assumes "fe_ok st" and "t_conns st u = Some uc" and "c_client_conn uc = Some a"
  obtains c x v where "up_ok uc" "t_conns st a = Some c" "c_client_conn c = None" "c_ev c = Some On_Client_Read" "conn_ok c"
    "c_handler_ctx uc = Some x" "t_ctxs st x = Some v" "ctx_fits v" "a \<noteq> u" "x < t_next_ctx st" "u < t_next st"
    "fe_heap ((t_conns st)(u := None)) (t_next st) (t_ctxs st) (t_next_ctx st)"
    "\<not> waited ((t_conns st)(u := None)) a" "\<not> held ((t_conns st)(u := None)) x"
proof -
  note h = assms(1) [unfolded fe_ok_def]
  have uu: "u < t_next st" "fe_conn (t_conns st) (t_ctxs st) uc" using fe_heapD [OF h assms(2)] by simp_all
  obtain c x v where p: "up_ok uc" "t_conns st a = Some c" "c_client_conn c = None" "c_ev c = Some On_Client_Read" "c_handler_ctx uc = Some x"
      "t_ctxs st x = Some v"
    by (rule fe_conn_up [OF uu(2) assms(3)])
  have c: "conn_ok c" using fe_conn_client fe_heapD [OF h p(2)] p(3) by blast
  have x: "ctx_fits v" "x < t_next_ctx st" using h p(6) by (simp_all add: fe_heap_def)
  have au: "a \<noteq> u" using assms(2,3) p(2,3) by auto
  have nw: "\<not> waited (t_conns st) u"
  proof
    assume "waited (t_conns st) u"
    then obtain b d where d: "t_conns st b = Some d" "c_client_conn d = Some u" unfolding waited_def by blast
    have "fe_conn (t_conns st) (t_ctxs st) d" using fe_heapD [OF h d(1)] by simp
    then show False by (rule fe_conn_up [OF _ d(2)]) (use assms(2,3) in simp)
  qed
  have "unshared (t_conns st) c_client_conn" "unshared (t_conns st) c_handler_ctx" using h by (simp_all add: fe_heap_def)
  then have "\<not> waited ((t_conns st)(u := None)) a" "\<not> held ((t_conns st)(u := None)) x"
    using assms(2,3) p(5) unfolding unshared_def waited_def held_def by (metis fun_upd_apply option.distinct(1))+
  with that p c x au uu(1) heap_free [OF h nw] show ?thesis by blast
qed

lemma settle_answer:
  assumes "fe_ok st" and "accounted acc st" and "t_conns st u = Some uc" and "c_client_conn uc = Some a" and "c_handler_ctx uc = Some x"
    and "t_conns st a = Some c" and "sets_answer st st1 a c" and "t_next_ctx st1 = t_next_ctx st"
    and "t_ctxs st1 = t_ctxs st \<or> t_ctxs st1 = (t_ctxs st)(x := None)"
  shows "\<exists>st'. conn_free u st1 = Some st' \<and> fe_ok st' \<and> accounted (handed st st' @ acc) st'"
proof -
  obtain c0 x0 v where p: "up_ok uc" "t_conns st a = Some c0" "c_client_conn c0 = None" "conn_ok c0" "c_handler_ctx uc = Some x0" "a \<noteq> u"
      "fe_heap ((t_conns st)(u := None)) (t_next st) (t_ctxs st) (t_next_ctx st)"
      "\<not> waited ((t_conns st)(u := None)) a" "\<not> held ((t_conns st)(u := None)) x0"
    by (rule upstream_points [OF assms(1,3,4)])
  have c: "c0 = c" "x0 = x" using p(2,5) assms(5,6) by simp_all
  have k: "c_handler_ctx c = None"
    using fe_conn_client p(3) fe_heapD [OF assms(1) [unfolded fe_ok_def] assms(6)] c by blast
  obtain c' where c': "responded c c'" "t_conns st1 = (t_conns st)(a \<mapsto> c')" "t_next st1 = t_next st"
    using assms(7) by (auto simp: sets_answer_def)
  note rc = responded_client [OF c'(1) p(4) [unfolded c] p(3) [unfolded c] k]
  have h1: "fe_heap ((t_conns st)(u := None, a \<mapsto> c')) (t_next st) (t_ctxs st) (t_next_ctx st)"
    using heap_put_client [OF p(7) _ p(3) p(8)] p(2,6) c rc by simp
  have "\<not> held ((t_conns st)(u := None, a \<mapsto> c')) x"
    using p(9) rc(4) unfolding held_def c by (metis fun_upd_apply option.distinct(1) option.inject)
  then have h2: "fe_heap ((t_conns st)(u := None, a \<mapsto> c')) (t_next st) (t_ctxs st1) (t_next_ctx st)"
    using assms(9) h1 heap_ctx_free by auto
  have u1: "t_conns st1 u = Some uc" using c'(2) p(6) assms(3) by simp
  have "unshared (t_conns st) (\<lambda>c. Some (c_fd c))" using assms(1) by (auto simp: fe_ok_def dest: heap_unshared)
  then have us: "unshared (t_conns st1) (\<lambda>c. Some (c_fd c))"
    unfolding c'(2) using rc(2) by (intro unshared_put [where h = "t_conns st", OF assms(6)]) simp_all
  have fd: "0 \<le> c_fd uc" using p(1) by (simp add: up_ok_def)
  obtain st' where st': "conn_free u st1 = Some st'" "accounted (handed st st1 @ acc) st'" "t_conns st' = (t_conns st1)(u := None)"
      "t_next st' = t_next st1" "t_ctxs st' = t_ctxs st1" "t_next_ctx st' = t_next_ctx st1" "t_net st' = t_net st1"
    by (rule accounted_release [OF accounted_answer [OF assms(2,7,6)] us u1 fd])
  have "fe_ok st'" using h2 st'(3-6) c'(2,3) assms(8) p(6) by (simp add: fe_ok_def fun_upd_twist)
  moreover have "handed st st' = handed st st1" by (rule handed_cong) (rule st'(7))
  ultimately show ?thesis using st'(1,2) by simp
qed

lemma settle_asks:
  assumes "fe_ok st" and "accounted acc st" and "t_conns st u = Some uc" and "c_client_conn uc = Some a" and "c_handler_ctx uc = Some x"
    and "asks_for st st1 a x" and "t_next_ctx st1 = t_next_ctx st" and "t_ctxs st1 = (t_ctxs st)(x \<mapsto> v')" and "ctx_fits v'"
  shows "\<exists>st'. conn_free u st1 = Some st' \<and> fe_ok st' \<and> accounted (handed st st' @ acc) st'"
proof -
  obtain c x0 v where p: "up_ok uc" "t_conns st a = Some c" "c_client_conn c = None" "c_ev c = Some On_Client_Read" "c_handler_ctx uc = Some x0"
      "a \<noteq> u" "x0 < t_next_ctx st" "u < t_next st" "fe_heap ((t_conns st)(u := None)) (t_next st) (t_ctxs st) (t_next_ctx st)"
      "\<not> waited ((t_conns st)(u := None)) a" "\<not> held ((t_conns st)(u := None)) x0"
    by (rule upstream_points [OF assms(1,3,4)])
  have x: "x0 = x" using p(5) assms(5) by simp
  let ?h = "(t_conns st)(u := None)" and ?n = "t_next st" and ?cs = "(t_ctxs st)(x \<mapsto> v')"
  obtain vc where vc: "t_conns st1 = (t_conns st)(?n \<mapsto> vc)" "up_ok vc" "c_client_conn vc = Some a" "c_handler_ctx vc = Some x"
      "\<not> owned st (c_fd vc)" "t_next st1 = Suc ?n"
    using assms(6) by (auto simp: asks_for_def)
  have h0: "fe_heap ?h ?n ?cs (t_next_ctx st)" using heap_ctx_put [OF p(9) assms(9) p(7) order_refl] x by simp
  have an: "a \<noteq> ?n" using fe_ok_next [OF assms(1)] p(2) by auto
  have h1: "fe_heap (?h(?n \<mapsto> vc)) (Suc ?n) ?cs (t_next_ctx st)"
  proof (rule heap_new [OF h0])
    show "fe_conn (?h(?n \<mapsto> vc)) ?cs vc" using vc(2-4) p(2-4,6) an by (simp add: fe_conn_def)
    show "c_fd d \<noteq> c_fd vc" if "?h b = Some d" for b d using vc(5) that by (auto simp: owned_def split: if_splits)
  qed (use vc(3,4) p(10,11) x in auto)
  have u1: "t_conns st1 u = Some uc" using vc(1) p(8) assms(3) by simp
  have us: "unshared (t_conns st1) (\<lambda>c. Some (c_fd c))"
    unfolding vc(1)
  proof (rule unshared_new)
    show "unshared (t_conns st) (\<lambda>c. Some (c_fd c))" using assms(1) by (auto simp: fe_ok_def dest: heap_unshared)
    show "Some (c_fd vc) \<noteq> Some y" if "t_conns st b = Some d" "Some (c_fd d) = Some y" for b d y
      using vc(5) that by (metis option.inject owned_def)
  qed
  have fd: "0 \<le> c_fd uc" using p(1) by (simp add: up_ok_def)
  have n: "t_conns st ?n = None" using fe_ok_next [OF assms(1)] by simp
  obtain st' where st': "conn_free u st1 = Some st'" "accounted (handed st st1 @ acc) st'" "t_conns st' = (t_conns st1)(u := None)"
      "t_next st' = t_next st1" "t_ctxs st' = t_ctxs st1" "t_next_ctx st' = t_next_ctx st1" "t_net st' = t_net st1"
    by (rule accounted_release [OF accounted_asks [OF assms(2,6) n] us u1 fd])
  have "u \<noteq> ?n" using p(8) by simp
  then have "fe_ok st'" using h1 st'(3-6) vc(1,6) assms(7,8) by (simp add: fe_ok_def fun_upd_twist)
  moreover have "handed st st' = handed st st1" by (rule handed_cong) (rule st'(7))
  ultimately show ?thesis using st'(1,2) by simp
qed

section \<open>Events\<close>

text \<open>An event succeeds and keeps the heap and the accounting, with the socket it may have been handed.\<close>

definition keeps :: "int list \<Rightarrow> frontend_ctx tcp \<Rightarrow> frontend_ctx tcp option \<Rightarrow> bool" where
  "keeps acc st r \<longleftrightarrow> (\<exists>st'. r = Some st' \<and> fe_ok st' \<and> accounted (handed st st' @ acc) st')"

lemma keepsI: "r = Some st' \<Longrightarrow> fe_ok st' \<Longrightarrow> accounted acc st' \<Longrightarrow> net_ok st \<Longrightarrow> t_net st' = t_net st \<Longrightarrow> keeps acc st r"
  by (simp add: keeps_def handed_refl)

lemma keeps_net: "keeps acc s r \<Longrightarrow> t_net s = t_net st \<Longrightarrow> keeps acc st r"
  using handed_cong(2) [of s st] by (auto simp: keeps_def)

lemma fe_ok_sent [simp]: "fe_ok (st\<lparr>t_sent := x\<rparr>) = fe_ok st"
  by (simp add: fe_ok_def)

lemma net_ok_put:
  assumes "net_ok st" and "t_conns st a = Some c" and "c_fd c' = c_fd c"
  shows "net_ok (put_conn a c' st)"
proof -
  have "owned (put_conn a c' st) = owned st" by (rule owned_put [OF assms(2,3)]) (simp add: put_conn_def)
  moreover have "t_net (put_conn a c' st) = t_net st" by (simp add: put_conn_def)
  ultimately show ?thesis using assms(1) by (simp only: net_ok_def)
qed

lemma put_client_keeps:
  assumes "fe_ok st" and "accounted acc st" and "t_conns st a = Some c" and "c_client_conn c = None" and "\<not> waited (t_conns st) a"
    and "conn_ok c'" and "c_fd c' = c_fd c" and "c_client_conn c' = None" and "c_handler_ctx c' = None"
  shows "fe_ok (put_conn a c' st)" and "accounted acc (put_conn a c' st)"
proof -
  show "fe_ok (put_conn a c' st)"
    using heap_put_client [OF assms(1) [unfolded fe_ok_def] assms(3-9)] by (simp add: fe_ok_def put_conn_def)
  have "owned (put_conn a c' st) = owned st" by (rule owned_put [OF assms(3,7)]) (simp add: put_conn_def)
  with assms(2) show "accounted acc (put_conn a c' st)" by (simp add: accounted_def)
qed

lemma free_client_keeps:
  assumes "fe_ok st" and "accounted acc st" and "t_conns st a = Some c" and "c_client_conn c = None" and "\<not> waited (t_conns st) a"
    and "net_ok st"
  shows "keeps acc st (conn_free a st)"
proof -
  note h = assms(1) [unfolded fe_ok_def]
  have "conn_ok c" using fe_conn_client assms(4) fe_heapD [OF h assms(3)] by blast
  then have fd: "0 \<le> c_fd c" by (simp add: conn_ok_def)
  obtain st' where st': "conn_free a st = Some st'" "accounted acc st'" "t_conns st' = (t_conns st)(a := None)" "t_next st' = t_next st"
      "t_ctxs st' = t_ctxs st" "t_next_ctx st' = t_next_ctx st" "t_net st' = t_net st"
    by (rule accounted_release [OF assms(2) heap_unshared [OF h] assms(3) fd])
  have "fe_ok st'" using heap_free [OF h assms(5)] st'(3-6) by (simp add: fe_ok_def)
  then show ?thesis by (rule keepsI [OF st'(1) _ st'(2) assms(6) st'(7)])
qed

lemma put_up_keeps:
  assumes "fe_ok st" and "accounted acc st" and "t_conns st u = Some uc" and "c_client_conn uc = Some a" and "up_ok uc'"
    and "c_fd uc' = c_fd uc" and "c_client_conn uc' = c_client_conn uc" and "c_handler_ctx uc' = c_handler_ctx uc"
  shows "fe_ok (put_conn u uc' st)" and "accounted acc (put_conn u uc' st)"
proof -
  show "fe_ok (put_conn u uc' st)"
    using heap_put_up [OF assms(1) [unfolded fe_ok_def] assms(3-8)] by (simp add: fe_ok_def put_conn_def)
  have "owned (put_conn u uc' st) = owned st" by (rule owned_put [OF assms(3,6)]) (simp add: put_conn_def)
  with assms(2) show "accounted acc (put_conn u uc' st)" by (simp add: accounted_def)
qed

text \<open>An upstream connection that fails answers its client and is freed.\<close>

lemma fail_keeps:
  assumes "fe_ok st" and "accounted acc st" and "t_conns st u = Some uc" and "c_client_conn uc = Some a" and "n \<le> 7168" and "net_ok st"
  shows "keeps acc st (do { st1 \<leftarrow> fail_client uc msg n st; conn_free u st1 })"
proof -
  obtain c x where p: "t_conns st a = Some c" "conn_ok c" "c_handler_ctx uc = Some x"
    by (rule upstream_points [OF assms(1,3,4)])
  have w: "length (c_wbuf c) = BUF_SIZE" "in_i32 502" using p(2) by (simp_all add: conn_ok_def in_i32_def)
  obtain c' where c': "conn_start_response a 502 (error_text msg) n st = Some (put_conn a c' st)" "responded c c'"
    using start_response_exact [OF p(1) w assms(5)] by blast
  have "handed st (put_conn a c' st) = []" by (rule handed_refl [OF assms(6)]) (simp add: put_conn_def)
  then have "sets_answer st (put_conn a c' st) a c" using c'(2) by (auto simp: sets_answer_def put_conn_def)
  from settle_answer [OF assms(1-4) p(3,1) this] show ?thesis
    using c'(1) assms(4) by (simp add: keeps_def fail_client_def put_conn_def)
qed

text \<open>A response that is complete goes to the handler, and the upstream connection is freed.\<close>

lemma upstream_handler_keeps:
  assumes "fe_ok st" and "accounted acc st" and "t_conns st u = Some uc" and "c_client_conn uc = Some a" and "net_ok st" and "hosts_ok cfg"
    and "in_i32 (resp_status_code resp)" and "resp_body_len resp < BODY_SIZE"
  shows "keeps acc st (do { st1 \<leftarrow> frontend_upstream cfg u resp st; conn_free u st1 })"
proof -
  obtain c x v where p: "t_conns st a = Some c" "conn_ok c" "c_handler_ctx uc = Some x" "t_ctxs st x = Some v" "ctx_fits v"
    by (rule upstream_points [OF assms(1,3,4)])
  have w: "length (c_wbuf c) = BUF_SIZE" using p(2) by (simp add: conn_ok_def)
  show ?thesis
  proof (cases rule: upstream_effect [OF assms(3,4) p(3,4,5,1) w assms(5-8), case_names answers asks])
    case (answers st1)
    from settle_answer [OF assms(1-4) p(3,1) answers(2,4)] answers(1,3) show ?thesis by (simp add: keeps_def)
  next
    case (asks st1 v')
    from settle_asks [OF assms(1-4) p(3) asks(2,5,3,4)] asks(1) show ?thesis by (simp add: keeps_def)
  qed
qed

lemma conn_read_up:
  assumes "up_ok uc" and "conn_read uc bs = Some uc'"
  shows "up_ok uc'" and "c_fd uc' = c_fd uc" and "c_client_conn uc' = c_client_conn uc" and "c_handler_ctx uc' = c_handler_ctx uc"
    and "c_rlen uc' < length (c_rbuf uc')" and "c_rbuf uc' ! c_rlen uc' = NUL"
  using assms by (auto simp: conn_read_def up_ok_def Let_def nth_append split: if_splits)

lemma upstream_read_keeps:
  assumes "fe_ok st" and "accounted acc st" and "t_conns st u = Some uc" and "c_client_conn uc = Some a" and "net_ok st" and "hosts_ok cfg"
  shows "keeps acc st (on_upstream_read_cb (frontend_upstream cfg) u io st)"
proof -
  have ok: "up_ok uc" by (rule upstream_points [OF assms(1,3,4)])
  show ?thesis
  proof (cases io)
    case (Io_Data bs)
    show ?thesis
    proof (cases "conn_read uc bs")
      case None
      let ?uc = "uc\<lparr>c_rbuf := (c_rbuf uc)[c_rlen uc := NUL]\<rparr>"
      let ?s = "put_conn u ?uc st"
      have "up_ok ?uc" using ok by (simp add: up_ok_def)
      note k = put_up_keeps [OF assms(1-4) this, simplified]
      have u: "t_conns ?s u = Some ?uc" "c_client_conn ?uc = Some a" "t_net ?s = t_net st" using assms(4) by (simp_all add: put_conn_def)
      have n: "net_ok ?s" by (rule net_ok_put [OF assms(5,3)]) simp
      have "c_rlen ?uc < length (c_rbuf ?uc)" "c_rbuf ?uc ! c_rlen ?uc = NUL" using ok by (simp_all add: up_ok_def)
      from http_parse_response_total [OF this] obtain ret resp where
        r: "http_parse_response (c_rbuf ?uc) (c_rlen ?uc) = Some (ret, resp)" "in_i32 (resp_status_code resp)" "resp_body_len resp < BODY_SIZE"
        by blast
      have "keeps acc ?s (do { st2 \<leftarrow> (if ret = 0 then frontend_upstream cfg u resp ?s else fail_client ?uc ''upstream closed'' 27 ?s); conn_free u st2 })"
        using upstream_handler_keeps [OF k u(1,2) n assms(6) r(2,3)] fail_keeps [OF k u(1,2) _ n] by simp
      from keeps_net [OF this u(3)] show ?thesis
        using Io_Data assms(3) None r(1) by (simp add: on_upstream_read_cb_def Let_def)
    next
      case (Some uc')
      note c = conn_read_up [OF ok Some]
      let ?s = "put_conn u uc' st"
      note k = put_up_keeps [OF assms(1-4) c(1-4)]
      have u: "t_conns ?s u = Some uc'" "c_client_conn uc' = Some a" "t_net ?s = t_net st" using assms(4) c(3) by (simp_all add: put_conn_def)
      have n: "net_ok ?s" by (rule net_ok_put [OF assms(5,3) c(2)])
      obtain ret resp where
        r: "http_parse_response (c_rbuf uc') (c_rlen uc') = Some (ret, resp)" "in_i32 (resp_status_code resp)" "resp_body_len resp < BODY_SIZE"
        using http_parse_response_total [OF c(5,6)] by blast
      have e: "on_upstream_read_cb (frontend_upstream cfg) u io st = (if ret = 1 then Some ?s else do {
          st2 \<leftarrow> (if ret < 0 then fail_client uc' ''upstream bad response'' 33 ?s else frontend_upstream cfg u resp ?s); conn_free u st2 })"
        using Io_Data assms(3) Some r(1) by (simp add: on_upstream_read_cb_def)
      show ?thesis
      proof (cases "ret = 1")
        case True
        then show ?thesis by (intro keepsI [OF _ k assms(5) u(3)]) (simp add: e)
      next
        case False
        have "keeps acc ?s (do { st2 \<leftarrow> (if ret < 0 then fail_client uc' ''upstream bad response'' 33 ?s else frontend_upstream cfg u resp ?s); conn_free u st2 })"
          using upstream_handler_keeps [OF k u(1,2) n assms(6) r(2,3)] fail_keeps [OF k u(1,2) _ n] by simp
        from keeps_net [OF this u(3)] False show ?thesis by (simp add: e)
      qed
    qed
  next
    case Io_Again
    then show ?thesis using assms by (intro keepsI [of _ st]) (simp_all add: on_upstream_read_cb_def)
  qed (use assms(3) fail_keeps [OF assms(1-4) _ assms(5)] in \<open>simp_all add: on_upstream_read_cb_def\<close>)
qed

lemma upstream_connect_keeps:
  assumes "fe_ok st" and "accounted acc st" and "t_conns st u = Some uc" and "c_client_conn uc = Some a" and "net_ok st"
  shows "keeps acc st (on_upstream_connect_cb u connected st)"
proof (cases connected)
  case True
  have "up_ok uc" by (rule upstream_points [OF assms(1,3,4)])
  then have "up_ok (uc\<lparr>c_ev := Some On_Upstream_Write\<rparr>)" by (simp add: up_ok_def)
  note k = put_up_keeps [OF assms(1-4) this, simplified]
  show ?thesis using True assms(3) by (intro keepsI [OF _ k assms(5)]) (simp_all add: on_upstream_connect_cb_def put_conn_def)
qed (use assms(3) fail_keeps [OF assms(1-4) _ assms(5)] in \<open>simp add: on_upstream_connect_cb_def\<close>)

lemma upstream_write_keeps:
  assumes "fe_ok st" and "accounted acc st" and "t_conns st u = Some uc" and "c_client_conn uc = Some a" and "net_ok st"
  shows "keeps acc st (on_upstream_write_cb u io st)"
proof (cases io)
  case (Io_Wrote k)
  have ok: "up_ok uc" by (rule upstream_points [OF assms(1,3,4)])
  let ?n = "min k (c_wlen uc - c_wpos uc)"
  let ?s = "st\<lparr>t_sent := (t_sent st)(c_fd uc := t_sent st (c_fd uc) @ take ?n (drop (c_wpos uc) (c_wbuf uc)))\<rparr>"
  let ?uc = "uc\<lparr>c_wpos := c_wpos uc + ?n\<rparr>"
  let ?uc' = "if c_wpos ?uc \<ge> c_wlen ?uc then ?uc\<lparr>c_rlen := 0, c_ev := Some On_Upstream_Read\<rparr> else ?uc"
  have w: "conn_write uc k st = Some (?n, ?s)" using ok by (simp add: conn_write_def up_ok_def Let_def)
  have "up_ok ?uc'" using ok by (auto simp: up_ok_def BUF_SIZE_def)
  then have k: "fe_ok (put_conn u ?uc' ?s)" "accounted acc (put_conn u ?uc' ?s)"
    using put_up_keeps [of ?s acc u uc a ?uc'] assms(1-4) by simp_all
  have "on_upstream_write_cb u io st = Some (put_conn u ?uc' ?s)"
    using assms(3) Io_Wrote w by (simp add: on_upstream_write_cb_def Let_def)
  then show ?thesis by (rule keepsI [OF _ k assms(5)]) (simp add: put_conn_def)
next
  case Io_Again
  then show ?thesis using assms by (intro keepsI [of _ st]) (simp_all add: on_upstream_write_cb_def)
qed (use assms(3) fail_keeps [OF assms(1-4) _ assms(5)] in \<open>simp_all add: on_upstream_write_cb_def\<close>)

lemma client_write_fe_keeps:
  assumes "fe_ok st" and "accounted acc st" and "t_conns st a = Some c" and "c_client_conn c = None" and "\<not> waited (t_conns st) a"
    and "net_ok st" and "c_ev c = Some On_Client_Write"
  shows "keeps acc st (on_client_write_cb a io st)"
proof (cases io)
  case (Io_Wrote k)
  have ok: "conn_ok c" "c_handler_ctx c = None"
    using fe_conn_client [OF _ assms(4)] fe_heapD [OF assms(1) [unfolded fe_ok_def] assms(3)] by blast+
  let ?n = "min k (c_wlen c - c_wpos c)"
  let ?s = "st\<lparr>t_sent := (t_sent st)(c_fd c := t_sent st (c_fd c) @ take ?n (drop (c_wpos c) (c_wbuf c)))\<rparr>"
  let ?c = "c\<lparr>c_wpos := c_wpos c + ?n\<rparr>"
  have w: "conn_write c k st = Some (?n, ?s)" using ok(1) assms(7) by (simp add: conn_write_def conn_ok_def Let_def)
  have "conn_ok ?c" using ok(1) assms(7) by (auto simp: conn_ok_def)
  then have k: "fe_ok (put_conn a ?c ?s)" "accounted acc (put_conn a ?c ?s)"
    using put_client_keeps [of ?s acc a c ?c] assms(1-5) ok(2) by simp_all
  have t: "t_net (put_conn a ?c ?s) = t_net st" by (simp add: put_conn_def)
  have n: "net_ok (put_conn a ?c ?s)"
  proof -
    have "net_ok (put_conn a ?c st)" by (rule net_ok_put [OF assms(6,3)]) simp
    moreover have "owned (put_conn a ?c ?s) = owned (put_conn a ?c st)" by (simp add: owned_def fun_eq_iff put_conn_def)
    moreover have "t_net (put_conn a ?c ?s) = t_net (put_conn a ?c st)" by (simp add: put_conn_def)
    ultimately show ?thesis by (simp only: net_ok_def)
  qed
  have nw: "\<not> waited (t_conns (put_conn a ?c ?s)) a" using assms(4,5) by (auto simp: waited_def put_conn_def)
  have e: "on_client_write_cb a io st = (if c_wpos ?c \<ge> c_wlen c then conn_free a (put_conn a ?c ?s) else Some (put_conn a ?c ?s))"
    using assms(3) Io_Wrote w by (simp add: on_client_write_cb_def Let_def)
  have "keeps acc (put_conn a ?c ?s) (conn_free a (put_conn a ?c ?s))"
    by (rule free_client_keeps [OF k _ _ nw n, of ?c]) (simp_all add: assms(4))
  from keeps_net [OF this t] keepsI [OF refl k assms(6) t] show ?thesis unfolding e by (simp only: simp_thms split: if_split)
next
  case Io_Again
  then show ?thesis using assms by (intro keepsI [of _ st]) (simp_all add: on_client_write_cb_def)
qed (use assms free_client_keeps [OF assms(1-6)] in \<open>simp_all add: on_client_write_cb_def\<close>)

text \<open>A complete request goes to the handler.\<close>

lemma request_handler_keeps:
  assumes "fe_ok st" and "accounted acc st" and "t_conns st a = Some c" and "c_client_conn c = None" and "\<not> waited (t_conns st) a"
    and "net_ok st" and "hosts_ok cfg" and "c_ev c = Some On_Client_Read"
  shows "keeps acc st (frontend cfg a req st)"
proof -
  note h = assms(1) [unfolded fe_ok_def]
  have c: "conn_ok c" "c_handler_ctx c = None" using fe_conn_client [OF _ assms(4)] fe_heapD [OF h assms(3)] by blast+
  then have w: "length (c_wbuf c) = BUF_SIZE" by (simp add: conn_ok_def)
  note n = fe_ok_next [OF assms(1)]
  show ?thesis
  proof (cases rule: frontend_effect [OF assms(3) w assms(6,7) conjunct2 [OF n], of req, case_names answers asks])
    case (answers st')
    obtain c' where c': "responded c c'" "t_conns st' = (t_conns st)(a \<mapsto> c')" "t_next st' = t_next st"
      using answers(2) by (auto simp: sets_answer_def)
    note rc = responded_client [OF c'(1) c(1) assms(4) c(2)]
    have "fe_heap ((t_conns st)(a \<mapsto> c')) (t_next st) (t_ctxs st) (t_next_ctx st)" by (rule heap_put_client [OF h assms(3-5) rc])
    then have "fe_heap ((t_conns st)(a \<mapsto> c')) (t_next st) (t_ctxs st) (t_next_ctx st')"
      using answers(4) unfolding fe_heap_def by (meson less_le_trans)
    then have "fe_ok st'" using c'(2,3) answers(3) by (simp add: fe_ok_def)
    with answers(1) accounted_answer [OF assms(2) answers(2) assms(3)] show ?thesis by (simp add: keeps_def)
  next
    case (asks st' v)
    let ?n = "t_next st" and ?x = "t_next_ctx st"
    obtain uc where uc: "t_conns st' = (t_conns st)(?n \<mapsto> uc)" "up_ok uc" "c_client_conn uc = Some a" "c_handler_ctx uc = Some ?x"
        "\<not> owned st (c_fd uc)" "t_next st' = Suc ?n"
      using asks(2) by (auto simp: asks_for_def)
    have h1: "fe_heap (t_conns st) ?n ((t_ctxs st)(?x \<mapsto> v)) (Suc ?x)" by (rule heap_ctx_put [OF h asks(4)]) simp_all
    have an: "a \<noteq> ?n" using n assms(3) by auto
    have nh: "\<not> held (t_conns st) ?x"
    proof
      assume "held (t_conns st) ?x"
      then obtain b d where d: "t_conns st b = Some d" "c_handler_ctx d = Some ?x" unfolding held_def by blast
      then have "fe_conn (t_conns st) (t_ctxs st) d" using fe_heapD [OF h] by blast
      then show False using d(2) n by (auto simp: fe_conn_def split: option.splits)
    qed
    have "fe_heap ((t_conns st)(?n \<mapsto> uc)) (Suc ?n) ((t_ctxs st)(?x \<mapsto> v)) (Suc ?x)"
    proof (rule heap_new [OF h1])
      show "fe_conn ((t_conns st)(?n \<mapsto> uc)) ((t_ctxs st)(?x \<mapsto> v)) uc" using uc(2-4) assms(3,4,8) an by (simp add: fe_conn_def)
      show "c_fd d \<noteq> c_fd uc" if "t_conns st b = Some d" for b d using uc(5) that by (metis owned_def)
    qed (use uc(3,4) assms(5) nh in auto)
    then have "fe_ok st'" using uc(1,6) asks(3,5) by (simp add: fe_ok_def)
    with asks(1) accounted_asks [OF assms(2) asks(2) conjunct1 [OF n]] show ?thesis by (simp add: keeps_def)
  qed
qed

lemma client_read_fe_keeps:
  assumes "fe_ok st" and "accounted acc st" and "t_conns st a = Some c" and "c_client_conn c = None" and "\<not> waited (t_conns st) a"
    and "net_ok st" and "hosts_ok cfg" and "c_ev c = Some On_Client_Read"
  shows "overread c io \<or> keeps acc st (on_client_read_cb (frontend cfg) a io st)"
proof (cases "\<exists>bs c'. io = Io_Data bs \<and> conn_read c bs = Some c'")
  case False
  then have "on_client_read_cb (frontend cfg) a io st = conn_free a st"
    using assms(3) by (cases io) (auto simp: on_client_read_cb_def)
  then show ?thesis using free_client_keeps [OF assms(1-6)] by simp
next
  case True
  then obtain bs c' where b: "io = Io_Data bs" "conn_read c bs = Some c'" by blast
  have ok: "conn_ok c" "c_handler_ctx c = None"
    using fe_conn_client [OF _ assms(4)] fe_heapD [OF assms(1) [unfolded fe_ok_def] assms(3)] by blast+
  have r: "conn_ok c'" "c_fd c' = c_fd c" "c_client_conn c' = None" "c_handler_ctx c' = None" "c_ev c' = Some On_Client_Read"
    using conn_read_ok [OF ok(1) b(2)] b(2) assms(4,8) ok(2) by (auto simp: conn_read_def Let_def split: if_splits)
  let ?s = "put_conn a c' st"
  note k = put_client_keeps [OF assms(1-5) r(1-4)]
  have u: "t_conns ?s a = Some c'" "t_net ?s = t_net st" by (simp_all add: put_conn_def)
  have nw: "\<not> waited (t_conns ?s) a" using assms(5) r(3) by (auto simp: waited_def put_conn_def)
  have n: "net_ok ?s" by (rule net_ok_put [OF assms(6,3) r(2)])
  show ?thesis
  proof (cases "http_parse_request (c_rbuf c') (c_rlen c')")
    case (Some p)
    obtain ret req where p: "p = (ret, req)" by (rule prod.exhaust)
    with Some http_parse_request_ret have "ret = 0 \<or> ret = 1" by blast
    then have e: "on_client_read_cb (frontend cfg) a io st = (if ret = 1 then Some ?s else frontend cfg a req ?s)"
      using assms(3) b Some p by (auto simp: on_client_read_cb_def)
    have "keeps acc ?s (frontend cfg a req ?s)" by (rule request_handler_keeps [OF k u(1) r(3) nw n assms(7) r(5)])
    from keeps_net [OF this u(2)] keepsI [OF refl k assms(6) u(2)] show ?thesis unfolding e by simp
  qed (use b in \<open>simp add: overread_def\<close>)
qed

section \<open>The loop\<close>

text \<open>The states of the frontend's loop with the descriptors handed to it so far, those of accepted clients and
  those of its own sockets, when no client whose lookup is under way sends or closes: every other
  registered callback may run next, with any outcome of its system calls.\<close>

inductive fe_served :: "fe_config \<Rightarrow> int list \<Rightarrow> frontend_ctx tcp \<Rightarrow> bool" for cfg where
  fe_start: "t_conns st = Map.empty \<Longrightarrow> t_ctxs st = Map.empty \<Longrightarrow> t_closed st = [] \<Longrightarrow> fe_served cfg [] st"
| fe_accept: "fe_served cfg acc st \<Longrightarrow> 0 \<le> fd \<Longrightarrow> \<not> owned st fd \<Longrightarrow> fe_served cfg (fd # acc) (on_accept_cb [fd] st)"
| fe_event: "fe_served cfg acc st \<Longrightarrow> \<not> waited (t_conns st) a \<Longrightarrow> net_ok (st\<lparr>t_net := net\<rparr>) \<Longrightarrow>
    dispatch (frontend cfg) (frontend_upstream cfg) a io (st\<lparr>t_net := net\<rparr>) = Some st' \<Longrightarrow>
    fe_served cfg (handed (st\<lparr>t_net := net\<rparr>) st' @ acc) st'"

definition pointers_live :: "frontend_ctx tcp \<Rightarrow> bool" where
  "pointers_live st \<longleftrightarrow> (\<forall>u uc a. t_conns st u = Some uc \<longrightarrow> c_client_conn uc = Some a \<longrightarrow>
     (\<exists>c. t_conns st a = Some c \<and> c_client_conn c = None \<and> c_ev c = Some On_Client_Read)
     \<and> (\<exists>x v. c_handler_ctx uc = Some x \<and> t_ctxs st x = Some v)
     \<and> (\<forall>w wc. t_conns st w = Some wc \<longrightarrow> c_client_conn wc = Some a \<or> c_handler_ctx wc = c_handler_ctx uc \<longrightarrow> w = u))"

definition fe_safe :: "fe_config \<Rightarrow> int list \<Rightarrow> frontend_ctx tcp \<Rightarrow> bool" where
  "fe_safe cfg acc st \<longleftrightarrow> pointers_live st \<and> accounted acc st
     \<and> (\<forall>a c io net. t_conns st a = Some c \<longrightarrow> \<not> waited (t_conns st) a \<longrightarrow> net_ok (st\<lparr>t_net := net\<rparr>) \<longrightarrow>
          dispatch (frontend cfg) (frontend_upstream cfg) a io (st\<lparr>t_net := net\<rparr>) = None \<longrightarrow>
          c_ev c = Some On_Client_Read \<and> overread c io)"

lemma fe_ok_pointers: "fe_ok st \<Longrightarrow> pointers_live st"
proof -
  assume ok: "fe_ok st"
  show ?thesis
    unfolding pointers_live_def
  proof (intro allI impI)
    fix u uc a
    assume u: "t_conns st u = Some uc" "c_client_conn uc = Some a"
    obtain c x v where p: "t_conns st a = Some c" "c_client_conn c = None" "c_ev c = Some On_Client_Read" "c_handler_ctx uc = Some x" "t_ctxs st x = Some v"
      by (rule upstream_points [OF ok u])
    have s: "unshared (t_conns st) c_client_conn" "unshared (t_conns st) c_handler_ctx" using ok by (simp_all add: fe_ok_def fe_heap_def)
    have "w = u" if "t_conns st w = Some wc" "c_client_conn wc = Some a \<or> c_handler_ctx wc = c_handler_ctx uc" for w wc
      using that(2) s u p(4) that(1) unfolding unshared_def by metis
    with p show "(\<exists>c. t_conns st a = Some c \<and> c_client_conn c = None \<and> c_ev c = Some On_Client_Read)
     \<and> (\<exists>x v. c_handler_ctx uc = Some x \<and> t_ctxs st x = Some v)
     \<and> (\<forall>w wc. t_conns st w = Some wc \<longrightarrow> c_client_conn wc = Some a \<or> c_handler_ctx wc = c_handler_ctx uc \<longrightarrow> w = u)" by blast
  qed
qed

lemma dispatch_fe_keeps:
  assumes "fe_ok st" and "accounted acc st" and "t_conns st a = Some c" and "\<not> waited (t_conns st) a" and "net_ok st" and "hosts_ok cfg"
  shows "c_ev c = Some On_Client_Read \<and> overread c io \<or> keeps acc st (dispatch (frontend cfg) (frontend_upstream cfg) a io st)"
proof (cases "c_client_conn c")
  case None
  have "conn_ok c" using fe_conn_client [OF _ None] fe_heapD [OF assms(1) [unfolded fe_ok_def] assms(3)] by blast
  then consider "c_ev c = Some On_Client_Read" | "c_ev c = Some On_Client_Write" by (auto simp: conn_ok_def)
  then show ?thesis
  proof cases
    case 1
    then show ?thesis using client_read_fe_keeps [OF assms(1-3) None assms(4-6) 1, of io] assms(3) by (simp add: dispatch_def)
  next
    case 2
    then show ?thesis using client_write_fe_keeps [OF assms(1-3) None assms(4,5) 2, of io] assms(3) by (simp add: dispatch_def)
  qed
next
  case (Some b)
  have "up_ok c" by (rule upstream_points [OF assms(1,3) Some])
  then have "c_ev c \<in> {Some On_Upstream_Connect, Some On_Upstream_Write, Some On_Upstream_Read}" by (simp add: up_ok_def)
  then show ?thesis
    using upstream_connect_keeps [OF assms(1-3) Some assms(5)] upstream_write_keeps [OF assms(1-3) Some assms(5)]
      upstream_read_keeps [OF assms(1-3) Some assms(5,6)] assms(3)
    by (auto simp: dispatch_def)
qed

lemma accept_fe_keeps:
  assumes "fe_ok st" and "accounted acc st" and "0 \<le> fd" and "\<not> owned st fd"
  shows "fe_ok (on_accept_cb [fd] st) \<and> accounted (fd # acc) (on_accept_cb [fd] st)"
proof -
  obtain ok st1 where m: "calloc_ok st = (ok, st1)" by (rule prod.exhaust)
  have f: "t_conns st1 = t_conns st" "t_next st1 = t_next st" "t_closed st1 = t_closed st" "t_ctxs st1 = t_ctxs st"
      "t_next_ctx st1 = t_next_ctx st"
    using m by (auto simp: calloc_ok_def split: list.splits)
  show ?thesis
  proof (cases ok)
    case False
    have "owned (st1\<lparr>t_closed := fd # t_closed st1\<rparr>) = owned st" using f(1) by (simp add: owned_def fun_eq_iff)
    then show ?thesis using assms(1,2) m f False by (simp add: conn_alloc_def fe_ok_def accounted_def)
  next
    case True
    let ?c = "(blank_conn fd)\<lparr>c_ev := Some On_Client_Read\<rparr>" and ?n = "t_next st"
    let ?s = "on_accept_cb [fd] st"
    have s: "t_conns ?s = (t_conns st)(?n \<mapsto> ?c)" "t_next ?s = Suc ?n" "t_ctxs ?s = t_ctxs st" "t_next_ctx ?s = t_next_ctx st" "t_closed ?s = t_closed st"
      using m f True by (simp_all add: conn_alloc_def put_conn_def)
    have "conn_ok ?c" using assms(3) by (simp add: conn_ok_def blank_conn_def BUF_SIZE_def)
    then have c: "fe_conn ((t_conns st)(?n \<mapsto> ?c)) (t_ctxs st) ?c" by (simp add: fe_conn_def blank_conn_def)
    have "fe_heap ((t_conns st)(?n \<mapsto> ?c)) (Suc ?n) (t_ctxs st) (t_next_ctx st)"
    proof (rule heap_new [OF assms(1) [unfolded fe_ok_def] c])
      show "c_fd d \<noteq> c_fd ?c" if "t_conns st b = Some d" for b d using assms(4) that by (auto simp: blank_conn_def owned_def)
    qed (simp_all add: blank_conn_def)
    moreover have "owned ?s x \<longleftrightarrow> owned st x \<or> x = c_fd ?c" for x
      by (rule owned_new [OF conjunct1 [OF fe_ok_next [OF assms(1)]] s(1)])
    ultimately show ?thesis using assms(2,4) s by (simp add: fe_ok_def accounted_def blank_conn_def)
  qed
qed

lemma fe_served_keeps:
  assumes "fe_served cfg acc st" and "hosts_ok cfg"
  shows "fe_ok st \<and> accounted acc st"
  using assms(1)
proof induction
  case (fe_start st)
  then show ?case by (simp add: fe_ok_def fe_heap_def unshared_def accounted_def owned_def)
next
  case (fe_accept acc st fd)
  then show ?case using accept_fe_keeps by blast
next
  case (fe_event acc st a net io st')
  let ?s = "st\<lparr>t_net := net\<rparr>"
  obtain c where c: "t_conns ?s a = Some c" using fe_event(4) by (auto simp: dispatch_def bind_eq_Some_conv)
  have k: "fe_ok ?s" "accounted acc ?s" "\<not> waited (t_conns ?s) a"
    using fe_event(2,5) by (simp_all add: fe_ok_def accounted_def owned_def)
  from dispatch_fe_keeps [OF k(1,2) c k(3) fe_event(3) assms(2), of io] show ?case
  proof
    assume "c_ev c = Some On_Client_Read \<and> overread c io"
    then have "dispatch (frontend cfg) (frontend_upstream cfg) a io ?s = None"
      using c by (cases io) (auto simp: overread_def dispatch_def on_client_read_cb_def split: option.splits)
    with fe_event(4) show ?thesis by simp
  qed (use fe_event(4) in \<open>simp add: keeps_def\<close>)
qed

lemma fe_served_safe:
  assumes "fe_served cfg acc st" and "hosts_ok cfg"
  shows "fe_safe cfg acc st"
proof -
  note k = fe_served_keeps [OF assms]
  have "c_ev c = Some On_Client_Read \<and> overread c io"
    if "t_conns st a = Some c" "\<not> waited (t_conns st) a" "net_ok (st\<lparr>t_net := net\<rparr>)"
      "dispatch (frontend cfg) (frontend_upstream cfg) a io (st\<lparr>t_net := net\<rparr>) = None" for a c io net
  proof -
    have "fe_ok (st\<lparr>t_net := net\<rparr>)" "accounted acc (st\<lparr>t_net := net\<rparr>)" using k by (simp_all add: fe_ok_def accounted_def owned_def)
    from dispatch_fe_keeps [OF this _ _ that(3) assms(2), of a c io] that show ?thesis by (simp add: keeps_def)
  qed
  with k fe_ok_pointers show ?thesis by (simp add: fe_safe_def)
qed

text \<open>C7. The frontend over TCP, from \<open>main\<close> on: with working socket calls it enters its event loop with the
  configuration of its environment. From then on, in whatever pieces requests and responses arrive, whatever
  the upstream services answer and whichever allocation, connection, read or write fails, as long as no
  client with a lookup under way sends or closes: every upstream connection points to the live connection
  of one waiting client and to one live context, which no other connection points to; every registered
  callback finds its memory (the request parser's reading past its buffer excepted); and every
  descriptor that was accepted or opened is owned by one connection or was closed, never twice.\<close>

theorem frontend_program:
  assumes "0 \<le> le_socket env" and "le_bind env" and "le_listen env"
  shows "frontend_main getenv env s
      = (Inr (fe_main_config getenv, le_socket env), s(le_socket env \<mapsto> Listening (of_int (listen_port getenv)) 128))
    \<and> (\<forall>acc st. fe_served (fe_main_config getenv) acc st \<longrightarrow> fe_safe (fe_main_config getenv) acc st)"
proof -
  have "hosts_ok (fe_main_config getenv)" by (simp add: hosts_ok_def fe_main_config_def min_less_iff_disj split: option.splits)
  then show ?thesis
    using assms make_listen_socket_ok [OF assms] fe_served_safe by (simp add: frontend_main_def)
qed

lemma demo_lookup_started:
  obtains st uc where "fe_served (fe_main_config (\<lambda>_. None)) [8, 7] st" "t_conns st 2 = Some uc" "c_fd uc = 8"
    "c_client_conn uc = Some 1" "c_handler_ctx uc = Some 0"
proof -
  let ?cfg = "fe_main_config (\<lambda>_. None)" and ?st = "demo_frontend\<lparr>t_conns := Map.empty\<rparr>"
  let ?c = "(blank_conn 7)\<lparr>c_ev := Some On_Client_Read\<rparr>"
  have s0: "fe_served ?cfg [] ?st" by (rule fe_start) (simp_all add: demo_frontend_def)
  let ?s1 = "?st\<lparr>t_conns := [1 \<mapsto> ?c], t_next := 2\<rparr>"
  have a: "on_accept_cb [7] ?st = ?s1"
    by (simp add: demo_frontend_def conn_alloc_def calloc_ok_def put_conn_def)
  have "fe_served ?cfg [7] (on_accept_cb [7] ?st)" by (rule fe_accept [OF s0]) (simp_all add: owned_def)
  then have s1: "fe_served ?cfg [7] ?s1" by (simp only: a)
  define s where "s = ?s1\<lparr>t_net := [Connecting 8]\<rparr>"
  have c: "t_conns s 1 = Some ?c" "holds ?c []" "length (c_wbuf ?c) = BUF_SIZE"
    using holds_blank [of 7] by (simp_all add: s_def holds_def blank_conn_def)
  have f: "cfg_ok ?cfg" "heap_ok s" "t_mem s = []" "t_net s = [Connecting 8]" "name_ok ''bob''"
    by (simp_all add: s_def cfg_ok_def fe_main_config_def heap_ok_def demo_frontend_def name_ok_def)
  have m: "head_ok (request_line ''GET'' ''/lookup'' (Some (''name='' @ ''bob''))) [''Host: x''] (Some 2) []"
      "announced (Some 2) = length ''hi''"
      "length (msg_head (request_line ''GET'' ''/lookup'' (Some (''name='' @ ''bob''))) [''Host: x''] (Some 2) [] @ ''hi'') < BUF_SIZE"
    using demo_head_ok(1) by (simp_all add: announced_def msg_head_def request_line_def length_line_def BUF_SIZE_def show_nat.simps)
  obtain st1 sm c' where st1: "on_client_read_cb (frontend ?cfg) 1
        (Io_Data (msg_head (request_line ''GET'' ''/lookup'' (Some (''name='' @ ''bob''))) [''Host: x''] (Some 2) [] @ ''hi'')) s = Some st1"
      "tcp_asked sm st1 1 (t_next_ctx s) (tcp_peer ?cfg Id_Service) ''/id'' (''name='' @ ''bob'')"
    and sm: "sm = (put_conn 1 c' s)\<lparr>t_ctxs := (t_ctxs s)(t_next_ctx s \<mapsto> \<lparr>fx_stage = STAGE_WAITING_ID, fx_name = ''bob'', fx_id = 0\<rparr>),
      t_next_ctx := Suc (t_next_ctx s)\<rparr>"
    by (rule lookup_stage1 [OF c f m])
  have d: "dispatch (frontend ?cfg) (frontend_upstream ?cfg) 1
      (Io_Data (msg_head (request_line ''GET'' ''/lookup'' (Some (''name='' @ ''bob''))) [''Host: x''] (Some 2) [] @ ''hi'')) s = Some st1"
    using c(1) st1(1) by (simp add: dispatch_def)
  have n: "\<not> waited (t_conns ?s1) 1" "net_ok s"
    by (auto simp: waited_def s_def blank_conn_def net_ok_def owned_def split: if_splits)
  have q: "t_net st1 = []" "\<exists>uc. t_conns st1 2 = Some uc \<and> c_fd uc = 8 \<and> c_client_conn uc = Some 1 \<and> c_handler_ctx uc = Some 0"
    using st1(2) f(4) by (auto simp: tcp_asked_def sm put_conn_def s_def demo_frontend_def)
  have h: "handed s st1 = [8]" using f(4) q(1) by (simp add: handed_def)
  have "fe_served ?cfg ([8] @ [7]) st1"
    using fe_event [OF s1 n(1), of "[Connecting 8]"] n(2) d h unfolding s_def [symmetric] by metis
  with q(2) that [of st1] show ?thesis by auto
qed

theorem frontend_program_witness:
  "\<exists>cfg st uc. frontend_main (\<lambda>_. None) demo_listen Map.empty = (Inr (cfg, 3), [3 \<mapsto> Listening 8080 128])
     \<and> fe_served cfg [8, 7] st \<and> t_conns st 2 = Some uc \<and> c_fd uc = 8 \<and> c_client_conn uc = Some 1 \<and> c_handler_ctx uc = Some 0
     \<and> fe_safe cfg [8, 7] st"
proof -
  let ?cfg = "fe_main_config (\<lambda>_. None)"
  obtain st uc where s: "fe_served ?cfg [8, 7] st" and uc: "t_conns st 2 = Some uc" "c_fd uc = 8" "c_client_conn uc = Some 1"
      "c_handler_ctx uc = Some 0"
    by (rule demo_lookup_started)
  have "listen_port (\<lambda>_. None) = 8080" by (simp add: listen_port_def)
  with frontend_program [of demo_listen "\<lambda>_. None" Map.empty] s uc show ?thesis
    by (intro exI [of _ ?cfg] exI [of _ st] exI [of _ uc]) (simp add: demo_listen_def)
qed

end
