(* ===== verification/Spec2Isabelle.thy ===== *)
theory Spec2Isabelle
  imports Json_Util Http_Parse Buffer_Pool Desc_Ring Header_Json Pod_Registry Locking Shared_Objects Pipes Dpumesh
    Dpumesh_Correct Dpumesh_Machine Lifecycle Tcp_Handler Services Frontend Event_Loop Lookup Dpumesh_Handler Mesh_Services Mesh_Lookup Mesh_Loop Programs Frontend_Loop
begin

text \<open>
  Verification of mini_ms: three small HTTP services in C, each built in two versions, over TCP and over
  a shared memory mesh.

  \<^bold>\<open>The program.\<close> The \<^emph>\<open>frontend\<close> answers \<open>GET /lookup?name=N\<close>: it asks the \<^emph>\<open>id service\<close> for the id of the
  name and the \<^emph>\<open>attend service\<close> for the attendance of the id, and assembles the response. The two leaf
  services load a JSON file into a key-value store (\<open>common/json_util.c\<close>) and answer from it. Requests
  and responses are HTTP texts (\<open>common/http_parse.c\<close>). The TCP version runs on the callbacks of
  \<open>common/tcp_handler.c\<close>, the mesh version on those of \<open>common/dpumesh_handler.c\<close>, which turn the
  messages of the library \<open>common/dpumesh.c\<close> into HTTP texts and back. That library sends a message by
  writing a header and a body into slots of shared buffer pools and a descriptor into a shared ring;
  daemons outside the C code move it to the rings and pools of the receiving worker, whose poller
  thread passes the descriptor on through a pipe.

  \<^bold>\<open>The theories.\<close>
    \<^item> \<open>C_Base\<close>: the shared vocabulary: C strings and arrays with explicit bounds (\<open>None\<close> is an access
      outside the array), \<open>strtol\<close>, \<open>atoi\<close>, \<open>snprintf\<close>, 32 bit conversions.
    \<^item> \<open>Interfaces\<close>: the contracts of the components as locales: a bounded queue, a pool of slots, a store.
    \<^item> \<open>Json_Util\<close> (\<open>json_util.c\<close>): the loader on the bytes of the file, the lookups, \<open>query_get\<close>. Loading a
      well-formed text gives exactly its entries, and lookups find them; \<open>query_get\<close> agrees with
      splitting the query at its separators.
    \<^item> \<open>Http_Parse\<close> (\<open>http_parse.c\<close>): both parsers on a receive array with a length, and the formatter. A
      complete request is taken apart, a part of one is asked to be continued, formatted responses are
      read back, results stay inside their arrays.
    \<^item> \<open>Buffer_Pool\<close>, \<open>Desc_Ring\<close> (\<open>dpumesh.c\<close>, \<open>bp_*\<close> and \<open>dr_*\<close>): the shared objects, interpreting the pool and
      queue contracts; the ring refines a bounded FIFO queue.
    \<^item> \<open>Header_Json\<close> (\<open>serialize_header\<close>, \<open>json_get_*\<close>, \<open>parse_case2_body\<close>), \<open>Pod_Registry\<close> (\<open>pod_registry_*\<close>): round
      trips of the printed texts, and the registry file as a list of workers.
    \<^item> \<open>Locking\<close>: operations taken apart into single accesses under an advisory lock, in any number of processes
      and interleaved at will, and a locale whose law relates the accesses of an operation run alone to the
      whole operation. \<open>Shared_Objects\<close>: its interpretations on the pools, the rings, the pod counter and
      the pod registry; concurrent operations have the results of whole operations in some order and
      can always be completed. Two interleavings show what \<open>bp_flock\<close> and \<open>dr_flock\<close> cause by going on
      without the lock when they cannot open its file.
    \<^item> \<open>Pipes\<close>, \<open>Dpumesh\<close>: pipes with open ends and contents; the context of a worker, the poller,
      \<open>dpumesh_write\<close>, \<open>dpumesh_read\<close>, \<open>dpumesh_read_response\<close>, \<open>dpumesh_init\<close> and \<open>dpumesh_destroy\<close>.
    \<^item> \<open>Dpumesh_Correct\<close>: what one worker writes another one reads; failed writes leave no slot behind;
      reading ends and frees what it read, given a callback that returns. \<open>Dpumesh_Machine\<close>: the steps of a worker, with steps of the
      mesh in between, as an inductive relation, its invariant in all reachable states, and the state
      \<open>dpumesh_init\<close> starts from. \<open>Lifecycle\<close>: the descriptors (those of the notify pipe included), mappings and contexts that \<open>bp_init\<close>, \<open>dr_init\<close>,
      \<open>dpumesh_init\<close> acquire and \<open>bp_destroy\<close>, \<open>dr_destroy\<close>, \<open>dpumesh_destroy\<close> release; what a failed
      initialisation and an overwritten entry of the response table leave behind.
    \<^item> \<open>Tcp_Handler\<close> (\<open>tcp_handler.c\<close>): the heap of connections and every callback; requests that arrive in
      pieces, responses that go out in pieces.
    \<^item> \<open>Services\<close>: the handlers of the three services over the operations of a transport, the contract
      \<open>answering\<close> of a transport, and its interpretation over TCP. \<open>Frontend\<close>: the contract of a
      transport with upstream calls and its interpretation over TCP. \<open>Lookup\<close>: the three services
      together over TCP.
    \<^item> \<open>Dpumesh_Handler\<close> (\<open>dpumesh_handler.c\<close>): the callbacks of the mesh version on a heap of connections;
      \<open>Mesh_Services\<close>: the same handlers over the mesh, by the second interpretation of both contracts.
      \<open>Mesh_Lookup\<close>: a whole call from the frontend's handler to the id service and back, and the three services
      together over the mesh, from the client's request in the frontend's ring to the response in it.
      \<open>Mesh_Loop\<close>: the event for requests at a leaf service always returns and leaves nothing behind.
    \<^item> \<open>Event_Loop\<close> (\<open>epoll_run\<close>): libevent's loop over TCP as a relation, in which any registered callback may run
      next with any outcome of its system calls; the leaf services keep their connections well formed,
      use no freed memory and lose no descriptor. \<open>Programs\<close>: \<open>make_listen_socket\<close>, \<open>dpumesh_handler_init\<close>,
      every \<open>main\<close> up to its loop, and the loop over the mesh. \<open>Frontend_Loop\<close>: the loop of the frontend
      over TCP, whose upstream connections point to the connections and contexts of waiting clients; as
      long as these neither send nor close, every pointer stays live.

  \<^bold>\<open>State and errors.\<close> Every operation is a function from a state record to the new one; the heap of
  connections is a partial map from addresses, so that \<open>None\<close> is an access to freed memory as well as to
  an array outside its bounds. What system calls return (files, \<open>calloc\<close>, sockets, \<open>pipe\<close>, \<open>mmap\<close>) is an
  argument or a list of outcomes in the state; the hosts and ports that connections went to are recorded in
  it (\<open>t_dialed\<close>). Integers are words or are cut to 32 bits where the code
  does. What the daemons of the mesh do is the hypothesis \<open>relayed\<close>: the descriptor and the bytes of its
  slots arrive unchanged at the receiver; \<open>Mesh_Lookup\<close> takes the mesh as a function with this law
  (\<open>delivers\<close>) and runs one such function.

  \<^bold>\<open>Loops.\<close> All loops are total functions, with a measure where they scan a text. \<open>dpumesh_read\<close> runs until
  its pipe is empty and takes fuel; \<open>read_drains\<close> shows that one more than the number of descriptors in the
  pipe is enough for a callback that returns and leaves the pipe alone, and \<open>on_notify_cb\<close> gives it that
  much; \<open>notify_event_served\<close> shows that the callbacks of the leaf services are of this kind.

  \<^bold>\<open>Concurrency.\<close> The operations on the shared memory objects are single steps in \<open>Buffer_Pool\<close>, \<open>Desc_Ring\<close> and
  \<open>Pod_Registry\<close>, and so in all theories above them; \<open>Shared_Objects\<close> justifies this by reducing every
  interleaving of their accesses to such steps. A worker over the mesh has two threads, the poller and the
  event loop. The reachable states of \<open>Dpumesh_Machine\<close> interleave the single operations of the library with the poller and the mesh; in
  \<open>Programs\<close> a callback of the handler is one step.

  \<^bold>\<open>Not modelled.\<close> The simulated DPU and DPA daemons (Python); the contents of an object whose creation failed
  half way; \<open>msync\<close>; socket options; what follows the event loop in the mains (it does not end, its
  listening event being persistent); \<open>dpumesh_request_free\<close> and \<open>dpumesh_response_free\<close>, which are
  empty and never called; log output.
\<close>

end
